(* ===== verification/Prelude.thy ===== *)
theory Prelude
  imports Main "HOL-Library.Word" "HOL-Library.Multiset" "HOL-Library.Monad_Syntax"
begin

section \<open>Prelude: conventions and shared lemmas\<close>

text \<open>
  Conventions of the whole development.

  \<^item> A Go function that may panic (nil dereference, index out of range) returns an
    \<open>option\<close>: \<^term>\<open>None\<close> is the panic, which ends the process.
    The \<open>do\<close> notation of \<open>HOL-Library.Monad_Syntax\<close> sequences such computations.
  \<^item> A Go \<open>error\<close> is an \<open>option\<close> of its message; a pair of result and error is a
    pair, since the source uses both halves.
  \<^item> Go strings and byte slices are \<open>string\<close> (a list of bytes) and \<open>8 word list\<close>;
    \<open>uint64\<close> is \<open>64 word\<close>.

  The theory also holds the list and multiset lemmas that several components use.
\<close>

named_theorems go_errors \<open>the errors for a client, down to code and message\<close>

type_synonym uint64 = "64 word"
type_synonym gostring = string
type_synonym goerror = "string option"

subsection \<open>Lists split by a predicate\<close>

lemma takeWhile_neq: "q \<notin> set us \<Longrightarrow> takeWhile (\<lambda>p. p \<noteq> q) (us @ q # vs) = us"
  by (induction us) auto

lemma mset_insert_middle: "mset (takeWhile P xs @ x # dropWhile P xs) = add_mset x (mset xs)"
proof -
  have "mset xs = mset (takeWhile P xs) + mset (dropWhile P xs)"
    by (metis mset_append takeWhile_dropWhile_id)
  then show ?thesis by simp
qed

lemma set_insert_middle: "set (takeWhile P xs @ x # dropWhile P xs) = insert x (set xs)"
  by (metis mset_insert_middle set_mset_add_mset_insert set_mset_mset)

lemma sorted_insert_middle:
  fixes f :: "'a \<Rightarrow> 'b :: linorder"
  assumes "sorted (map f xs)"
  shows "sorted (map f (takeWhile (\<lambda>y. f y \<le> f x) xs @ x # dropWhile (\<lambda>y. f y \<le> f x) xs))"
  using assms
proof (induction xs)
  case Nil
  then show ?case by simp
next
  case (Cons y ys)
  show ?case
  proof (cases "f y \<le> f x")
    case True
    have "\<forall>z\<in>set (takeWhile (\<lambda>y. f y \<le> f x) ys @ x # dropWhile (\<lambda>y. f y \<le> f x) ys). f y \<le> f z"
      using True Cons.prems unfolding set_insert_middle by simp
    then show ?thesis using True Cons by auto
  next
    case False
    with Cons.prems show ?thesis by force
  qed
qed

lemma sorted_map_le_takeWhile:
  assumes "sorted (map f xs)" "x \<in> set (dropWhile (\<lambda>y. f y \<le> k) xs)"
  shows "\<not> f x \<le> k"
  using assms
proof (induction xs)
  case Nil
  then show ?case by simp
next
  case (Cons y ys)
  show ?case
  proof (cases "f y \<le> k")
    case True
    with Cons show ?thesis by simp
  next
    case False
    with Cons.prems show ?thesis by force
  qed
qed

lemma sorted_map_less_dropWhile:
  assumes "sorted (map f xs)" "x \<in> set (dropWhile (\<lambda>y. f y < k) xs)"
  shows "k \<le> f (x :: 'a) \<and> (f x :: 'b :: linorder) \<ge> k"
  using assms
proof (induction xs)
  case Nil
  then show ?case by simp
next
  case (Cons y ys)
  show ?case
  proof (cases "f y < k")
    case True
    with Cons show ?thesis by simp
  next
    case False
    with Cons.prems show ?thesis by force
  qed
qed

subsection \<open>Multisets of a list under an update\<close>

lemma sum_mset_list_update:
  assumes "t < length xs"
  shows "(\<Sum>x\<leftarrow>xs[t := b]. f x) + f (xs ! t) = (\<Sum>x\<leftarrow>xs. f x) + (f b :: 'm multiset)"
  using assms
proof (induction xs arbitrary: t)
  case Nil
  then show ?case by simp
next
  case (Cons x xs)
  then show ?case by (cases t) (auto simp: ac_simps)
qed

end
