(* ===== verification/GoStd.thy ===== *)
theory GoStd
  imports Prelude
begin

section \<open>The Go standard library, as far as the program uses it\<close>

text \<open>
  Instants and durations of package \<open>time\<close>, \<open>sort.Search\<close>, the builtin \<open>copy\<close> on one
  slice, and slice indexing.
\<close>

subsection \<open>Instants\<close>

text \<open>
  A \<open>time.Time\<close> is a wall clock reading (here in nanoseconds since the Unix epoch) and,
  when it was made by \<open>time.Now\<close>, a monotonic reading. \<open>Add\<close> moves both, \<open>Before\<close> and
  \<open>Sub\<close> use the monotonic readings when both have one, \<open>UnixMilli\<close> is the floor of the
  wall reading in milliseconds, and \<open>==\<close> compares the whole struct. The time zone, which
  \<open>==\<close> also compares, is the same local one for all instants of the program that are
  compared this way. A duration is an \<open>int64\<close> of nanoseconds: \<open>Sub\<close> saturates at its
  limits. Instants are unbounded here; the source's run out only hundreds of years away
  from the present (the monotonic reading) or later (the wall clock).
\<close>

record gotime =
  wall :: int
  mono :: "int option"

type_synonym duration = int

definition UnixMilli :: "gotime \<Rightarrow> int" where
  "UnixMilli t = wall t div 1000000"

definition time_add :: "gotime \<Rightarrow> duration \<Rightarrow> gotime" where
  "time_add t d = \<lparr>wall = wall t + d, mono = map_option (\<lambda>m. m + d) (mono t)\<rparr>"

definition time_before :: "gotime \<Rightarrow> gotime \<Rightarrow> bool" where
  "time_before t u =
     (case (mono t, mono u) of (Some a, Some b) \<Rightarrow> a < b | _ \<Rightarrow> wall t < wall u)"

definition sat_duration :: "int \<Rightarrow> duration" where
  "sat_duration d = max (- (2 ^ 63)) (min (2 ^ 63 - 1) d)"

definition time_sub :: "gotime \<Rightarrow> gotime \<Rightarrow> duration" where
  "time_sub t u =
     (case (mono t, mono u) of
        (Some a, Some b) \<Rightarrow> sat_duration (a - b) | _ \<Rightarrow> sat_duration (wall t - wall u))"

definition zero_time :: gotime where
  "zero_time = \<lparr>wall = - 62135596800000000000, mono = None\<rparr>"

definition clock :: "int \<Rightarrow> gotime" where
  "clock n = \<lparr>wall = n, mono = Some n\<rparr>"

lemma UnixMilli_mono: "wall t \<le> wall u \<Longrightarrow> UnixMilli t \<le> UnixMilli u"
  by (simp add: UnixMilli_def zdiv_mono1)

lemma time_not_before_sub: "\<not> time_before t u \<Longrightarrow> 0 \<le> time_sub t u"
  by (auto simp: time_before_def time_sub_def sat_duration_def split: option.splits)

subsection \<open>Slices\<close>

text \<open>Reading \<open>xs[i]\<close>: out of range is a panic.\<close>

definition index_at :: "'a list \<Rightarrow> nat \<Rightarrow> 'a option" where
  "index_at xs i = (if i < length xs then Some (xs ! i) else None)"

lemma index_at_simps [simp]:
  "i < length xs \<Longrightarrow> index_at xs i = Some (xs ! i)"
  "length xs \<le> i \<Longrightarrow> index_at xs i = None"
  by (simp_all add: index_at_def)

text \<open>
  \<open>copy(xs[d:], xs[s:])\<close>: as many elements as both ends leave room for, with the
  result of a copy through a temporary where they overlap.
\<close>

definition slice_copy :: "'a list \<Rightarrow> nat \<Rightarrow> nat \<Rightarrow> 'a list" where
  "slice_copy xs d s =
     (let n = min (length xs - d) (length xs - s)
      in take d xs @ take n (drop s xs) @ drop (d + n) xs)"

lemma slice_copy_insert:
  assumes "i \<le> length xs"
  shows "(slice_copy (xs @ [z]) (i + 1) i)[i := y] = take i xs @ y # drop i xs"
proof -
  have "take (Suc i) (xs @ [z]) = take i xs @ [(xs @ [z]) ! i]"
    using assms by (subst take_Suc_conv_app_nth) auto
  then have "slice_copy (xs @ [z]) (i + 1) i = take i xs @ (xs @ [z]) ! i # drop i xs"
    using assms by (simp add: slice_copy_def Let_def)
  then show ?thesis
    using assms by (simp only: list_update_append) simp
qed

lemma slice_copy_remove:
  assumes "i < length xs"
  shows "take (length xs - 1) ((slice_copy xs i (i + 1))[length xs - 1 := z])
       = take i xs @ drop (i + 1) xs"
proof -
  have n: "min (length xs - i) (length xs - (i + 1)) = length xs - (i + 1)" by simp
  have "take (length xs - 1) (slice_copy xs i (i + 1)) = take i xs @ drop (i + 1) xs"
    using assms unfolding slice_copy_def Let_def n by simp
  then show ?thesis by simp
qed

subsection \<open>Binary search: \<open>sort.Search\<close>\<close>

text \<open>
  \<open>sort.Search(n, f)\<close> keeps \<open>f(i-1) = false\<close> and \<open>f(j) = true\<close> and halves the interval;
  \<open>f\<close> may panic.
\<close>

function search_loop :: "(nat \<Rightarrow> bool option) \<Rightarrow> nat \<Rightarrow> nat \<Rightarrow> nat option" where
  "search_loop f i j =
     (if i < j
      then (case f ((i + j) div 2) of
              None \<Rightarrow> None
            | Some b \<Rightarrow> if \<not> b then search_loop f ((i + j) div 2 + 1) j
                       else search_loop f i ((i + j) div 2))
      else Some i)"
  by pat_completeness auto
termination
  by (relation "measure (\<lambda>(f, i, j). j - i)") auto

declare search_loop.simps [simp del]

definition sort_search :: "nat \<Rightarrow> (nat \<Rightarrow> bool option) \<Rightarrow> nat option" where
  "sort_search n f = search_loop f 0 n"

lemma search_loop_correct:
  assumes "i \<le> m" "m \<le> j"
    and "\<And>k. i \<le> k \<Longrightarrow> k < m \<Longrightarrow> f k = Some False"
    and "\<And>k. m \<le> k \<Longrightarrow> k < j \<Longrightarrow> f k = Some True"
  shows "search_loop f i j = Some m"
  using assms
proof (induction f i j rule: search_loop.induct)
  case (1 f i j)
  let ?h = "(i + j) div 2"
  show ?case
  proof (cases "i < j")
    case False
    then show ?thesis using 1 by (simp add: search_loop.simps [of f i j])
  next
    case True
    then have h: "i \<le> ?h" "?h < j" by auto
    show ?thesis
    proof (cases "?h < m")
      case less: True
      then have f: "f ?h = Some False" using 1 h by simp
      have "search_loop f (?h + 1) j = Some m"
        using "1.IH"(1) [OF True f] "1.prems" less h by simp
      then show ?thesis using True f by (simp add: search_loop.simps [of f i j])
    next
      case ge: False
      then have f: "f ?h = Some True" using 1 h by simp
      have "search_loop f i ?h = Some m"
        using "1.IH"(2) [OF True f] "1.prems" ge h by simp
      then show ?thesis using True f by (simp add: search_loop.simps [of f i j])
    qed
  qed
qed

text \<open>
  On a list that a predicate splits into a prefix where it fails and a rest where it
  holds, the search returns the length of that prefix.
\<close>

lemma sort_search_partition:
  assumes "\<And>k. k < length xs \<Longrightarrow> f k = Some (\<not> P (xs ! k))"
    and "\<And>x. x \<in> set (dropWhile P xs) \<Longrightarrow> \<not> P x"
  shows "sort_search (length xs) f = Some (length (takeWhile P xs))"
  unfolding sort_search_def
proof (rule search_loop_correct)
  let ?m = "length (takeWhile P xs)"
  show "?m \<le> length xs" by (rule length_takeWhile_le)
  fix k
  {
    assume k: "k < ?m"
    then have "P (xs ! k)"
      by (metis nth_mem set_takeWhileD takeWhile_nth)
    moreover have "k < length xs"
      using k length_takeWhile_le [of P xs] by linarith
    ultimately show "f k = Some False" using assms(1) by simp
  }
  {
    assume k: "?m \<le> k" "k < length xs"
    then have "dropWhile P xs ! (k - ?m) = xs ! k"
      by (simp add: dropWhile_eq_drop)
    moreover have "k - ?m < length (dropWhile P xs)"
      using k by (simp add: dropWhile_eq_drop)
    ultimately have "xs ! k \<in> set (dropWhile P xs)"
      by (metis nth_mem)
    then show "f k = Some True" using assms k by simp
  }
qed simp

end
