(* ===== verification/GoText.thy ===== *)
theory GoText
  imports Prelude
begin

section \<open>Strings, numbers and hexadecimal text of the Go standard library\<close>

text \<open>
  What the program uses of the packages \<open>strings\<close>, \<open>strconv\<close>, \<open>math/big\<close> and
  \<open>encoding/hex\<close>. A string is a list of bytes; a byte slice is a list of \<open>8 word\<close>; a
  \<open>big.Int\<close> is an \<open>int\<close>.
\<close>

type_synonym gobytes = "8 word list"

subsection \<open>Prefixes and separators\<close>

fun HasPrefix :: "gostring \<Rightarrow> gostring \<Rightarrow> bool" where
  "HasPrefix s [] = True"
| "HasPrefix [] (p # ps) = False"
| "HasPrefix (c # s) (p # ps) = (c = p \<and> HasPrefix s ps)"

definition TrimPrefix :: "gostring \<Rightarrow> gostring \<Rightarrow> gostring" where
  "TrimPrefix s p = (if HasPrefix s p then drop (length p) s else s)"

lemma HasPrefix_append [simp]: "HasPrefix (p @ s) p"
  by (induction p) auto

lemma TrimPrefix_append [simp]: "TrimPrefix (p @ s) p = s"
  by (simp add: TrimPrefix_def)

text \<open>\<open>strings.Cut\<close> and \<open>strings.Split\<close> with a separator of one byte.\<close>

fun cut_at :: "char \<Rightarrow> gostring \<Rightarrow> (gostring \<times> gostring) option" where
  "cut_at c [] = None"
| "cut_at c (x # xs) = (if x = c then Some ([], xs) else map_option (\<lambda>(a, b). (x # a, b)) (cut_at c xs))"

fun split_at :: "char \<Rightarrow> gostring \<Rightarrow> gostring list" where
  "split_at c [] = [[]]"
| "split_at c (x # xs) =
     (if x = c then [] # split_at c xs
      else (case split_at c xs of [] \<Rightarrow> [[x]] | p # ps \<Rightarrow> (x # p) # ps))"

lemma split_at_first: "split_at c s \<noteq> [] \<and> hd (split_at c s) = takeWhile (\<lambda>x. x \<noteq> c) s"
  by (induction s) (auto split: list.split)

lemma cut_at_Some:
  "cut_at c s = Some (a, b) \<longleftrightarrow> s = a @ c # b \<and> c \<notin> set a"
proof (induction s arbitrary: a)
  case (Cons x xs)
  show ?case
  proof (cases a)
    case Nil
    then show ?thesis by (auto split: prod.splits)
  next
    case (Cons y ys)
    then show ?thesis using Cons.IH [of ys] by (auto split: prod.splits)
  qed
qed simp

lemma cut_at_None: "cut_at c s = None \<longleftrightarrow> c \<notin> set s"
  by (induction s) auto

subsection \<open>Digits\<close>

definition digit_val :: "char \<Rightarrow> nat option" where
  "digit_val c =
     (let n = of_char c :: nat in
      if 48 \<le> n \<and> n \<le> 57 then Some (n - 48)
      else if 97 \<le> n \<and> n \<le> 122 then Some (n - 87)
      else if 65 \<le> n \<and> n \<le> 90 then Some (n - 55)
      else None)"

definition digit_char :: "nat \<Rightarrow> char" where
  "digit_char n = char_of (if n < 10 then 48 + n else 87 + n)"

lemma digit_val_char [simp]: "n < 36 \<Longrightarrow> digit_val (digit_char n) = Some n"
  by (simp add: digit_val_def digit_char_def Let_def)

text \<open>Is the byte a digit of the base?\<close>

definition is_digit :: "nat \<Rightarrow> char \<Rightarrow> bool" where
  "is_digit b c = (case digit_val c of None \<Rightarrow> False | Some d \<Rightarrow> d < b)"

lemma is_digit_char [simp]: "n < b \<Longrightarrow> b \<le> 36 \<Longrightarrow> is_digit b (digit_char n)"
  by (simp add: is_digit_def)

text \<open>Writing a number in a base from 2 to 36, and the value of a row of digits.\<close>

fun format_nat :: "nat \<Rightarrow> nat \<Rightarrow> gostring" where
  "format_nat b n =
     (if n < b \<or> b < 2 then [digit_char n] else format_nat b (n div b) @ [digit_char (n mod b)])"

declare format_nat.simps [simp del]

definition digits_value :: "nat \<Rightarrow> gostring \<Rightarrow> nat" where
  "digits_value b s = foldl (\<lambda>n c. n * b + the (digit_val c)) 0 s"

lemma format_nat_digits:
  "2 \<le> b \<Longrightarrow> b \<le> 36 \<Longrightarrow> list_all (is_digit b) (format_nat b n) \<and> format_nat b n \<noteq> []"
proof (induction b n rule: format_nat.induct)
  case (1 b n)
  then show ?case by (subst (1 2) format_nat.simps) auto
qed

lemma format_nat_value: "2 \<le> b \<Longrightarrow> b \<le> 36 \<Longrightarrow> digits_value b (format_nat b n) = n"
proof (induction b n rule: format_nat.induct)
  case (1 b n)
  show ?case
  proof (cases "n < b")
    case True
    then show ?thesis using 1 by (subst format_nat.simps) (simp add: digits_value_def)
  next
    case False
    have "n mod b < 36" using 1(2,3) mod_less_divisor [of b n] by linarith
    moreover have "digits_value b (format_nat b (n div b)) = n div b"
      using 1 False by simp
    ultimately show ?thesis using 1 False
      by (subst format_nat.simps) (simp add: digits_value_def)
  qed
qed

lemma format_nat_length: "2 \<le> b \<Longrightarrow> n < b ^ k \<Longrightarrow> 0 < k \<Longrightarrow> length (format_nat b n) \<le> k"
proof (induction k arbitrary: n)
  case (Suc k)
  show ?case
  proof (cases "n < b")
    case True
    then show ?thesis by (subst format_nat.simps) simp
  next
    case False
    have "0 < k" using False Suc.prems by (cases k) auto
    moreover have "n div b < b ^ k"
      using Suc.prems by (simp add: less_mult_imp_div_less mult.commute)
    ultimately have "length (format_nat b (n div b)) \<le> k" using Suc by simp
    then show ?thesis using False Suc.prems by (subst format_nat.simps) simp
  qed
qed simp

subsection \<open>Reading numbers\<close>

text \<open>
  \<open>strconv.ParseUint(s, base, 64)\<close> for an explicit base: the value read so far is checked
  against overflow before the next byte is looked at. The error is \<open>ErrSyntax\<close>, with 0, or
  \<open>ErrRange\<close>, with the largest \<open>uint64\<close>.
\<close>

datatype num_error = ErrSyntax | ErrRange

fun parse_uint_loop :: "nat \<Rightarrow> gostring \<Rightarrow> nat \<Rightarrow> uint64 \<times> num_error option" where
  "parse_uint_loop b [] n = (of_nat n, None)"
| "parse_uint_loop b (c # s) n =
     (if \<not> is_digit b c then (0, Some ErrSyntax)
      else if n * b + the (digit_val c) \<ge> 2 ^ 64 then (- 1, Some ErrRange)
      else parse_uint_loop b s (n * b + the (digit_val c)))"

definition ParseUint :: "gostring \<Rightarrow> nat \<Rightarrow> uint64 \<times> num_error option" where
  "ParseUint s b = (if s = [] then (0, Some ErrSyntax) else parse_uint_loop b s 0)"

lemma foldl_digits_mono: "0 < b \<Longrightarrow> n \<le> foldl (\<lambda>n c. n * b + f c) (n::nat) s"
proof (induction s arbitrary: n)
  case (Cons c s)
  have "n * 1 \<le> n * b" using Cons.prems by (intro mult_le_mono2) simp
  then have "n \<le> n * b + f c" unfolding mult_1_right by (rule trans_le_add1)
  also have "\<dots> \<le> foldl (\<lambda>n c. n * b + f c) (n * b + f c) s" by (rule Cons.IH [OF Cons.prems])
  finally show ?case by simp
qed simp

lemma parse_uint_loop_value:
  assumes "list_all (is_digit b) s" "0 < b"
  shows "parse_uint_loop b s n =
    (let v = foldl (\<lambda>n c. n * b + the (digit_val c)) n s in
     if v < 2 ^ 64 \<or> s = [] then (of_nat v, None) else (- 1, Some ErrRange))"
  using assms(1)
proof (induction s arbitrary: n)
  case (Cons c s)
  let ?n = "n * b + the (digit_val c)"
  have "?n \<le> foldl (\<lambda>n c. n * b + the (digit_val c)) ?n s"
    by (rule foldl_digits_mono [OF assms(2)])
  then show ?case using Cons by (cases "s = []") (auto simp: Let_def)
qed (simp add: Let_def)

lemma ParseUint_digits:
  assumes "list_all (is_digit b) s" "s \<noteq> []" "0 < b"
  shows "ParseUint s b = (if digits_value b s < 2 ^ 64 then (of_nat (digits_value b s), None)
                          else (- 1, Some ErrRange))"
  using parse_uint_loop_value [OF assms(1,3), of 0] assms(2)
  by (simp add: ParseUint_def digits_value_def Let_def)

lemma parse_uint_loop_ok:
  "parse_uint_loop b s n = (v, None) \<Longrightarrow> list_all (is_digit b) s"
  by (induction b s n rule: parse_uint_loop.induct) (auto split: if_splits)

text \<open>
  \<open>big.Int.SetString(s, base)\<close>: an optional sign, then digits to the end. The pair is the
  value left in the receiver and whether the conversion succeeded; when it fails the
  documentation calls the value undefined, and the library leaves what it has read so far.
\<close>

fun big_sign :: "gostring \<Rightarrow> bool \<times> gostring" where
  "big_sign [] = (False, [])"
| "big_sign (c # s) = (if c = CHR ''-'' then (True, s) else if c = CHR ''+'' then (False, s) else (False, c # s))"

definition SetString :: "gostring \<Rightarrow> nat \<Rightarrow> int \<times> bool" where
  "SetString s b =
     (let (neg, t) = big_sign s;
          ds = takeWhile (is_digit b) t;
          v = int (digits_value b ds)
      in (if neg then - v else v, ds \<noteq> [] \<and> ds = t))"

lemma SetString_digits:
  assumes "list_all (is_digit b) s" "s \<noteq> []"
  shows "SetString s b = (int (digits_value b s), True)"
proof -
  obtain c cs where s: "s = c # cs" using assms(2) by (cases s) auto
  then have "is_digit b c" using assms(1) by simp
  then have "c \<noteq> CHR ''-''" "c \<noteq> CHR ''+''" by (auto simp: is_digit_def digit_val_def)
  moreover have "takeWhile (is_digit b) s = s" using assms(1) by (simp add: list_all_iff)
  ultimately show ?thesis using assms unfolding SetString_def s
    by (simp only: big_sign.simps if_False Let_def prod.case) simp
qed

subsection \<open>Hexadecimal text\<close>

definition byte_char :: "8 word \<Rightarrow> char" where
  "byte_char w = char_of (unat w)"

definition hex_byte :: "8 word \<Rightarrow> gostring" where
  "hex_byte w = [digit_char (unat w div 16), digit_char (unat w mod 16)]"

definition hex_EncodeToString :: "gobytes \<Rightarrow> gostring" where
  "hex_EncodeToString bs = concat (map hex_byte bs)"

datatype hex_error = InvalidByteError char | ErrLength

text \<open>\<open>hex.DecodeString\<close> gives what it has decoded before the error.\<close>

fun hex_DecodeString :: "gostring \<Rightarrow> gobytes \<times> hex_error option" where
  "hex_DecodeString [] = ([], None)"
| "hex_DecodeString [p] = ([], Some (if is_digit 16 p then ErrLength else InvalidByteError p))"
| "hex_DecodeString (p # q # s) =
     (if \<not> is_digit 16 p then ([], Some (InvalidByteError p))
      else if \<not> is_digit 16 q then ([], Some (InvalidByteError q))
      else (let (bs, e) = hex_DecodeString s
            in (of_nat (16 * the (digit_val p) + the (digit_val q)) # bs, e)))"

lemma hex_byte_length [simp]: "length (hex_byte w) = 2"
  by (simp add: hex_byte_def)

lemma unat_byte: "unat (w :: 8 word) < 256"
  using unsigned_less [of w] by simp

lemma hex_decode_byte: "hex_DecodeString (hex_byte w @ s) = (w # fst (hex_DecodeString s), snd (hex_DecodeString s))"
proof -
  have "unat w div 16 < 16" "unat w mod 16 < 16" using unat_byte [of w] by auto
  then show ?thesis
    by (simp add: hex_byte_def split: prod.split)
qed

lemma hex_roundtrip: "hex_DecodeString (hex_EncodeToString bs) = (bs, None)"
proof (induction bs)
  case (Cons w bs)
  then show ?case using hex_decode_byte [of w "hex_EncodeToString bs"]
    by (simp add: hex_EncodeToString_def)
qed (simp add: hex_EncodeToString_def)

lemma hex_encode_length: "length (hex_EncodeToString bs) = 2 * length bs"
  by (induction bs) (auto simp: hex_EncodeToString_def)

lemma hex_decode_ok:
  "snd (hex_DecodeString s) = None \<longleftrightarrow> list_all (is_digit 16) s \<and> even (length s)"
  by (induction s rule: hex_DecodeString.induct) (auto split: prod.splits)

end
