(* ===== verification/L2Transaction.thy ===== *)
theory L2Transaction
  imports GoStd GoText
begin

section \<open>Package types: transactions and their statuses\<close>

text \<open>
  The record every component passes around (\<open>types/l2transaction.go\<close>) and the status
  strings that the pool database stores. Field \<open>tx_X\<close> is the source's field \<open>X\<close>.
\<close>

definition TxStatusPending :: gostring where "TxStatusPending = ''pending''"
definition TxStatusInvalid :: gostring where "TxStatusInvalid = ''invalid''"
definition TxStatusConfirmed :: gostring where "TxStatusConfirmed = ''confirmed''"
definition TxStatusSent :: gostring where "TxStatusSent = ''sent''"
definition TxStatusFailed :: gostring where "TxStatusFailed = ''failed''"
definition TxStatusResend :: gostring where "TxStatusResend = ''resend''"
definition TxStatusExpired :: gostring where "TxStatusExpired = ''expired''"

lemmas TxStatus_defs =
  TxStatusPending_def TxStatusInvalid_def TxStatusConfirmed_def TxStatusSent_def
  TxStatusFailed_def TxStatusResend_def TxStatusExpired_def

lemma TxStatus_distinct:
  "distinct [TxStatusPending, TxStatusInvalid, TxStatusConfirmed, TxStatusSent,
             TxStatusFailed, TxStatusResend, TxStatusExpired]"
  by (simp add: TxStatus_defs)

record L2Transaction =
  tx_Id :: uint64
  tx_Hash :: gostring
  tx_ReceivedAt :: gotime
  tx_FromAddress :: gostring
  tx_GasPrice :: uint64
  tx_Nonce :: uint64
  tx_Status :: gostring
  tx_IP :: gostring
  tx_Encoded :: gostring
  tx_Decoded :: gostring

text \<open>\<open>fmt.Sprintf("[%d]:%s", ...)\<close>, the name of a transaction in the log.\<close>

definition Tag :: "L2Transaction \<Rightarrow> gostring" where
  "Tag t = ''['' @ format_nat 10 (unat (tx_Id t)) @ '']:'' @ tx_Hash t"

text \<open>
  A transaction with the zero value in every field but the ones a composite literal of
  the source gives (here: the identifier, the hash and the time of arrival).
\<close>

definition mk_tx :: "uint64 \<Rightarrow> gostring \<Rightarrow> gotime \<Rightarrow> L2Transaction" where
  "mk_tx i h t = \<lparr>tx_Id = i, tx_Hash = h, tx_ReceivedAt = t, tx_FromAddress = [],
     tx_GasPrice = 0, tx_Nonce = 0, tx_Status = [], tx_IP = [], tx_Encoded = [], tx_Decoded = []\<rparr>"

lemma mk_tx_simps [simp]:
  "tx_Id (mk_tx i h t) = i" "tx_Hash (mk_tx i h t) = h" "tx_ReceivedAt (mk_tx i h t) = t"
  by (simp_all add: mk_tx_def)

end
