(* ===== verification/RequestList.thy ===== *)
theory RequestList
  imports L2Transaction
begin

section \<open>The retry list of the monitor\<close>

text \<open>
  Model of \<open>monitor/request_list.go\<close>. The list is a map from transaction identifiers to
  requests and a slice of the same requests sorted by the time of their next retry. Both
  hold pointers to requests that other goroutines also hold and that
  \<open>scheduleRequestRetry\<close> mutates, so requests live in a store and the list holds their
  addresses. Every exported operation runs under the list's mutex, hence is one atomic
  function here; a nil dereference or an index out of range is \<^term>\<open>None\<close>.
\<close>

subsection \<open>Data\<close>

type_synonym ref = nat

definition nil :: ref where "nil = 0"

record monitorRequest =
  l2Tx :: L2Transaction
  nextRetry :: gotime

type_synonym heap = "ref \<rightharpoonup> monitorRequest"

record monitorRequestList =
  rl_list :: "uint64 \<rightharpoonup> ref"
  rl_sorted :: "ref list"

definition newMonitorRequestList :: monitorRequestList where
  "newMonitorRequestList = \<lparr>rl_list = Map.empty, rl_sorted = []\<rparr>"

text \<open>Following a pointer, and reading a Go map (a missing key gives the nil pointer).\<close>

definition deref :: "heap \<Rightarrow> ref \<Rightarrow> monitorRequest option" where
  "deref h p = (if p = nil then None else h p)"

definition list_get :: "monitorRequestList \<Rightarrow> uint64 \<Rightarrow> ref" where
  "list_get rl i = (case rl_list rl i of None \<Rightarrow> nil | Some p \<Rightarrow> p)"

subsection \<open>Operations\<close>

definition isGreaterThan :: "heap \<Rightarrow> ref \<Rightarrow> ref \<Rightarrow> bool option" where
  "isGreaterThan h request1 request2 = do {
     r1 \<leftarrow> deref h request1;
     r2 \<leftarrow> deref h request2;
     Some (UnixMilli (nextRetry r1) > UnixMilli (nextRetry r2)) }"

definition isGreaterOrEqualThan :: "heap \<Rightarrow> ref \<Rightarrow> ref \<Rightarrow> bool option" where
  "isGreaterOrEqualThan h request1 request2 = do {
     r1 \<leftarrow> deref h request1;
     r2 \<leftarrow> deref h request2;
     Some (UnixMilli (nextRetry r1) \<ge> UnixMilli (nextRetry r2)) }"

definition addSort :: "heap \<Rightarrow> ref \<Rightarrow> monitorRequestList \<Rightarrow> monitorRequestList option" where
  "addSort h request e = do {
     i \<leftarrow> sort_search (length (rl_sorted e)) (\<lambda>i. do {
            p \<leftarrow> index_at (rl_sorted e) i;
            r \<leftarrow> deref h p;
            isGreaterThan h (list_get e (tx_Id (l2Tx r))) request });
     let s = slice_copy (rl_sorted e @ [nil]) (i + 1) i;
     Some (e\<lparr>rl_sorted := s[i := request]\<rparr>) }"

definition add :: "heap \<Rightarrow> ref \<Rightarrow> monitorRequestList \<Rightarrow> (bool \<times> monitorRequestList) option" where
  "add h request e = do {
     r \<leftarrow> deref h request;
     case rl_list e (tx_Id (l2Tx r)) of
       None \<Rightarrow> do {
         e' \<leftarrow> addSort h request (e\<lparr>rl_list := (rl_list e)(tx_Id (l2Tx r) \<mapsto> request)\<rparr>);
         Some (True, e') }
     | Some _ \<Rightarrow> Some (False, e) }"

text \<open>
  The loop of \<open>delete\<close> from index \<open>i\<close> on: \<^term>\<open>Some None\<close> is one of its two early
  returns of false, \<^term>\<open>Some (Some i)\<close> its \<open>break\<close>.
\<close>

function delete_scan :: "heap \<Rightarrow> ref list \<Rightarrow> ref \<Rightarrow> nat \<Rightarrow> nat option option" where
  "delete_scan h xs request i =
     (if i = length xs then Some None
      else if i < length xs then
        (case (deref h (xs ! i), deref h request) of
           (Some a, Some r) \<Rightarrow>
             if nextRetry a \<noteq> nextRetry r then Some None
             else if tx_Hash (l2Tx a) = tx_Hash (l2Tx r) then Some (Some i)
             else delete_scan h xs request (i + 1)
         | _ \<Rightarrow> None)
      else None)"
  by pat_completeness auto
termination
  by (relation "measure (\<lambda>(h, xs, request, i). length xs - i)") auto

declare delete_scan.simps [simp del]

definition delete :: "heap \<Rightarrow> ref \<Rightarrow> monitorRequestList \<Rightarrow> (bool \<times> monitorRequestList) option" where
  "delete h request0 e = do {
     r0 \<leftarrow> deref h request0;
     case rl_list e (tx_Id (l2Tx r0)) of
       None \<Rightarrow> Some (False, e)
     | Some request \<Rightarrow> do {
         let sLen = length (rl_sorted e);
         i \<leftarrow> sort_search sLen (\<lambda>i. do {
                p \<leftarrow> index_at (rl_sorted e) i;
                r \<leftarrow> deref h p;
                isGreaterOrEqualThan h (list_get e (tx_Id (l2Tx r))) request });
         found \<leftarrow> delete_scan h (rl_sorted e) request i;
         case found of
           None \<Rightarrow> Some (False, e)
         | Some i \<Rightarrow> do {
             r \<leftarrow> deref h request;
             let s = slice_copy (rl_sorted e) i (i + 1);
             Some (True, e\<lparr>rl_list := (rl_list e)(tx_Id (l2Tx r) := None),
                           rl_sorted := take (sLen - 1) (s[sLen - 1 := nil])\<rparr>) } } }"

definition getByIndex :: "nat \<Rightarrow> monitorRequestList \<Rightarrow> ref option" where
  "getByIndex i e = index_at (rl_sorted e) i"

definition len :: "monitorRequestList \<Rightarrow> nat" where
  "len e = length (rl_sorted e)"

definition GetSorted :: "monitorRequestList \<Rightarrow> ref list" where
  "GetSorted e = rl_sorted e"

text \<open>
  The lines that \<open>Print\<close> writes; a nil request panics. \<open>num\<close> and \<open>time\<close> are the texts of an
  integer and of a time.
\<close>

definition Print :: "(nat \<Rightarrow> gostring) \<Rightarrow> (gotime \<Rightarrow> gostring) \<Rightarrow> heap \<Rightarrow> monitorRequestList \<Rightarrow> gostring list option" where
  "Print num time h e =
     map_option (\<lambda>rs. (''Len:  '' @ num (length (rl_sorted e)))
         # map (\<lambda>r. ''Hash='' @ tx_Hash (l2Tx r) @ '', nextRetry='' @ time (nextRetry r)) rs)
       (those (map (deref h) (rl_sorted e)))"

subsection \<open>Invariant\<close>

text \<open>What the list knows of the request at an address.\<close>

definition req_id :: "heap \<Rightarrow> ref \<Rightarrow> uint64" where
  "req_id h p = tx_Id (l2Tx (the (h p)))"

definition req_hash :: "heap \<Rightarrow> ref \<Rightarrow> gostring" where
  "req_hash h p = tx_Hash (l2Tx (the (h p)))"

definition req_time :: "heap \<Rightarrow> ref \<Rightarrow> gotime" where
  "req_time h p = nextRetry (the (h p))"

definition req_key :: "heap \<Rightarrow> ref \<Rightarrow> int" where
  "req_key h p = UnixMilli (req_time h p)"

text \<open>
  The invariant: the slice holds live pointers, without repetition, in the order of the
  millisecond of their next retry, and the map sends an identifier to a pointer exactly
  when the pointer is in the slice and has that identifier.
\<close>

definition rl_inv :: "heap \<Rightarrow> monitorRequestList \<Rightarrow> bool" where
  "rl_inv h e \<longleftrightarrow>
     distinct (rl_sorted e) \<and>
     (\<forall>p\<in>set (rl_sorted e). p \<noteq> nil \<and> h p \<noteq> None) \<and>
     sorted (map (req_key h) (rl_sorted e)) \<and>
     (\<forall>i p. rl_list e i = Some p \<longleftrightarrow> p \<in> set (rl_sorted e) \<and> req_id h p = i)"

lemma deref_live: "p \<noteq> nil \<Longrightarrow> h p = Some r \<Longrightarrow> deref h p = Some r"
  by (simp add: deref_def)

lemma rl_inv_deref:
  "rl_inv h e \<Longrightarrow> p \<in> set (rl_sorted e) \<Longrightarrow> deref h p = Some (the (h p))"
  by (auto simp: rl_inv_def deref_def)

lemma rl_inv_list_get:
  "rl_inv h e \<Longrightarrow> p \<in> set (rl_sorted e) \<Longrightarrow> list_get e (req_id h p) = p"
  unfolding rl_inv_def list_get_def by (metis option.simps(5))

lemma rl_inv_id_inj:
  "rl_inv h e \<Longrightarrow> p \<in> set (rl_sorted e) \<Longrightarrow> q \<in> set (rl_sorted e)
   \<Longrightarrow> req_id h p = req_id h q \<Longrightarrow> p = q"
  by (metis rl_inv_list_get)

lemma rl_inv_lookup:
  "rl_inv h e \<Longrightarrow> rl_list e i = Some p \<longleftrightarrow> p \<in> set (rl_sorted e) \<and> req_id h p = i"
  by (simp add: rl_inv_def)

lemma rl_inv_lookup_None:
  "rl_inv h e \<Longrightarrow> rl_list e i = None \<longleftrightarrow> (\<forall>p\<in>set (rl_sorted e). req_id h p \<noteq> i)"
  by (metis not_None_eq rl_inv_lookup)

lemma rl_inv_new: "rl_inv h newMonitorRequestList"
  by (simp add: rl_inv_def newMonitorRequestList_def)

subsection \<open>Adding a request\<close>

text \<open>
  The reference behaviour: the new request goes behind every request whose millisecond is
  not later, so requests of one millisecond keep their order of arrival.
\<close>

definition insert_sorted :: "heap \<Rightarrow> ref \<Rightarrow> ref list \<Rightarrow> ref list" where
  "insert_sorted h request xs =
     takeWhile (\<lambda>p. req_key h p \<le> req_key h request) xs @ request #
     dropWhile (\<lambda>p. req_key h p \<le> req_key h request) xs"

lemma set_insert_sorted [simp]: "set (insert_sorted h r xs) = insert r (set xs)"
  unfolding insert_sorted_def by (rule set_insert_middle)

lemma mset_insert_sorted [simp]: "mset (insert_sorted h r xs) = add_mset r (mset xs)"
  unfolding insert_sorted_def by (rule mset_insert_middle)

lemma distinct_insert_sorted [simp]:
  "distinct (insert_sorted h r xs) \<longleftrightarrow> r \<notin> set xs \<and> distinct xs"
  by (metis distinct.simps(2) mset.simps(2) mset_eq_imp_distinct_iff mset_insert_sorted)

lemma length_insert_sorted [simp]: "length (insert_sorted h r xs) = Suc (length xs)"
  by (metis length_Cons mset.simps(2) mset_insert_sorted size_mset)

lemma sorted_insert_sorted:
  "sorted (map (req_key h) xs) \<Longrightarrow> sorted (map (req_key h) (insert_sorted h r xs))"
  unfolding insert_sorted_def by (rule sorted_insert_middle)

lemma addSort_insert_sorted:
  assumes live: "\<And>p. p \<in> set (rl_sorted e) \<Longrightarrow> deref h p = Some (the (h p))"
    and look: "\<And>p. p \<in> set (rl_sorted e) \<Longrightarrow> list_get e (req_id h p) = p"
    and srt: "sorted (map (req_key h) (rl_sorted e))"
    and req: "deref h request = Some (the (h request))"
  shows "addSort h request e = Some (e\<lparr>rl_sorted := insert_sorted h request (rl_sorted e)\<rparr>)"
proof -
  let ?xs = "rl_sorted e"
  let ?P = "\<lambda>p. req_key h p \<le> req_key h request"
  let ?f = "\<lambda>i. do { p \<leftarrow> index_at ?xs i; r \<leftarrow> deref h p;
                    isGreaterThan h (list_get e (tx_Id (l2Tx r))) request }"
  have f: "?f k = Some (\<not> ?P (?xs ! k))" if "k < length ?xs" for k
    using that live [of "?xs ! k"] look [of "?xs ! k"] req
    by (simp add: isGreaterThan_def req_id_def req_key_def req_time_def not_le)
  have "sort_search (length ?xs) ?f = Some (length (takeWhile ?P ?xs))"
    by (rule sort_search_partition) (simp_all only: f sorted_map_le_takeWhile [OF srt] simp_thms)
  then show ?thesis
    unfolding addSort_def Let_def insert_sorted_def
    using slice_copy_insert [of "length (takeWhile ?P ?xs)" ?xs nil request]
    by (simp add: length_takeWhile_le takeWhile_eq_take [symmetric] dropWhile_eq_drop [symmetric])
qed

lemma add_new:
  assumes inv: "rl_inv h e" and req: "request \<noteq> nil" "h request = Some r"
    and new: "rl_list e (tx_Id (l2Tx r)) = None"
  shows "add h request e =
    Some (True, \<lparr>rl_list = (rl_list e)(tx_Id (l2Tx r) \<mapsto> request),
                rl_sorted = insert_sorted h request (rl_sorted e)\<rparr>)"
proof -
  let ?e = "e\<lparr>rl_list := (rl_list e)(tx_Id (l2Tx r) \<mapsto> request)\<rparr>"
  have "list_get ?e (req_id h p) = p" if "p \<in> set (rl_sorted e)" for p
    using rl_inv_list_get [OF inv that] rl_inv_lookup_None [OF inv, of "tx_Id (l2Tx r)"] new that
    by (auto simp: list_get_def)
  then have "addSort h request ?e =
      Some (?e\<lparr>rl_sorted := insert_sorted h request (rl_sorted e)\<rparr>)"
    using inv req
    by (subst addSort_insert_sorted) (auto simp: rl_inv_deref deref_def rl_inv_def)
  then show ?thesis
    using req new by (simp add: add_def deref_def)
qed

lemma add_known:
  assumes "request \<noteq> nil" "h request = Some r" "rl_list e (tx_Id (l2Tx r)) = Some q"
  shows "add h request e = Some (False, e)"
  using assms by (simp add: add_def deref_def)

lemma rl_inv_insert:
  assumes inv: "rl_inv h e" and req: "request \<noteq> nil" "h request = Some r"
    and new: "rl_list e (tx_Id (l2Tx r)) = None"
  shows "rl_inv h \<lparr>rl_list = (rl_list e)(tx_Id (l2Tx r) \<mapsto> request),
                   rl_sorted = insert_sorted h request (rl_sorted e)\<rparr>"
proof -
  have id: "req_id h request = tx_Id (l2Tx r)" using req by (simp add: req_id_def)
  have fresh: "\<forall>p\<in>set (rl_sorted e). req_id h p \<noteq> tx_Id (l2Tx r)"
    using new rl_inv_lookup_None [OF inv] by blast
  then have "request \<notin> set (rl_sorted e)" using id by blast
  moreover have "(if i = tx_Id (l2Tx r) then Some request else rl_list e i) = Some p \<longleftrightarrow>
      p \<in> insert request (set (rl_sorted e)) \<and> req_id h p = i" for i p
    using id fresh rl_inv_lookup [OF inv, of i p] by auto
  ultimately show ?thesis
    using inv req unfolding rl_inv_def by (auto simp: sorted_insert_sorted)
qed

lemma rl_inv_add:
  assumes "rl_inv h e" "request \<noteq> nil" "h request = Some r"
  obtains b e' where "add h request e = Some (b, e')" "rl_inv h e'"
  using assms add_new add_known rl_inv_insert by (metis option.exhaust)

subsection \<open>Deleting a request\<close>

text \<open>
  The scan of \<open>delete\<close> on the requests from the search result on: it stops at the first
  request whose instant differs, finds the first one with the same hash, or reaches the end.
\<close>

primrec scan_group :: "heap \<Rightarrow> ref \<Rightarrow> ref list \<Rightarrow> nat option" where
  "scan_group h q [] = None"
| "scan_group h q (p # ps) =
     (if req_time h p \<noteq> req_time h q then None
      else if req_hash h p = req_hash h q then Some 0
      else map_option Suc (scan_group h q ps))"

lemma delete_scan_group:
  assumes "\<And>p. p \<in> set ps \<Longrightarrow> deref h p = Some (the (h p))"
    and "deref h q = Some (the (h q))"
  shows "delete_scan h (pre @ ps) q (length pre) =
    Some (map_option (\<lambda>k. length pre + k) (scan_group h q ps))"
  using assms(1)
proof (induction ps arbitrary: pre)
  case Nil
  then show ?case by (simp add: delete_scan.simps)
next
  case (Cons p ps)
  have p: "deref h p = Some (the (h p))" using Cons.prems by simp
  have IH: "delete_scan h (pre @ p # ps) q (Suc (length pre)) =
      Some (map_option (\<lambda>k. Suc (length pre) + k) (scan_group h q ps))"
    using Cons.IH [of "pre @ [p]"] Cons.prems by simp
  show ?case
    by (subst delete_scan.simps)
      (simp add: p assms(2) IH req_time_def req_hash_def option.map_comp comp_def)
qed

text \<open>
  Where the searched request sits in the slice: the requests before it of an earlier
  millisecond are skipped by the search, those of its own millisecond are scanned.
\<close>

definition same_ms :: "heap \<Rightarrow> ref \<Rightarrow> ref list \<Rightarrow> ref list" where
  "same_ms h q us = dropWhile (\<lambda>p. req_key h p < req_key h q) us"

lemma same_ms_iff:
  assumes "sorted (map (req_key h) (us @ q # vs))"
  shows "p \<in> set (same_ms h q us) \<longleftrightarrow> p \<in> set us \<and> req_key h p = req_key h q"
proof -
  have srt: "sorted (map (req_key h) us)" using assms by (simp add: sorted_append)
  have le: "\<forall>p\<in>set us. req_key h p \<le> req_key h q" using assms by (simp add: sorted_append)
  show ?thesis
  proof
    assume p: "p \<in> set (same_ms h q us)"
    then have "p \<in> set us" unfolding same_ms_def by (rule set_dropWhileD)
    moreover have "req_key h q \<le> req_key h p"
      using sorted_map_less_dropWhile [OF srt, of p "req_key h q"] p by (simp add: same_ms_def)
    ultimately show "p \<in> set us \<and> req_key h p = req_key h q" using le by force
  next
    assume p: "p \<in> set us \<and> req_key h p = req_key h q"
    then have "p \<in> set (takeWhile (\<lambda>p. req_key h p < req_key h q) us @ same_ms h q us)"
      unfolding same_ms_def by simp
    then show "p \<in> set (same_ms h q us)" using p set_takeWhileD by fastforce
  qed
qed

lemma dropWhile_same_ms:
  assumes "sorted (map (req_key h) (us @ q # vs))"
  shows "dropWhile (\<lambda>p. req_key h p < req_key h q) (us @ q # vs) = same_ms h q us @ q # vs"
    and "takeWhile (\<lambda>p. req_key h p < req_key h q) (us @ q # vs)
       = takeWhile (\<lambda>p. req_key h p < req_key h q) us"
proof -
  let ?P = "\<lambda>p. req_key h p < req_key h q"
  show "dropWhile ?P (us @ q # vs) = same_ms h q us @ q # vs"
    unfolding same_ms_def by (induction us) auto
  show "takeWhile ?P (us @ q # vs) = takeWhile ?P us"
    by (induction us) auto
qed

lemma delete_result:
  assumes inv: "rl_inv h e" and xs: "rl_sorted e = us @ q # vs"
    and req: "deref h request = Some r" "tx_Id (l2Tx r) = req_id h q"
  shows "delete h request e =
    (case scan_group h q (same_ms h q us @ q # vs) of
       None \<Rightarrow> Some (False, e)
     | Some k \<Rightarrow>
         (let i = length (takeWhile (\<lambda>p. req_key h p < req_key h q) us) + k
          in Some (True, \<lparr>rl_list = (rl_list e)(req_id h q := None),
                         rl_sorted = take i (rl_sorted e) @ drop (i + 1) (rl_sorted e)\<rparr>)))"
proof -
  let ?xs = "rl_sorted e"
  let ?P = "\<lambda>p. req_key h p < req_key h q"
  have q: "q \<in> set ?xs" using xs by simp
  have dq: "deref h q = Some (the (h q))" using rl_inv_deref [OF inv q] .
  have look: "rl_list e (req_id h q) = Some q" using rl_inv_lookup [OF inv] q by blast
  have srt: "sorted (map (req_key h) ?xs)" using inv by (simp add: rl_inv_def)
  let ?f = "\<lambda>i. do { p \<leftarrow> index_at ?xs i; r \<leftarrow> deref h p;
                    isGreaterOrEqualThan h (list_get e (tx_Id (l2Tx r))) q }"
  have f: "?f k = Some (\<not> ?P (?xs ! k))" if "k < length ?xs" for k
    using that rl_inv_deref [OF inv, of "?xs ! k"] rl_inv_list_get [OF inv, of "?xs ! k"] dq
    by (simp add: isGreaterOrEqualThan_def req_id_def req_key_def req_time_def not_less)
  have search: "sort_search (length ?xs) ?f = Some (length (takeWhile ?P ?xs))"
  proof (rule sort_search_partition)
    show "?f k = Some (\<not> ?P (?xs ! k))" if "k < length ?xs" for k using f [OF that] .
    fix x assume "x \<in> set (dropWhile ?P ?xs)"
    then show "\<not> ?P x" using sorted_map_less_dropWhile [OF srt] by fastforce
  qed
  let ?pre = "takeWhile ?P us" and ?rest = "same_ms h q us @ q # vs"
  have tw: "takeWhile ?P ?xs = ?pre" and split: "?xs = ?pre @ ?rest"
    using dropWhile_same_ms [of h us q vs] srt xs by (metis takeWhile_dropWhile_id)+
  have scan: "delete_scan h ?xs q (length ?pre) =
      Some (map_option (\<lambda>k. length ?pre + k) (scan_group h q ?rest))"
    using delete_scan_group [of ?rest h q ?pre] rl_inv_deref [OF inv] dq split by (metis UnCI set_append)
  have inside: "length ?pre + k < length ?xs" if "scan_group h q ?rest = Some k" for k
  proof -
    have "scan_group h q ps = Some k \<Longrightarrow> k < length ps" for ps k
      by (induction ps arbitrary: k) (auto split: if_splits)
    from this [OF that] show ?thesis by (subst split) simp
  qed
  show ?thesis
    unfolding delete_def
    using req look search scan dq tw inside slice_copy_remove [where xs = ?xs and z = nil]
    by (auto simp: Let_def req_id_def split: option.split)
qed

lemma scan_group_found:
  "\<forall>p\<in>set ps. req_time h p = req_time h q \<and> req_hash h p \<noteq> req_hash h q
   \<Longrightarrow> scan_group h q (ps @ q # vs) = Some (length ps)"
  by (induction ps) auto

lemma scan_group_blocked:
  "\<forall>p\<in>set ps. req_time h p = req_time h q \<longrightarrow> req_hash h p \<noteq> req_hash h q
   \<Longrightarrow> \<exists>p\<in>set ps. req_time h p \<noteq> req_time h q
   \<Longrightarrow> scan_group h q (ps @ vs) = None"
  by (induction ps) auto

text \<open>
  No two requests of the list agree on the instant and on the hash: then the scan, which
  compares hashes, cannot take one request for another.
\<close>

definition hash_clear :: "heap \<Rightarrow> ref list \<Rightarrow> bool" where
  "hash_clear h xs \<longleftrightarrow>
     (\<forall>p\<in>set xs. \<forall>q\<in>set xs. req_time h p = req_time h q \<longrightarrow> req_hash h p = req_hash h q \<longrightarrow> p = q)"

text \<open>Removing one request from the list, as the reference behaviour of \<open>delete\<close>.\<close>

definition remove_req :: "heap \<Rightarrow> ref \<Rightarrow> monitorRequestList \<Rightarrow> monitorRequestList" where
  "remove_req h q e =
     \<lparr>rl_list = (rl_list e)(req_id h q := None), rl_sorted = remove1 q (rl_sorted e)\<rparr>"

lemma rl_inv_remove_req:
  assumes inv: "rl_inv h e" and q: "q \<in> set (rl_sorted e)"
  shows "rl_inv h (remove_req h q e)"
proof -
  have d: "distinct (rl_sorted e)" using inv by (simp add: rl_inv_def)
  then have s: "set (remove1 q (rl_sorted e)) = set (rl_sorted e) - {q}"
    by (rule set_remove1_eq)
  have "(if i = req_id h q then None else rl_list e i) = Some p \<longleftrightarrow>
      p \<in> set (rl_sorted e) - {q} \<and> req_id h p = i" for i p
    using rl_inv_lookup [OF inv, of i p] rl_inv_id_inj [OF inv, of p q] q by auto
  then show ?thesis
    using inv s d unfolding rl_inv_def remove_req_def
    by (simp add: sorted_map_remove1)
qed

lemma remove_req_split:
  assumes "rl_inv h e" "rl_sorted e = us @ q # vs"
  shows "remove_req h q e = \<lparr>rl_list = (rl_list e)(req_id h q := None), rl_sorted = us @ vs\<rparr>"
proof -
  have "q \<notin> set us" using assms by (auto simp: rl_inv_def)
  then show ?thesis using assms(2) by (simp add: remove_req_def remove1_append)
qed

text \<open>
  The exact behaviour of \<open>delete\<close> on a request that the list holds: it succeeds exactly
  when no request that sorts before it in the same millisecond has another instant.
\<close>

lemma delete_exact:
  assumes inv: "rl_inv h e" and clear: "hash_clear h (rl_sorted e)"
    and xs: "rl_sorted e = us @ q # vs"
    and req: "deref h request = Some r" "tx_Id (l2Tx r) = req_id h q"
  shows "delete h request e =
    (if \<forall>p\<in>set us. req_key h p = req_key h q \<longrightarrow> req_time h p = req_time h q
     then Some (True, remove_req h q e) else Some (False, e))"
proof -
  let ?tw = "takeWhile (\<lambda>p. req_key h p < req_key h q) us"
  have srt: "sorted (map (req_key h) (us @ q # vs))" using inv xs by (simp add: rl_inv_def)
  have ms: "p \<in> set (same_ms h q us) \<longleftrightarrow> p \<in> set us \<and> req_key h p = req_key h q" for p
    by (rule same_ms_iff [OF srt])
  have "q \<notin> set us" using inv xs by (auto simp: rl_inv_def)
  then have other: "req_hash h p \<noteq> req_hash h q" if "p \<in> set us" "req_time h p = req_time h q" for p
    using clear that xs unfolding hash_clear_def by (metis UnI1 in_set_conv_decomp set_append)
  have len: "length ?tw + length (same_ms h q us) = length us"
    unfolding same_ms_def by (metis length_append takeWhile_dropWhile_id)
  show ?thesis
  proof (cases "\<forall>p\<in>set us. req_key h p = req_key h q \<longrightarrow> req_time h p = req_time h q")
    case True
    then have "scan_group h q (same_ms h q us @ q # vs) = Some (length (same_ms h q us))"
      using ms other by (intro scan_group_found) auto
    then show ?thesis
      using True delete_result [OF inv xs req] len xs
      by (simp add: Let_def remove_req_split [OF inv xs])
  next
    case False
    then have "scan_group h q (same_ms h q us @ q # vs) = None"
      using ms other by (intro scan_group_blocked) auto
    then show ?thesis using False delete_result [OF inv xs req] by auto
  qed
qed

text \<open>
  The first request of its millisecond, in particular the head of the list, is always
  deleted: the scan meets it first, whatever the hashes are.
\<close>

definition first_of_ms :: "heap \<Rightarrow> ref \<Rightarrow> monitorRequestList \<Rightarrow> bool" where
  "first_of_ms h q e \<longleftrightarrow>
     (\<forall>p\<in>set (takeWhile (\<lambda>p. p \<noteq> q) (rl_sorted e)). req_key h p < req_key h q)"

lemma delete_first_of_ms:
  assumes inv: "rl_inv h e" and q: "q \<in> set (rl_sorted e)" "first_of_ms h q e"
    and req: "deref h request = Some r" "tx_Id (l2Tx r) = req_id h q"
  shows "delete h request e = Some (True, remove_req h q e)"
proof -
  obtain us vs where xs: "rl_sorted e = us @ q # vs" "q \<notin> set us"
    using split_list_first [OF q(1)] by blast
  then have "takeWhile (\<lambda>p. p \<noteq> q) (rl_sorted e) = us"
    by (simp add: takeWhile_neq)
  then have us: "\<forall>p\<in>set us. req_key h p < req_key h q"
    using q(2) by (simp add: first_of_ms_def)
  then have ms: "same_ms h q us = []" unfolding same_ms_def by simp
  have tw: "takeWhile (\<lambda>p. req_key h p < req_key h q) us = us"
    using us by (simp add: takeWhile_eq_all_conv)
  show ?thesis
    using delete_result [OF inv xs(1) req] unfolding ms tw remove_req_split [OF inv xs(1)]
    by (simp add: Let_def xs(1))
qed

lemma delete_unknown:
  assumes "deref h request = Some r" "rl_list e (tx_Id (l2Tx r)) = None"
  shows "delete h request e = Some (False, e)"
  using assms by (simp add: delete_def)

lemma delete_cases:
  assumes inv: "rl_inv h e" and clear: "hash_clear h (rl_sorted e)"
    and req: "deref h request = Some r"
  obtains (unknown) "rl_list e (tx_Id (l2Tx r)) = None" "delete h request e = Some (False, e)"
  | (removed) q where "q \<in> set (rl_sorted e)" "req_id h q = tx_Id (l2Tx r)"
      "delete h request e = Some (True, remove_req h q e)"
  | (blocked) q where "q \<in> set (rl_sorted e)" "req_id h q = tx_Id (l2Tx r)"
      "\<not> first_of_ms h q e" "delete h request e = Some (False, e)"
proof (cases "rl_list e (tx_Id (l2Tx r))")
  case None
  then show ?thesis using that(1) delete_unknown [OF req] by blast
next
  case (Some q)
  then have q: "q \<in> set (rl_sorted e)" "req_id h q = tx_Id (l2Tx r)"
    using rl_inv_lookup [OF inv] by auto
  obtain us vs where "rl_sorted e = us @ q # vs" using split_list q(1) by fast
  then have "delete h request e = Some (True, remove_req h q e) \<or>
      delete h request e = Some (False, e)"
    using delete_exact [OF inv clear _ req] q(2) by (metis (no_types, lifting))
  then show ?thesis
    using that(2,3) [OF q] delete_first_of_ms [OF inv q(1) _ req] q(2) by metis
qed

lemma rl_inv_delete:
  assumes "rl_inv h e" "hash_clear h (rl_sorted e)" "deref h request = Some r"
  obtains b e' where "delete h request e = Some (b, e')" "rl_inv h e'"
  by (rule delete_cases [OF assms]) (use that assms(1) rl_inv_remove_req in blast)+

subsection \<open>The interface the list offers\<close>

text \<open>
  What a user of the list relies on, stated on any implementation: \<open>add\<close> answers whether
  the identifier was new and makes it a member, \<open>delete\<close> answers whether it was a member
  and removes it, and neither panics. A sequence of operations then behaves like one on a
  plain set of identifiers.
\<close>

datatype 'r list_op = OpAdd 'r | OpDelete 'r

fun op_run :: "('r \<Rightarrow> 'l \<Rightarrow> (bool \<times> 'l) option) \<Rightarrow> ('r \<Rightarrow> 'l \<Rightarrow> (bool \<times> 'l) option)
    \<Rightarrow> 'r list_op list \<Rightarrow> 'l \<Rightarrow> (bool list \<times> 'l) option" where
  "op_run ad de [] e = Some ([], e)"
| "op_run ad de (x # xs) e =
     (case (case x of OpAdd r \<Rightarrow> ad r e | OpDelete r \<Rightarrow> de r e) of
        None \<Rightarrow> None
      | Some (b, e') \<Rightarrow>
          (case op_run ad de xs e' of None \<Rightarrow> None | Some (bs, e'') \<Rightarrow> Some (b # bs, e'')))"

fun set_run :: "('r \<Rightarrow> 'i) \<Rightarrow> 'r list_op list \<Rightarrow> 'i set \<Rightarrow> bool list \<times> 'i set" where
  "set_run ident [] A = ([], A)"
| "set_run ident (OpAdd r # xs) A =
     (let (bs, B) = set_run ident xs (insert (ident r) A) in ((ident r \<notin> A) # bs, B))"
| "set_run ident (OpDelete r # xs) A =
     (let (bs, B) = set_run ident xs (A - {ident r}) in ((ident r \<in> A) # bs, B))"

fun op_ref :: "'r list_op \<Rightarrow> 'r" where
  "op_ref (OpAdd r) = r"
| "op_ref (OpDelete r) = r"

locale retry_queue =
  fixes invar :: "'l \<Rightarrow> bool"
    and ids :: "'l \<Rightarrow> 'i set"
    and ident :: "'r \<Rightarrow> 'i"
    and ok :: "'r \<Rightarrow> bool"
    and q_add :: "'r \<Rightarrow> 'l \<Rightarrow> (bool \<times> 'l) option"
    and q_delete :: "'r \<Rightarrow> 'l \<Rightarrow> (bool \<times> 'l) option"
  assumes add_law: "invar e \<Longrightarrow> ok r \<Longrightarrow>
      \<exists>e'. q_add r e = Some (ident r \<notin> ids e, e') \<and> invar e' \<and> ids e' = insert (ident r) (ids e)"
    and delete_law: "invar e \<Longrightarrow> ok r \<Longrightarrow>
      \<exists>e'. q_delete r e = Some (ident r \<in> ids e, e') \<and> invar e' \<and> ids e' = ids e - {ident r}"
begin

lemma run_simulates:
  assumes "invar e" "\<forall>x\<in>set xs. ok (op_ref x)"
  shows "\<exists>e'. op_run q_add q_delete xs e = Some (fst (set_run ident xs (ids e)), e')
           \<and> invar e' \<and> ids e' = snd (set_run ident xs (ids e))"
  using assms
proof (induction xs arbitrary: e)
  case Nil
  then show ?case by simp
next
  case (Cons x xs)
  show ?case
  proof (cases x)
    case (OpAdd r)
    then obtain e1 where e1: "q_add r e = Some (ident r \<notin> ids e, e1)" "invar e1"
        "ids e1 = insert (ident r) (ids e)"
      using Cons.prems add_law by fastforce
    with Cons.IH [of e1] Cons.prems OpAdd show ?thesis by (auto simp: split_beta)
  next
    case (OpDelete r)
    then obtain e1 where e1: "q_delete r e = Some (ident r \<in> ids e, e1)" "invar e1"
        "ids e1 = ids e - {ident r}"
      using Cons.prems delete_law by fastforce
    with Cons.IH [of e1] Cons.prems OpDelete show ?thesis by (auto simp: split_beta)
  qed
qed

end

text \<open>
  The model provides the interface for the requests of a set \<open>R\<close> in which requests of one
  millisecond have one instant and different hashes. Both conditions are needed: see
  \<open>delete_same_millisecond\<close> and \<open>delete_same_hash\<close> below.
\<close>

definition well_timed :: "heap \<Rightarrow> ref set \<Rightarrow> bool" where
  "well_timed h R \<longleftrightarrow>
     (\<forall>p\<in>R. p \<noteq> nil \<and> h p \<noteq> None) \<and>
     (\<forall>p\<in>R. \<forall>q\<in>R. req_key h p = req_key h q \<longrightarrow>
        req_time h p = req_time h q \<and> (req_hash h p = req_hash h q \<longrightarrow> p = q))"

definition timed_inv :: "heap \<Rightarrow> ref set \<Rightarrow> monitorRequestList \<Rightarrow> bool" where
  "timed_inv h R e \<longleftrightarrow> well_timed h R \<and> rl_inv h e \<and> set (rl_sorted e) \<subseteq> R"

lemma timed_inv_clear: "timed_inv h R e \<Longrightarrow> hash_clear h (rl_sorted e)"
  unfolding timed_inv_def well_timed_def hash_clear_def req_key_def
  by (metis (no_types, lifting) subsetD)

interpretation timed: retry_queue
  "timed_inv h R" "\<lambda>e. dom (rl_list e)" "req_id h" "\<lambda>r. r \<in> R" "add h" "delete h" for h R
proof (unfold_locales, goal_cases)
  case (1 e r)
  then obtain q where r: "r \<noteq> nil" "h r = Some q" "rl_inv h e" and R: "set (rl_sorted e) \<subseteq> R"
    by (auto simp: timed_inv_def well_timed_def)
  have id: "req_id h r = tx_Id (l2Tx q)" using r by (simp add: req_id_def)
  show ?case
  proof (cases "rl_list e (tx_Id (l2Tx q))")
    case None
    then show ?thesis
      using add_new [OF r(3,1,2)] rl_inv_insert [OF r(3,1,2)] 1 R id
      by (auto simp: timed_inv_def)
  next
    case (Some p)
    then show ?thesis using add_known [of r h q e p] r Some 1 id by (auto simp: insert_absorb)
  qed
next
  case (2 e r)
  then obtain q where r: "deref h r = Some q" and inv: "rl_inv h e"
      and id: "req_id h r = tx_Id (l2Tx q)"
    by (auto simp: timed_inv_def well_timed_def deref_def req_id_def)
  show ?case
  proof (rule delete_cases [OF inv timed_inv_clear [OF 2(1)] r])
    assume "rl_list e (tx_Id (l2Tx q)) = None" "delete h r e = Some (False, e)"
    then show ?thesis using 2(1) id by auto
  next
    fix p
    assume p: "p \<in> set (rl_sorted e)" "req_id h p = tx_Id (l2Tx q)"
      and del: "delete h r e = Some (True, remove_req h p e)"
    have "rl_list e (tx_Id (l2Tx q)) = Some p" using rl_inv_lookup [OF inv] p by blast
    then show ?thesis
      using rl_inv_remove_req [OF inv p(1)] 2(1) del id p
      by (auto simp: timed_inv_def remove_req_def dest: set_remove1_subset [THEN subsetD])
  next
    fix p
    assume p: "p \<in> set (rl_sorted e)" "req_id h p = tx_Id (l2Tx q)"
      and blocked: "delete h r e = Some (False, e)"
    obtain us vs where xs: "rl_sorted e = us @ p # vs" using split_list p(1) by fast
    then have "\<forall>x\<in>set us. req_key h x = req_key h p \<longrightarrow> req_time h x = req_time h p"
      using 2(1) by (auto simp: timed_inv_def well_timed_def)
    then have "delete h r e = Some (True, remove_req h p e)"
      using delete_exact [OF inv timed_inv_clear [OF 2(1)] xs r] p by simp
    then show ?thesis using blocked by simp
  qed
qed

subsection \<open>Adding many requests\<close>

primrec add_all :: "heap \<Rightarrow> ref list \<Rightarrow> monitorRequestList \<Rightarrow> monitorRequestList option" where
  "add_all h [] e = Some e"
| "add_all h (p # ps) e = (case add h p e of None \<Rightarrow> None | Some (b, e') \<Rightarrow> add_all h ps e')"

lemma filter_insert_sorted:
  assumes "sorted (map (req_key h) xs)"
  shows "filter (\<lambda>p. k = req_key h p) (insert_sorted h r xs) =
   filter (\<lambda>p. k = req_key h p) xs @ (if k = req_key h r then [r] else [])"
proof -
  let ?P = "\<lambda>p. req_key h p \<le> req_key h r"
  have later: "req_key h r \<noteq> req_key h p" if "p \<in> set (dropWhile ?P xs)" for p
    using sorted_map_le_takeWhile [OF assms that] by simp
  have "filter (\<lambda>p. req_key h r = req_key h p) (dropWhile ?P xs) = []"
    unfolding filter_empty_conv using later by blast
  moreover have "filter Q xs = filter Q (takeWhile ?P xs) @ filter Q (dropWhile ?P xs)" for Q
    using filter_append [of Q "takeWhile ?P xs" "dropWhile ?P xs"] by simp
  ultimately show ?thesis by (cases "k = req_key h r") (simp_all add: insert_sorted_def)
qed

lemma insert_sorted_snoc:
  "insert_sorted h r (sort_key (req_key h) xs) = sort_key (req_key h) (xs @ [r])"
proof (rule properties_for_sort_key [symmetric])
  have stable: "filter (\<lambda>x. k = req_key h x) (sort_key (req_key h) xs)
      = filter (\<lambda>x. k = req_key h x) xs" for k
    by (simp add: sort_key_stable eq_commute [of k])
  show "filter (\<lambda>x. req_key h k = req_key h x) (insert_sorted h r (sort_key (req_key h) xs))
      = filter (\<lambda>x. req_key h k = req_key h x) (xs @ [r])" for k
    by (simp add: filter_insert_sorted stable)
qed (simp_all add: sorted_insert_sorted)

lemma add_all_sorts:
  assumes "rl_inv h e" "rl_sorted e = sort_key (req_key h) qs"
    and "\<forall>p\<in>set ps. p \<noteq> nil \<and> h p \<noteq> None"
    and "distinct (map (req_id h) (qs @ ps))"
  shows "\<exists>e'. add_all h ps e = Some e' \<and> rl_inv h e'
           \<and> rl_sorted e' = sort_key (req_key h) (qs @ ps)"
  using assms
proof (induction ps arbitrary: e qs)
  case Nil
  then show ?case by simp
next
  case (Cons p ps)
  obtain r where r: "p \<noteq> nil" "h p = Some r" using Cons.prems(3) by auto
  have "\<forall>q\<in>set (rl_sorted e). req_id h q \<noteq> req_id h p"
    using Cons.prems(2,4) by (force simp: rev_image_eqI)
  then have new: "rl_list e (tx_Id (l2Tx r)) = None"
    using rl_inv_lookup_None [OF Cons.prems(1)] r by (simp add: req_id_def)
  show ?case
    using Cons.IH [OF rl_inv_insert [OF Cons.prems(1) r new], of "qs @ [p]"] Cons.prems
      add_new [OF Cons.prems(1) r new]
    by (simp add: insert_sorted_snoc)
qed

subsection \<open>Properties\<close>

text \<open>A store for the examples: the five requests of \<open>TestRequestListDelete\<close>.\<close>

definition ex_heap :: heap where
  "ex_heap = [1 \<mapsto> \<lparr>l2Tx = mk_tx 1 ''0x01'' zero_time, nextRetry = clock 600000000000\<rparr>,
              2 \<mapsto> \<lparr>l2Tx = mk_tx 2 ''0x02'' zero_time, nextRetry = clock 600000000000\<rparr>,
              3 \<mapsto> \<lparr>l2Tx = mk_tx 3 ''0x03'' zero_time, nextRetry = clock 300000000000\<rparr>,
              4 \<mapsto> \<lparr>l2Tx = mk_tx 4 ''0x04'' zero_time, nextRetry = clock 300000000000\<rparr>,
              5 \<mapsto> \<lparr>l2Tx = mk_tx 5 ''0x05'' zero_time, nextRetry = clock 900000000000\<rparr>]"

text \<open>
  C34. Adding any sequence of requests with pairwise different identifiers to an empty list
  never panics and leaves exactly the stable sort of the sequence by the millisecond of the
  next retry, with the map and the slice in agreement.
\<close>

theorem retry_list_stable_sort:
  assumes "\<forall>p\<in>set ps. p \<noteq> nil \<and> h p \<noteq> None" "distinct (map (req_id h) ps)"
  shows "\<exists>e. add_all h ps newMonitorRequestList = Some e
           \<and> rl_sorted e = sort_key (req_key h) ps \<and> rl_inv h e"
  using add_all_sorts [OF rl_inv_new, of h "[]" ps] assms
  by (auto simp: newMonitorRequestList_def)

theorem retry_list_stable_sort_witness:
  "\<exists>e. add_all ex_heap [1,2,3,4,5] newMonitorRequestList = Some e
     \<and> rl_sorted e = [3,4,1,2,5] \<and> rl_inv ex_heap e"
proof -
  have live: "\<forall>p\<in>set [1,2,3,4,5]. p \<noteq> nil \<and> ex_heap p \<noteq> None" by code_simp
  have ids: "distinct (map (req_id ex_heap) [1,2,3,4,5])" by code_simp
  have "sort_key (req_key ex_heap) [1,2,3,4,5] = [3,4,1,2,5]" by code_simp
  with retry_list_stable_sort [OF live ids] show ?thesis by metis
qed

text \<open>
  \<open>add\<close> on a well-formed list never panics: a new identifier is stored in the map and
  its request goes into the slice behind every request of an earlier or the same
  millisecond, with the answer true; a known identifier changes nothing, with the answer
  false. The list stays well-formed either way.
\<close>

lemma retry_list_add:
  assumes "rl_inv h e" "request \<noteq> nil" "h request = Some r"
  shows "add h request e =
      (if rl_list e (tx_Id (l2Tx r)) = None
       then Some (True, \<lparr>rl_list = (rl_list e)(tx_Id (l2Tx r) \<mapsto> request),
                        rl_sorted = insert_sorted h request (rl_sorted e)\<rparr>)
       else Some (False, e))
    \<and> (\<forall>b e'. add h request e = Some (b, e') \<longrightarrow> rl_inv h e')"
  using assms add_new [of h e request r] add_known [of request h r e]
    rl_inv_insert [of h e request r]
  by auto

lemma retry_list_add_example:
  "add ex_heap 1 newMonitorRequestList = Some (True, \<lparr>rl_list = [1 \<mapsto> 1], rl_sorted = [1]\<rparr>)"
proof -
  have r: "(1::ref) \<noteq> nil" "ex_heap 1 =
      Some \<lparr>l2Tx = mk_tx 1 ''0x01'' zero_time, nextRetry = clock 600000000000\<rparr>"
    by (simp_all add: nil_def ex_heap_def)
  show ?thesis
    using retry_list_add [of ex_heap newMonitorRequestList 1, OF rl_inv_new r]
    by (simp add: newMonitorRequestList_def insert_sorted_def)
qed

text \<open>
  C36. \<open>delete\<close> of a listed identifier, when no two listed requests agree on instant and
  hash: it removes exactly that request and answers true if every request that sorts before
  it in the same millisecond has the same instant, and otherwise leaves the list unchanged
  and answers false.
\<close>

theorem retry_list_delete:
  assumes "rl_inv h e" "hash_clear h (rl_sorted e)" "rl_sorted e = us @ q # vs"
    and "request \<noteq> nil" "h request = Some r" "tx_Id (l2Tx r) = req_id h q"
  shows "delete h request e =
    (if \<forall>p\<in>set us. req_key h p = req_key h q \<longrightarrow> req_time h p = req_time h q
     then Some (True, \<lparr>rl_list = (rl_list e)(req_id h q := None), rl_sorted = us @ vs\<rparr>)
     else Some (False, e))"
proof -
  have "deref h request = Some r" using assms(4,5) by (rule deref_live)
  from delete_exact [OF assms(1-3) this assms(6)] show ?thesis
    by (simp add: remove_req_split [OF assms(1,3)])
qed

theorem retry_list_delete_witness:
  "\<exists>e. add_all ex_heap [1,2,3,4,5] newMonitorRequestList = Some e
     \<and> map_option (rl_sorted \<circ> snd) (delete ex_heap 4 e) = Some [3,1,2,5]"
proof -
  have live: "\<forall>p\<in>set [1,2,3,4,5]. p \<noteq> nil \<and> ex_heap p \<noteq> None" by code_simp
  have ids: "distinct (map (req_id ex_heap) [1,2,3,4,5])" by code_simp
  have srt: "sort_key (req_key ex_heap) [1,2,3,4,5] = [3,4,1,2,5]" by code_simp
  obtain e where e: "add_all ex_heap [1,2,3,4,5] newMonitorRequestList = Some e"
      "rl_inv ex_heap e" "rl_sorted e = [3] @ 4 # [1,2,5]"
    using add_all_sorts [OF rl_inv_new, of ex_heap "[]" "[1,2,3,4,5]"] live ids srt
    by (auto simp: newMonitorRequestList_def)
  have clear: "hash_clear ex_heap (rl_sorted e)" unfolding e(3) by code_simp
  have q: "(4::ref) \<noteq> nil" "ex_heap 4 = Some (the (ex_heap 4))"
      "tx_Id (l2Tx (the (ex_heap 4))) = req_id ex_heap 4"
    by (simp_all add: nil_def ex_heap_def req_id_def)
  have "\<forall>p\<in>set [3]. req_key ex_heap p = req_key ex_heap 4 \<longrightarrow> req_time ex_heap p = req_time ex_heap 4"
    by code_simp
  with retry_list_delete [OF e(2) clear e(3) q] e(1) show ?thesis by auto
qed

text \<open>
  The request at index 0 of a well-formed list is always removed by \<open>delete\<close>, with no
  condition on instants or hashes: the retry loop, which deletes what it read at index 0,
  never leaves a request behind.
\<close>

lemma retry_list_delete_head:
  assumes "rl_inv h e" "getByIndex 0 e = Some q"
  shows "delete h q e = Some (True, \<lparr>rl_list = (rl_list e)(req_id h q := None),
                                   rl_sorted = tl (rl_sorted e)\<rparr>)"
    (is "_ = Some (True, ?e')")
proof -
  obtain xs where xs: "rl_sorted e = q # xs"
    using assms(2) by (cases "rl_sorted e") (auto simp: getByIndex_def index_at_def)
  have "deref h q = Some (the (h q))" using rl_inv_deref [OF assms(1)] xs by simp
  then have "delete h q e = Some (True, remove_req h q e)"
    using xs by (intro delete_first_of_ms [OF assms(1)]) (simp_all add: first_of_ms_def req_id_def)
  then show ?thesis by (simp add: remove_req_def xs)
qed

lemma retry_list_delete_head_example:
  "\<exists>e. add_all ex_heap [5,3] newMonitorRequestList = Some e
     \<and> map_option (rl_sorted \<circ> snd) (delete ex_heap 3 e) = Some [5]"
proof -
  have live: "\<forall>p\<in>set [5,3]. p \<noteq> nil \<and> ex_heap p \<noteq> None" by code_simp
  have ids: "distinct (map (req_id ex_heap) [5,3])" by code_simp
  have srt: "sort_key (req_key ex_heap) [5,3] = [3,5]" by code_simp
  obtain e where e: "add_all ex_heap [5,3] newMonitorRequestList = Some e"
      "rl_inv ex_heap e" "rl_sorted e = [3,5]"
    using add_all_sorts [OF rl_inv_new, of ex_heap "[]" "[5,3]"] live ids srt
    by (auto simp: newMonitorRequestList_def)
  have "getByIndex 0 e = Some 3" by (simp add: getByIndex_def e(3))
  from retry_list_delete_head [OF e(2) this] have "delete ex_heap 3 e =
      Some (True, \<lparr>rl_list = (rl_list e)(req_id ex_heap 3 := None), rl_sorted = [5]\<rparr>)"
    by (simp add: e(3))
  then show ?thesis using e(1) by (intro exI [of _ e]) simp
qed

text \<open>
  C35. On requests of which two in one millisecond have one instant and different hashes,
  any sequence of \<open>add\<close> and \<open>delete\<close> from the empty list gives the answers, and keeps the
  identifiers, of the same sequence on a plain set, without a panic.
\<close>

theorem retry_list_is_a_set:
  assumes "well_timed h R" "\<forall>x\<in>set xs. op_ref x \<in> R"
  shows "\<exists>e. op_run (add h) (delete h) xs newMonitorRequestList
             = Some (fst (set_run (req_id h) xs {}), e)
         \<and> dom (rl_list e) = snd (set_run (req_id h) xs {})
         \<and> sorted (map (req_key h) (rl_sorted e))"
proof -
  have "timed_inv h R newMonitorRequestList"
    using assms(1) rl_inv_new by (simp add: timed_inv_def newMonitorRequestList_def)
  from timed.run_simulates [OF this assms(2)] show ?thesis
    by (auto simp: newMonitorRequestList_def timed_inv_def rl_inv_def)
qed

theorem retry_list_is_a_set_witness:
  "\<exists>e. op_run (add ex_heap) (delete ex_heap)
         [OpAdd 1, OpAdd 2, OpAdd 1, OpDelete 2, OpDelete 2] newMonitorRequestList
       = Some ([True, True, False, True, False], e) \<and> dom (rl_list e) = {1}"
proof -
  let ?ops = "[OpAdd 1, OpAdd 2, OpAdd 1, OpDelete 2, OpDelete 2]"
  have timed: "well_timed ex_heap {1, 2}"
    by (auto simp: well_timed_def nil_def ex_heap_def req_hash_def req_time_def)
  have refs: "\<forall>x\<in>set ?ops. op_ref x \<in> {1, 2}" by simp
  have run: "set_run (req_id ex_heap) ?ops {} = ([True, True, False, True, False], {1})"
    by (auto simp: req_id_def ex_heap_def)
  from retry_list_is_a_set [OF timed refs] show ?thesis
    unfolding run fst_conv snd_conv by blast
qed

text \<open>
  A request whose next retry falls in the same millisecond as an earlier one, but at
  another instant, cannot be deleted: the binary search finds the first request of the
  millisecond, and the scan gives up as soon as it sees a different instant. The list still
  holds the request, and \<open>delete\<close> answers false.
\<close>

lemma delete_same_millisecond:
  assumes "rl_inv h e" "hash_clear h (rl_sorted e)"
    and "rl_sorted e = us @ p # ws @ q # vs"
    and "req_key h p = req_key h q" "req_time h p \<noteq> req_time h q"
  shows "delete h q e = Some (False, e) \<and> q \<in> set (rl_sorted e)"
proof
  have q: "q \<noteq> nil" "h q = Some (the (h q))" using assms(1,3) by (auto simp: rl_inv_def)
  have "rl_sorted e = (us @ p # ws) @ q # vs" using assms(3) by simp
  from delete_exact [OF assms(1,2) this deref_live [of q h, OF q]] assms(4,5)
  show "delete h q e = Some (False, e)" by (auto simp: req_id_def)
  show "q \<in> set (rl_sorted e)" by (simp add: assms(3))
qed

definition ex_ms_heap :: heap where
  "ex_ms_heap = [1 \<mapsto> \<lparr>l2Tx = mk_tx 1 ''0x01'' zero_time, nextRetry = clock 5000100\<rparr>,
                 2 \<mapsto> \<lparr>l2Tx = mk_tx 2 ''0x02'' zero_time, nextRetry = clock 5000200\<rparr>]"

lemma delete_same_millisecond_example:
  "\<exists>e. add_all ex_ms_heap [1,2] newMonitorRequestList = Some e
     \<and> delete ex_ms_heap 2 e = Some (False, e) \<and> 2 \<in> set (rl_sorted e)"
proof -
  have live: "\<forall>p\<in>set [1,2]. p \<noteq> nil \<and> ex_ms_heap p \<noteq> None" by code_simp
  have ids: "distinct (map (req_id ex_ms_heap) [1,2])" by code_simp
  have srt: "sort_key (req_key ex_ms_heap) [1,2] = [1,2]" by code_simp
  obtain e where e: "add_all ex_ms_heap [1,2] newMonitorRequestList = Some e"
      "rl_inv ex_ms_heap e" "rl_sorted e = [] @ 1 # [] @ 2 # []"
    using add_all_sorts [OF rl_inv_new, of ex_ms_heap "[]" "[1,2]"] live ids srt
    by (auto simp: newMonitorRequestList_def)
  have clear: "hash_clear ex_ms_heap (rl_sorted e)" unfolding e(3) by code_simp
  have same: "req_key ex_ms_heap 1 = req_key ex_ms_heap 2"
    and other: "req_time ex_ms_heap 1 \<noteq> req_time ex_ms_heap 2" by code_simp+
  from delete_same_millisecond [OF e(2) clear e(3) same other] e(1) show ?thesis by blast
qed






text \<open>
  \<open>delete\<close> looks the request up by its identifier: a request that carries only a hash,
  as in \<open>TestRequestListDelete\<close>, has identifier 0 and deletes nothing.
\<close>

lemma delete_by_hash_only:
  assumes "rl_inv h e" "request \<noteq> nil" "h request = Some \<lparr>l2Tx = mk_tx 0 hash zero_time, nextRetry = t\<rparr>"
    and "\<forall>p\<in>set (rl_sorted e). req_id h p \<noteq> 0"
  shows "delete h request e = Some (False, e)"
proof -
  have "deref h request = Some \<lparr>l2Tx = mk_tx 0 hash zero_time, nextRetry = t\<rparr>"
    using assms(2,3) by (simp add: deref_def)
  moreover have "rl_list e 0 = None" using assms(1,4) rl_inv_lookup_None by blast
  ultimately show ?thesis by (simp add: delete_def)
qed

lemma delete_by_hash_only_example:
  "\<exists>e. add_all (ex_heap(9 \<mapsto> \<lparr>l2Tx = mk_tx 0 ''0x01'' zero_time, nextRetry = zero_time\<rparr>)) [1,2,3,4,5]
         newMonitorRequestList = Some e
     \<and> delete (ex_heap(9 \<mapsto> \<lparr>l2Tx = mk_tx 0 ''0x01'' zero_time, nextRetry = zero_time\<rparr>)) 9 e = Some (False, e)
     \<and> 1 \<in> set (rl_sorted e)"
proof -
  let ?h = "ex_heap(9 \<mapsto> \<lparr>l2Tx = mk_tx 0 ''0x01'' zero_time, nextRetry = zero_time\<rparr>)"
  have live: "\<forall>p\<in>set [1,2,3,4,5]. p \<noteq> nil \<and> ?h p \<noteq> None" by code_simp
  have ids: "distinct (map (req_id ?h) [1,2,3,4,5])" by code_simp
  have srt: "sort_key (req_key ?h) [1,2,3,4,5] = [3,4,1,2,5]" by code_simp
  obtain e where e: "add_all ?h [1,2,3,4,5] newMonitorRequestList = Some e"
      "rl_inv ?h e" "rl_sorted e = [3,4,1,2,5]"
    using add_all_sorts [OF rl_inv_new, of ?h "[]" "[1,2,3,4,5]"] live ids srt
    by (auto simp: newMonitorRequestList_def)
  have zero: "\<forall>p\<in>set (rl_sorted e). req_id ?h p \<noteq> 0" unfolding e(3) by code_simp
  have nine: "(9::ref) \<noteq> nil"
      "?h 9 = Some \<lparr>l2Tx = mk_tx 0 ''0x01'' zero_time, nextRetry = zero_time\<rparr>"
    by (simp_all add: nil_def)
  from delete_by_hash_only [of ?h e 9, OF e(2) nine zero] e show ?thesis by simp
qed

end
