(* ===== verification/PoolDB.thy ===== *)
theory PoolDB
  imports L2Transaction
begin

section \<open>The pool database\<close>

text \<open>
  Model of \<open>db/pooldb.go\<close> over the table of \<open>db/migrations/pool/0001.sql\<close>: the rows of
  \<open>pool.transaction\<close> in the order of insertion, the sequence behind its \<open>SERIAL\<close> key, and
  what the server and the network do to the statements. The latter is an oracle: statement
  number \<open>n\<close> runs at the instant \<open>st_now\<close> (which \<open>time.Now()\<close> returns to the caller) with
  the outcome \<open>st_out\<close>, one of success, failure without effect, and failure of the reply
  after the statement has been committed.

  The driver (\<open>pgx\<close>) and PostgreSQL's value encoding are not part of the repository and
  are parameters: \<open>enc\<close> gives the transaction as it is read back after it was stored, or
  \<^term>\<open>None\<close> where the statement is rejected (\<open>decoded\<close> is no JSON, a string holds a
  zero byte); for queries see \<open>query_env\<close> below.
\<close>

datatype stmt_outcome = StOk | StFail gostring | StLost gostring

record stmt_event =
  st_now :: gotime
  st_out :: stmt_outcome

record pool_row =
  row_tx :: L2Transaction
  row_updated_at :: gotime
  row_error :: goerror

record PoolDB =
  db_rows :: "pool_row list"
  db_seq :: nat
  db_env :: "nat \<Rightarrow> stmt_event"
  db_tick :: nat

text \<open>The table after the migration: no row, the sequence at its start.\<close>

definition NewPoolDB :: "(nat \<Rightarrow> stmt_event) \<Rightarrow> PoolDB" where
  "NewPoolDB env = \<lparr>db_rows = [], db_seq = 1, db_env = env, db_tick = 0\<rparr>"

definition max_serial :: nat where
  "max_serial = 2147483647"

definition row_id :: "pool_row \<Rightarrow> uint64" where
  "row_id r = tx_Id (row_tx r)"

definition row_status :: "pool_row \<Rightarrow> gostring" where
  "row_status r = tx_Status (row_tx r)"

subsection \<open>Operations\<close>

text \<open>The insertion itself: the next number of the sequence becomes the key.\<close>

definition insert_row ::
  "(L2Transaction \<Rightarrow> L2Transaction option) \<Rightarrow> gotime \<Rightarrow> L2Transaction \<Rightarrow> PoolDB \<Rightarrow> (gostring + uint64) \<times> PoolDB"
where
  "insert_row enc now tx db =
     (if db_seq db > max_serial then (Inl ''nextval: reached maximum value of sequence'', db)
      else case enc tx of
        None \<Rightarrow> (Inl ''invalid input syntax'', db)
      | Some tx' \<Rightarrow>
          (Inr (of_nat (db_seq db)),
           db\<lparr>db_rows := db_rows db @ [\<lparr>row_tx = tx'\<lparr>tx_Id := of_nat (db_seq db)\<rparr>,
                                        row_updated_at = now, row_error = None\<rparr>],
              db_seq := db_seq db + 1\<rparr>))"

definition AddL2Transaction ::
  "(L2Transaction \<Rightarrow> L2Transaction option) \<Rightarrow> L2Transaction \<Rightarrow> PoolDB \<Rightarrow> (uint64 \<times> goerror) \<times> PoolDB"
where
  "AddL2Transaction enc tx db0 =
     (let ev = db_env db0 (db_tick db0); db = db0\<lparr>db_tick := db_tick db0 + 1\<rparr> in
      case st_out ev of
        StFail e \<Rightarrow> ((0, Some e), db)
      | StLost e \<Rightarrow> ((0, Some e), snd (insert_row enc (st_now ev) tx db))
      | StOk \<Rightarrow>
          (case insert_row enc (st_now ev) tx db of
             (Inl e, db') \<Rightarrow> ((0, Some e), db')
           | (Inr i, db') \<Rightarrow> ((i, None), db')))"

text \<open>The update sets three columns of the rows with the key, of which there may be none.\<close>

definition update_row :: "gotime \<Rightarrow> gostring \<Rightarrow> gostring \<Rightarrow> pool_row \<Rightarrow> pool_row" where
  "update_row now newStatus errorMsg r =
     r\<lparr>row_tx := (row_tx r)\<lparr>tx_Status := newStatus\<rparr>, row_updated_at := now, row_error := Some errorMsg\<rparr>"

definition update_rows :: "gotime \<Rightarrow> uint64 \<Rightarrow> gostring \<Rightarrow> gostring \<Rightarrow> PoolDB \<Rightarrow> PoolDB" where
  "update_rows now i newStatus errorMsg db =
     db\<lparr>db_rows := map (\<lambda>r. if row_id r = i then update_row now newStatus errorMsg r else r) (db_rows db)\<rparr>"

definition UpdateL2TransactionStatus ::
  "uint64 \<Rightarrow> gostring \<Rightarrow> gostring \<Rightarrow> PoolDB \<Rightarrow> goerror \<times> PoolDB"
where
  "UpdateL2TransactionStatus i newStatus errorMsg db0 =
     (let ev = db_env db0 (db_tick db0); db = db0\<lparr>db_tick := db_tick db0 + 1\<rparr> in
      case st_out ev of
        StFail e \<Rightarrow> (Some e, db)
      | StLost e \<Rightarrow> (Some e, update_rows (st_now ev) i newStatus errorMsg db)
      | StOk \<Rightarrow> (None, update_rows (st_now ev) i newStatus errorMsg db))"

text \<open>
  A query streams its rows. The parameters: the order in which the server returns the rows
  (the statement has no \<open>ORDER BY\<close>), what \<open>Scan\<close> makes of a row, after how many rows the
  stream breaks (\<open>rows.Next()\<close> is then false, as at the end of the rows, and only
  \<open>rows.Err()\<close> would tell), and the length of \<open>rows.RawValues()\<close> before the first
  \<open>Next\<close>, which the source takes as the initial length of its result.
\<close>

record query_env =
  q_order :: "pool_row list \<Rightarrow> pool_row list"
  q_scan :: "pool_row \<Rightarrow> gostring + L2Transaction"
  q_cut :: "nat option"
  q_raw_len :: nat

fun scan_rows :: "(pool_row \<Rightarrow> gostring + L2Transaction) \<Rightarrow> pool_row list \<Rightarrow>
    L2Transaction option list \<Rightarrow> gostring + L2Transaction option list" where
  "scan_rows scan [] txs = Inr txs"
| "scan_rows scan (r # rs) txs =
     (case scan r of Inl e \<Rightarrow> Inl e | Inr tx \<Rightarrow> scan_rows scan rs (txs @ [Some tx]))"

text \<open>The result is a slice of pointers; \<^term>\<open>None\<close> is a nil pointer in it.\<close>

definition GetL2TransactionsByStatus ::
  "query_env \<Rightarrow> gostring \<Rightarrow> PoolDB \<Rightarrow> (gostring + L2Transaction option list) \<times> PoolDB"
where
  "GetL2TransactionsByStatus q status db0 =
     (let ev = db_env db0 (db_tick db0); db = db0\<lparr>db_tick := db_tick db0 + 1\<rparr>;
          rows = q_order q (filter (\<lambda>r. row_status r = status) (db_rows db));
          arrived = (case q_cut q of None \<Rightarrow> rows | Some n \<Rightarrow> take n rows)
      in case st_out ev of
           StOk \<Rightarrow> (scan_rows (q_scan q) arrived (replicate (q_raw_len q) None), db)
         | StFail e \<Rightarrow> (Inl e, db)
         | StLost e \<Rightarrow> (Inl e, db))"

definition GetL2TransactionsToResend ::
  "query_env \<Rightarrow> PoolDB \<Rightarrow> (gostring + L2Transaction option list) \<times> PoolDB" where
  "GetL2TransactionsToResend q db = GetL2TransactionsByStatus q TxStatusResend db"

definition GetL2TransactionsToMonitor ::
  "query_env \<Rightarrow> PoolDB \<Rightarrow> (gostring + L2Transaction option list) \<times> PoolDB" where
  "GetL2TransactionsToMonitor q db = GetL2TransactionsByStatus q TxStatusSent db"

definition GetL2TransactionsToSend ::
  "query_env \<Rightarrow> PoolDB \<Rightarrow> (gostring + L2Transaction option list) \<times> PoolDB" where
  "GetL2TransactionsToSend q db = GetL2TransactionsByStatus q TxStatusPending db"

subsection \<open>Invariant\<close>

text \<open>Keys are the numbers the sequence has given out, without repetition; 0 is none.\<close>

definition db_inv :: "PoolDB \<Rightarrow> bool" where
  "db_inv db \<longleftrightarrow>
     1 \<le> db_seq db \<and> db_seq db \<le> max_serial + 1 \<and>
     distinct (map row_id (db_rows db)) \<and>
     (\<forall>r\<in>set (db_rows db). 1 \<le> unat (row_id r) \<and> unat (row_id r) < db_seq db)"

lemma db_inv_new: "db_inv (NewPoolDB env)"
  by (simp add: db_inv_def NewPoolDB_def max_serial_def)

lemma unat_serial: "n \<le> max_serial \<Longrightarrow> unat (of_nat n :: uint64) = n"
  by (simp add: unat_of_nat take_bit_eq_mod max_serial_def)

lemma row_id_update_row [simp]: "row_id (update_row now s m r) = row_id r"
  by (simp add: row_id_def update_row_def)

lemma row_status_update_row [simp]: "row_status (update_row now s m r) = s"
  by (simp add: row_status_def update_row_def)

lemma map_row_id_update_rows [simp]:
  "map row_id (db_rows (update_rows now i s m db)) = map row_id (db_rows db)"
  by (simp add: update_rows_def)

lemma update_rows_simps [simp]:
  "db_seq (update_rows now i s m db) = db_seq db"
  "db_env (update_rows now i s m db) = db_env db"
  "db_tick (update_rows now i s m db) = db_tick db"
  by (simp_all add: update_rows_def)

lemma db_inv_update_rows: "db_inv db \<Longrightarrow> db_inv (update_rows now i s m db)"
  unfolding db_inv_def map_row_id_update_rows by (auto simp: update_rows_def)

lemma db_inv_tick [simp]: "db_inv (db\<lparr>db_tick := n\<rparr>) \<longleftrightarrow> db_inv db"
  by (simp add: db_inv_def)

lemma insert_row_fresh:
  assumes "db_inv db" "db_seq db \<le> max_serial"
  shows "of_nat (db_seq db) \<notin> row_id ` set (db_rows db)"
  using assms unat_serial unfolding db_inv_def by fastforce

lemma db_inv_insert_row:
  assumes inv: "db_inv db"
  shows "db_inv (snd (insert_row enc now tx db))"
proof (cases "db_seq db > max_serial \<or> enc tx = None")
  case True
  then show ?thesis using inv by (auto simp: insert_row_def)
next
  case False
  then obtain tx' where "enc tx = Some tx'" and le: "db_seq db \<le> max_serial" by auto
  then show ?thesis
    using inv insert_row_fresh [OF inv le] unat_serial [OF le] unfolding db_inv_def
    by (auto simp: insert_row_def row_id_def max_serial_def)
qed

lemma db_inv_Add: "db_inv db \<Longrightarrow> db_inv (snd (AddL2Transaction enc tx db))"
  using db_inv_insert_row [of "db\<lparr>db_tick := db_tick db + 1\<rparr>" enc _ tx]
  by (auto simp: AddL2Transaction_def Let_def split: stmt_outcome.split prod.split sum.split)
    (metis snd_conv)+

lemma db_inv_Update: "db_inv db \<Longrightarrow> db_inv (snd (UpdateL2TransactionStatus i s m db))"
  by (simp add: UpdateL2TransactionStatus_def Let_def db_inv_update_rows split: stmt_outcome.split)

lemma db_inv_Get: "db_inv db \<Longrightarrow> db_inv (snd (GetL2TransactionsByStatus q s db))"
  by (simp add: GetL2TransactionsByStatus_def Let_def split: stmt_outcome.split)

subsection \<open>The abstraction: identifiers and their status\<close>

definition status_of :: "PoolDB \<Rightarrow> uint64 \<Rightarrow> gostring option" where
  "status_of db i = map_option row_status (find (\<lambda>r. row_id r = i) (db_rows db))"

text \<open>The effect of an update on the abstraction: a known identifier gets the new status.\<close>

definition set_status :: "uint64 \<Rightarrow> gostring \<Rightarrow> (uint64 \<Rightarrow> gostring option) \<Rightarrow> uint64 \<Rightarrow> gostring option" where
  "set_status i s st = (\<lambda>j. if j = i then map_option (\<lambda>_. s) (st j) else st j)"

lemma set_status_same [simp]: "set_status i s st i = map_option (\<lambda>_. s) (st i)"
  by (simp add: set_status_def)

lemma set_status_other [simp]: "j \<noteq> i \<Longrightarrow> set_status i s st j = st j"
  by (simp add: set_status_def)

lemma dom_set_status [simp]: "dom (set_status i s st) = dom st"
  by (auto simp: set_status_def split: if_splits)

lemma status_of_update_rows:
  "status_of (update_rows now i s m db) = set_status i s (status_of db)"
proof
  fix j
  have "map_option row_status (find (\<lambda>r. row_id r = j)
          (map (\<lambda>r. if row_id r = i then update_row now s m r else r) rs))
      = set_status i s (\<lambda>j. map_option row_status (find (\<lambda>r. row_id r = j) rs)) j" for rs
    by (induction rs) (auto simp: set_status_def)
  then show "status_of (update_rows now i s m db) j = set_status i s (status_of db) j"
    by (simp add: status_of_def update_rows_def set_status_def)
qed

lemma status_of_tick [simp]: "status_of (db\<lparr>db_tick := n\<rparr>) = status_of db"
  by (rule ext) (simp add: status_of_def)

lemma status_of_dom: "dom (status_of db) = row_id ` set (db_rows db)"
proof -
  have found: "(\<exists>r. find (\<lambda>r. row_id r = i) rs = Some r) \<longleftrightarrow> i \<in> row_id ` set rs" for i rs
    by (induction rs) auto
  show ?thesis
  proof (rule set_eqI)
    show "i \<in> dom (status_of db) \<longleftrightarrow> i \<in> row_id ` set (db_rows db)" for i
      using found [of i "db_rows db"] by (auto simp: status_of_def dom_def)
  qed
qed

lemma status_of_zero: "db_inv db \<Longrightarrow> status_of db 0 = None"
  using status_of_dom [of db] by (force simp: db_inv_def)

text \<open>
  The interface \<open>poolDBInterface\<close> of the monitor and of the sender, as far as it changes
  state: an update without an error has reached the identifier (if it is known), one with an
  error may or may not have, and no other identifier is touched.
\<close>

locale status_store =
  fixes st_inv :: "'d \<Rightarrow> bool"
    and status :: "'d \<Rightarrow> uint64 \<Rightarrow> gostring option"
    and update :: "uint64 \<Rightarrow> gostring \<Rightarrow> gostring \<Rightarrow> 'd \<Rightarrow> goerror \<times> 'd"
  assumes update_inv: "st_inv d \<Longrightarrow> st_inv (snd (update i s m d))"
    and update_ok: "update i s m d = (None, d') \<Longrightarrow> status d' = set_status i s (status d)"
    and update_err: "update i s m d = (Some e, d') \<Longrightarrow>
          status d' = status d \<or> status d' = set_status i s (status d)"
begin

lemma update_either:
  "status (snd (update i s m d)) = status d \<or> status (snd (update i s m d)) = set_status i s (status d)"
proof (cases "update i s m d")
  case (Pair r d')
  then show ?thesis using update_ok update_err by (cases r) auto
qed

lemma update_frame: "j \<noteq> i \<Longrightarrow> status (snd (update i s m d)) j = status d j"
  using update_either [of i s m d] by auto

lemma update_dom: "dom (status (snd (update i s m d))) = dom (status d)"
  using update_either [of i s m d] dom_set_status by metis

lemma update_result:
  "status (snd (update i s m d)) i = status d i \<or>
   status (snd (update i s m d)) i = map_option (\<lambda>_. s) (status d i)"
  using update_either [of i s m d] by auto

end

interpretation pool_store: status_store db_inv status_of UpdateL2TransactionStatus
proof (unfold_locales, goal_cases)
  case (1 d i s m)
  then show ?case by (rule db_inv_Update)
qed (auto simp: UpdateL2TransactionStatus_def Let_def status_of_update_rows
    split: stmt_outcome.splits)

subsection \<open>Queries\<close>

text \<open>
  The documented behaviour of the driver that the queries rely on: some order of the rows,
  columns read back as stored, no raw values before the first row.
\<close>

definition faithful_query :: "query_env \<Rightarrow> bool" where
  "faithful_query q \<longleftrightarrow>
     (\<forall>rs. mset (q_order q rs) = mset rs) \<and> (\<forall>r. q_scan q r = Inr (row_tx r)) \<and> q_raw_len q = 0"

definition in_order_query :: "nat option \<Rightarrow> query_env" where
  "in_order_query brk =
     \<lparr>q_order = (\<lambda>rs. rs), q_scan = (\<lambda>r. Inr (row_tx r)), q_cut = brk, q_raw_len = 0\<rparr>"

lemma faithful_in_order: "faithful_query (in_order_query brk)"
  by (simp add: faithful_query_def in_order_query_def)

lemma scan_rows_all:
  "\<forall>r. scan r = Inr (row_tx r) \<Longrightarrow> scan_rows scan rs txs = Inr (txs @ map (Some \<circ> row_tx) rs)"
  by (induction rs arbitrary: txs) auto

definition rows_with_status :: "gostring \<Rightarrow> PoolDB \<Rightarrow> pool_row list" where
  "rows_with_status s db = filter (\<lambda>r. row_status r = s) (db_rows db)"

lemma query_result:
  assumes "faithful_query q" "st_out (db_env db (db_tick db)) = StOk"
  shows "fst (GetL2TransactionsByStatus q s db) =
    Inr (map (Some \<circ> row_tx)
      (case q_cut q of None \<Rightarrow> q_order q (rows_with_status s db)
       | Some n \<Rightarrow> take n (q_order q (rows_with_status s db))))"
  using assms
  by (simp add: GetL2TransactionsByStatus_def Let_def faithful_query_def scan_rows_all
      rows_with_status_def split: option.split)

subsection \<open>Properties\<close>

text \<open>
  An environment for the examples: every statement succeeds, at the instant of its number
  in seconds; and a store that keeps transactions as they are.
\<close>

definition calm :: "nat \<Rightarrow> stmt_event" where
  "calm n = \<lparr>st_now = clock (int n * 1000000000), st_out = StOk\<rparr>"

definition ex_tx :: L2Transaction where
  "ex_tx = (mk_tx 0 ''0xab'' zero_time)\<lparr>tx_Status := TxStatusPending, tx_Encoded := ''0x01''\<rparr>"

lemmas pool_exec =
  AddL2Transaction_def insert_row_def NewPoolDB_def calm_def max_serial_def Let_def ex_tx_def
  mk_tx_def status_of_def row_id_def row_status_def TxStatus_defs

text \<open>
  A successful insertion returns a key that no row had, appends exactly the stored form of
  the transaction under that key with its status, and keeps keys distinct.
\<close>

lemma add_tx_ok:
  assumes "db_inv db" "AddL2Transaction enc tx db = ((i, None), db')"
  shows "i \<noteq> 0 \<and> status_of db i = None
    \<and> (\<exists>tx' now. enc tx = Some tx'
         \<and> db_rows db' = db_rows db @ [\<lparr>row_tx = tx'\<lparr>tx_Id := i\<rparr>, row_updated_at = now, row_error = None\<rparr>])
    \<and> db_inv db'"
proof -
  let ?db = "db\<lparr>db_tick := db_tick db + 1\<rparr>" and ?now = "st_now (db_env db (db_tick db))"
  have ins: "insert_row enc ?now tx ?db = (Inr i, db')"
    using assms(2)
    by (auto simp: AddL2Transaction_def Let_def split: stmt_outcome.splits prod.splits sum.splits)
  then obtain tx' where le: "db_seq db \<le> max_serial" and enc: "enc tx = Some tx'"
      and i: "i = of_nat (db_seq db)"
      and rows: "db_rows db' = db_rows db @
        [\<lparr>row_tx = tx'\<lparr>tx_Id := i\<rparr>, row_updated_at = ?now, row_error = None\<rparr>]"
    by (auto simp: insert_row_def split: if_splits option.splits)
  have "i \<notin> dom (status_of db)"
    using insert_row_fresh [OF assms(1) le] i by (simp add: status_of_dom)
  moreover have "i \<noteq> 0"
    using unat_serial [OF le] assms(1) i by (auto simp: db_inv_def)
  moreover have "db_inv db'"
    using db_inv_Add [OF assms(1), of enc tx] assms(2) by simp
  ultimately show ?thesis using enc rows by auto
qed

lemma add_tx_ok_example:
  "fst (AddL2Transaction Some ex_tx (NewPoolDB calm)) = (1, None)
   \<and> status_of (NewPoolDB calm) 1 = None
   \<and> db_inv (snd (AddL2Transaction Some ex_tx (NewPoolDB calm)))"
proof -
  have "fst (AddL2Transaction Some ex_tx (NewPoolDB calm)) = (1, None)" by (simp_all add: pool_exec)
  then obtain db' where r: "AddL2Transaction Some ex_tx (NewPoolDB calm) = ((1, None), db')"
    by (metis prod.collapse)
  from add_tx_ok [OF db_inv_new r] r show ?thesis by simp
qed

text \<open>
  When an insertion reports an error the caller gets key 0, which is the key of no row;
  whatever the server did, every row that was there is still there unchanged.
\<close>

lemma add_tx_error:
  assumes "db_inv db" "AddL2Transaction enc tx db = ((i, Some e), db')"
  shows "i = 0 \<and> db_inv db' \<and> status_of db' 0 = None
    \<and> (\<exists>new. db_rows db' = db_rows db @ new \<and> length new \<le> 1)"
proof -
  have "db_inv db'" using db_inv_Add [OF assms(1), of enc tx] assms(2) by simp
  moreover have "i = 0" "\<exists>new. db_rows db' = db_rows db @ new \<and> length new \<le> 1"
    using assms(2)
    by (auto simp: AddL2Transaction_def insert_row_def Let_def
        split: stmt_outcome.splits prod.splits sum.splits if_splits option.splits)
  ultimately show ?thesis using status_of_zero by blast
qed

lemma add_tx_error_example:
  "let r = AddL2Transaction Some ex_tx
        (NewPoolDB (\<lambda>n. \<lparr>st_now = clock 0, st_out = StLost ''broken pipe''\<rparr>))
   in fst r = (0, Some ''broken pipe'') \<and> length (db_rows (snd r)) = 1 \<and> status_of (snd r) 0 = None"
proof -
  let ?db = "NewPoolDB (\<lambda>n. \<lparr>st_now = clock 0, st_out = StLost ''broken pipe''\<rparr>)"
  have f: "fst (AddL2Transaction Some ex_tx ?db) = (0, Some ''broken pipe'')"
    and l: "length (db_rows (snd (AddL2Transaction Some ex_tx ?db))) = 1" by (simp_all add: pool_exec)+
  from f obtain db' where r: "AddL2Transaction Some ex_tx ?db = ((0, Some ''broken pipe''), db')"
    by (metis prod.collapse)
  from add_tx_error [OF db_inv_new r] l r show ?thesis by simp
qed

text \<open>
  C40. A query whose stream is not broken returns, in some order, exactly the transactions
  whose row has the status asked for, with no nil pointer, and changes no row.
\<close>

theorem query_complete:
  assumes "faithful_query q" "q_cut q = None" "st_out (db_env db (db_tick db)) = StOk"
  shows "\<exists>txs. fst (GetL2TransactionsByStatus q s db) = Inr (map Some txs)
           \<and> mset txs = mset (map row_tx (filter (\<lambda>r. row_status r = s) (db_rows db)))
           \<and> db_rows (snd (GetL2TransactionsByStatus q s db)) = db_rows db"
proof (intro exI conjI)
  let ?rs = "q_order q (rows_with_status s db)"
  show "fst (GetL2TransactionsByStatus q s db) = Inr (map Some (map row_tx ?rs))"
    using query_result [OF assms(1,3)] assms(2) by simp
  have "mset ?rs = mset (rows_with_status s db)" using assms(1) by (simp add: faithful_query_def)
  then show "mset (map row_tx ?rs) = mset (map row_tx (filter (\<lambda>r. row_status r = s) (db_rows db)))"
    by (simp add: rows_with_status_def)
  show "db_rows (snd (GetL2TransactionsByStatus q s db)) = db_rows db"
    by (simp add: GetL2TransactionsByStatus_def Let_def split: stmt_outcome.split)
qed

theorem query_complete_witness:
  "\<exists>txs. fst (GetL2TransactionsToSend (in_order_query None)
            (snd (AddL2Transaction Some ex_tx (NewPoolDB calm)))) = Inr (map Some txs)
       \<and> mset txs = {#ex_tx\<lparr>tx_Id := 1\<rparr>#}"
proof -
  let ?db = "snd (AddL2Transaction Some ex_tx (NewPoolDB calm))"
  have c: "q_cut (in_order_query None) = None" by (simp add: in_order_query_def)
  have o: "st_out (db_env ?db (db_tick ?db)) = StOk" by (simp_all add: pool_exec)
  have rows: "map row_tx (filter (\<lambda>r. row_status r = TxStatusPending) (db_rows ?db))
      = [ex_tx\<lparr>tx_Id := 1\<rparr>]" by (simp_all add: pool_exec)
  from query_complete [OF faithful_in_order c o, of TxStatusPending] show ?thesis
    unfolding GetL2TransactionsToSend_def rows by fastforce
qed

text \<open>
  A query whose stream breaks after \<open>n\<close> rows returns those \<open>n\<close> rows and no error:
  the source never looks at \<open>rows.Err()\<close>, so the caller takes the partial answer for a
  complete one.
\<close>

lemma query_broken_is_silent:
  assumes "faithful_query q" "q_cut q = Some n" "st_out (db_env db (db_tick db)) = StOk"
  shows "\<exists>txs. fst (GetL2TransactionsByStatus q s db) = Inr (map Some txs)
           \<and> length txs = min n (length (filter (\<lambda>r. row_status r = s) (db_rows db)))"
proof (intro exI conjI)
  let ?rs = "q_order q (rows_with_status s db)"
  show "fst (GetL2TransactionsByStatus q s db) = Inr (map Some (map row_tx (take n ?rs)))"
    using query_result [OF assms(1,3)] assms(2) by simp
  have "length ?rs = length (rows_with_status s db)"
    using assms(1) unfolding faithful_query_def by (metis size_mset)
  then show "length (map row_tx (take n ?rs))
      = min n (length (filter (\<lambda>r. row_status r = s) (db_rows db)))"
    by (simp add: rows_with_status_def)
qed

lemma query_broken_is_silent_example:
  "\<exists>txs. fst (GetL2TransactionsToSend (in_order_query (Some 0))
            (snd (AddL2Transaction Some ex_tx (NewPoolDB calm)))) = Inr (map Some txs)
       \<and> length txs = 0"
proof -
  let ?db = "snd (AddL2Transaction Some ex_tx (NewPoolDB calm))"
  have c: "q_cut (in_order_query (Some 0)) = Some 0" by (simp add: in_order_query_def)
  have o: "st_out (db_env ?db (db_tick ?db)) = StOk" by (simp_all add: pool_exec)
  from query_broken_is_silent [OF faithful_in_order c o, of TxStatusPending] show ?thesis
    unfolding GetL2TransactionsToSend_def by simp
qed

text \<open>
  An update touches the row with the given key and no other: it sets the status there,
  and for a key that no row has it succeeds and changes no row.
\<close>

lemma update_status_exact:
  assumes "st_out (db_env db (db_tick db)) = StOk"
  shows "fst (UpdateL2TransactionStatus i s m db) = None
    \<and> status_of (snd (UpdateL2TransactionStatus i s m db))
        = (\<lambda>j. if j = i \<and> status_of db i \<noteq> None then Some s else status_of db j)
    \<and> (status_of db i = None \<longrightarrow> db_rows (snd (UpdateL2TransactionStatus i s m db)) = db_rows db)"
proof -
  let ?db = "db\<lparr>db_tick := db_tick db + 1\<rparr>" and ?now = "st_now (db_env db (db_tick db))"
  have u: "UpdateL2TransactionStatus i s m db = (None, update_rows ?now i s m ?db)"
    using assms by (simp add: UpdateL2TransactionStatus_def Let_def)
  have "db_rows (update_rows ?now i s m ?db) = db_rows db" if "status_of db i = None"
  proof -
    have "i \<notin> row_id ` set (db_rows db)" using that status_of_dom by blast
    then show ?thesis by (auto simp: update_rows_def intro!: map_idI)
  qed
  then show ?thesis
    unfolding u by (auto simp: status_of_update_rows set_status_def)
qed

lemma update_status_exact_example:
  "let db = snd (AddL2Transaction Some ex_tx (NewPoolDB calm)) in
   status_of (snd (UpdateL2TransactionStatus 1 TxStatusSent [] db)) 1 = Some TxStatusSent
   \<and> fst (UpdateL2TransactionStatus 7 TxStatusSent [] db) = None
   \<and> db_rows (snd (UpdateL2TransactionStatus 7 TxStatusSent [] db)) = db_rows db"
proof -
  let ?db = "snd (AddL2Transaction Some ex_tx (NewPoolDB calm))"
  have o: "st_out (db_env ?db (db_tick ?db)) = StOk" by (simp_all add: pool_exec)
  have s: "status_of ?db 1 = Some TxStatusPending" "status_of ?db 7 = None" by (simp_all add: pool_exec)+
  from update_status_exact [OF o, of 1 TxStatusSent "[]"] update_status_exact [OF o, of 7 TxStatusSent "[]"]
  show ?thesis unfolding Let_def using s by simp
qed

end
