(* ===== verification/Monitor.thy ===== *)
theory Monitor
  imports RequestList PoolDB
begin

section \<open>The monitor\<close>

text \<open>
  Model of \<open>monitor/monitor.go\<close>: each handler as one function of the monitor's state, as it
  runs when no other goroutine interferes. Theory \<open>MonitorSteps\<close> splits the same handlers
  at their synchronisation points and interleaves them.

  The state holds the store of requests, the retry list, the channel with the goroutines
  that still wait to send into it, whether the retry loop sleeps on its condition variable,
  and the state \<open>'d\<close> of the database behind the interface \<open>poolDBInterface\<close>, whose
  operations are arguments. The L2 node is an argument too: it maps the hash of a
  transaction to the answer of \<open>TransactionReceipt\<close>. Readings of the clock are arguments.
\<close>

record MonitorConfig =
  mc_L2NodeURL :: gostring
  mc_Workers :: "16 word"
  mc_QueueSize :: "16 word"
  mc_InitialWaitInterval :: duration
  mc_RetryWaitInterval :: duration
  mc_TxLifeTimeMax :: duration
  mc_RPCReadTimeout :: duration

record 'd Monitor =
  m_heap :: heap
  m_next :: ref
  m_list :: monitorRequestList
  m_sending :: "ref list"
  m_chan :: "ref list"
  m_waiting :: bool
  m_db :: 'd

datatype receipt_result = Receipt uint64 | ReceiptNotFound | ReceiptError gostring

type_synonym 'd update_fun = "uint64 \<Rightarrow> gostring \<Rightarrow> gostring \<Rightarrow> 'd \<Rightarrow> goerror \<times> 'd"

definition NewMonitor :: "'d \<Rightarrow> 'd Monitor" where
  "NewMonitor db = \<lparr>m_heap = Map.empty, m_next = 1, m_list = newMonitorRequestList,
     m_sending = [], m_chan = [], m_waiting = False, m_db = db\<rparr>"

subsection \<open>Handlers\<close>

text \<open>\<open>&monitorRequest{...}\<close>: a fresh address.\<close>

definition new_request :: "monitorRequest \<Rightarrow> 'd Monitor \<Rightarrow> ref \<times> 'd Monitor" where
  "new_request r m =
     (m_next m, m\<lparr>m_heap := (m_heap m)(m_next m \<mapsto> r), m_next := m_next m + 1\<rparr>)"

text \<open>\<open>requestRetryCond.Signal()\<close> wakes the retry loop if it waits and is lost otherwise.\<close>

definition cond_signal :: "'d Monitor \<Rightarrow> 'd Monitor" where
  "cond_signal m = m\<lparr>m_waiting := False\<rparr>"

definition enqueueMonitorRequest :: "ref \<Rightarrow> 'd Monitor \<Rightarrow> 'd Monitor" where
  "enqueueMonitorRequest request m = m\<lparr>m_sending := m_sending m @ [request]\<rparr>"

definition addRequestToRetryList :: "ref \<Rightarrow> 'd Monitor \<Rightarrow> 'd Monitor option" where
  "addRequestToRetryList request m = do {
     (b, l) \<leftarrow> add (m_heap m) request (m_list m);
     let m' = m\<lparr>m_list := l\<rparr>;
     Some (if len (m_list m') = 1 then cond_signal m' else m') }"

definition monitorAddL2Transaction ::
  "MonitorConfig \<Rightarrow> gotime \<Rightarrow> L2Transaction \<Rightarrow> 'd Monitor \<Rightarrow> 'd Monitor option" where
  "monitorAddL2Transaction cfg now tx m =
     (if mc_InitialWaitInterval cfg > 0
      then (let (request, m') = new_request
                  \<lparr>l2Tx = tx, nextRetry = time_add now (mc_InitialWaitInterval cfg)\<rparr> m
            in addRequestToRetryList request m')
      else (let (request, m') = new_request \<lparr>l2Tx = tx, nextRetry = zero_time\<rparr> m
            in Some (enqueueMonitorRequest request m')))"

definition set_nextRetry :: "ref \<Rightarrow> gotime \<Rightarrow> 'd Monitor \<Rightarrow> 'd Monitor option" where
  "set_nextRetry request t m = do {
     r \<leftarrow> deref (m_heap m) request;
     Some (m\<lparr>m_heap := (m_heap m)(request \<mapsto> r\<lparr>nextRetry := t\<rparr>)\<rparr>) }"

definition scheduleRequestRetry ::
  "MonitorConfig \<Rightarrow> gotime \<Rightarrow> ref \<Rightarrow> 'd Monitor \<Rightarrow> 'd Monitor option" where
  "scheduleRequestRetry cfg now request m = do {
     m' \<leftarrow> set_nextRetry request (time_add now (mc_RetryWaitInterval cfg)) m;
     addRequestToRetryList request m' }"

definition receipt_status :: "uint64 \<Rightarrow> gostring" where
  "receipt_status s = (if s = 0 then TxStatusFailed else TxStatusConfirmed)"

definition workerProcessRequest ::
  "MonitorConfig \<Rightarrow> 'd update_fun \<Rightarrow> (gostring \<Rightarrow> receipt_result) \<Rightarrow> gotime \<Rightarrow> ref \<Rightarrow>
    'd Monitor \<Rightarrow> 'd Monitor option" where
  "workerProcessRequest cfg upd node now request m = do {
     r \<leftarrow> deref (m_heap m) request;
     case node (tx_Hash (l2Tx r)) of
       Receipt status \<Rightarrow>
         (let (err, d) = upd (tx_Id (l2Tx r)) (receipt_status status) [] (m_db m);
              m' = m\<lparr>m_db := d\<rparr>
          in if err \<noteq> None then scheduleRequestRetry cfg now request m'
             else do {
               (b, l) \<leftarrow> delete (m_heap m') request (m_list m');
               Some (m'\<lparr>m_list := l\<rparr>) })
     | ReceiptNotFound \<Rightarrow> scheduleRequestRetry cfg now request m
     | ReceiptError e \<Rightarrow> scheduleRequestRetry cfg now request m }"

text \<open>One pass of the loop of \<open>checkMonitorRequestRetries\<close>, with what it does last.\<close>

datatype check_result = CheckExpired | CheckRetried | CheckSleep duration | CheckWait

definition has_expired :: "MonitorConfig \<Rightarrow> gotime \<Rightarrow> monitorRequest \<Rightarrow> bool" where
  "has_expired cfg now r = time_before (time_add (tx_ReceivedAt (l2Tx r)) (mc_TxLifeTimeMax cfg)) now"

definition checkMonitorRequestRetries ::
  "MonitorConfig \<Rightarrow> 'd update_fun \<Rightarrow> gotime \<Rightarrow> 'd Monitor \<Rightarrow> (check_result \<times> 'd Monitor) option" where
  "checkMonitorRequestRetries cfg upd now m =
     (if len (m_list m) > 0 then do {
        request \<leftarrow> getByIndex 0 (m_list m);
        r \<leftarrow> deref (m_heap m) request;
        if has_expired cfg now r then
          (let (err, d) = upd (tx_Id (l2Tx r)) TxStatusExpired [] (m_db m) in do {
             (b, l) \<leftarrow> delete (m_heap m) request (m_list m);
             Some (CheckExpired, m\<lparr>m_db := d, m_list := l\<rparr>) })
        else if time_before (nextRetry r) now then do {
          (b, l) \<leftarrow> delete (m_heap m) request (m_list m);
          Some (CheckRetried, enqueueMonitorRequest request (m\<lparr>m_list := l\<rparr>)) }
        else Some (CheckSleep (time_sub (nextRetry r) now), m) }
      else Some (CheckWait, m\<lparr>m_waiting := True\<rparr>))"

text \<open>
  Registering what the database says is sent: the loop copies \<open>*l2Tx\<close>, so a nil pointer in
  the result is a panic. \<open>clk k\<close> is the clock reading of iteration \<open>k\<close>.
\<close>

fun monitor_all ::
  "MonitorConfig \<Rightarrow> (nat \<Rightarrow> gotime) \<Rightarrow> nat \<Rightarrow> L2Transaction option list \<Rightarrow> 'd Monitor \<Rightarrow> 'd Monitor option" where
  "monitor_all cfg clk k [] m = Some m"
| "monitor_all cfg clk k (None # txs) m = None"
| "monitor_all cfg clk k (Some tx # txs) m = do {
     m' \<leftarrow> monitorAddL2Transaction cfg (clk k) tx m;
     monitor_all cfg clk (k + 1) txs m' }"

definition monitorL2TransactionsFromPoolDB ::
  "MonitorConfig \<Rightarrow> (nat \<Rightarrow> gotime) \<Rightarrow> ('d \<Rightarrow> (gostring + L2Transaction option list) \<times> 'd) \<Rightarrow>
    'd Monitor \<Rightarrow> 'd Monitor option" where
  "monitorL2TransactionsFromPoolDB cfg clk get m =
     (let (res, d) = get (m_db m);
          l2Txs = (case res of Inl err \<Rightarrow> [] | Inr txs \<Rightarrow> txs)
      in monitor_all cfg clk 0 l2Txs (m\<lparr>m_db := d\<rparr>))"

subsection \<open>The channel\<close>

text \<open>
  A goroutine of \<open>enqueueMonitorRequest\<close> gets its request into the buffer when there is
  room; a worker takes the oldest request of the buffer, or meets a sender directly when
  the buffer is empty.
\<close>

definition chan_deliver :: "MonitorConfig \<Rightarrow> nat \<Rightarrow> 'd Monitor \<Rightarrow> 'd Monitor option" where
  "chan_deliver cfg i m =
     (if i < length (m_sending m) \<and> length (m_chan m) < unat (mc_QueueSize cfg)
      then Some (m\<lparr>m_sending := take i (m_sending m) @ drop (i + 1) (m_sending m),
                   m_chan := m_chan m @ [m_sending m ! i]\<rparr>)
      else None)"

definition chan_receive :: "'d Monitor \<Rightarrow> (ref \<times> 'd Monitor) option" where
  "chan_receive m =
     (case m_chan m of [] \<Rightarrow> None | p # ps \<Rightarrow> Some (p, m\<lparr>m_chan := ps\<rparr>))"

definition chan_handoff :: "nat \<Rightarrow> 'd Monitor \<Rightarrow> (ref \<times> 'd Monitor) option" where
  "chan_handoff i m =
     (if m_chan m = [] \<and> i < length (m_sending m)
      then Some (m_sending m ! i,
                 m\<lparr>m_sending := take i (m_sending m) @ drop (i + 1) (m_sending m)\<rparr>)
      else None)"

end
