(* ===== verification/MonitorSteps.thy ===== *)
theory MonitorSteps
  imports Monitor
begin

section \<open>The monitor under concurrency\<close>

text \<open>
  The goroutines of \<open>monitor/monitor.go\<close> interleaved: the workers of \<open>startMonitorWorker\<close>
  (threads \<open>0 .. Workers - 1\<close>), callers of \<open>AddL2Transaction\<close> (the other threads), the
  goroutines of \<open>enqueueMonitorRequest\<close> (the list \<open>m_sending\<close>) and the retry loop. A
  handler is split where another goroutine can come in between: one operation of the retry
  list (its mutex), one channel operation, one call of the condition variable, one call to
  the database or the node, one write to a request. The answers of the database and of the
  node, and the readings of the clock, are part of the action and arbitrary.
\<close>

subsection \<open>Program counters\<close>

text \<open>
  \<open>PcStart\<close> is a worker that has not yet dialled the node, \<open>PcDead\<close> one that has returned
  because that failed; \<open>PcAdd\<close>, \<open>PcLen\<close> and \<open>PcSignal\<close> are the three steps of
  \<open>addRequestToRetryList\<close>, the others the points of \<open>workerProcessRequest\<close>: request received, receipt answered (the status to
  store), retry to be scheduled, request to be deleted from the list.
\<close>

datatype pc =
    PcIdle | PcStart | PcDead
  | PcAdd ref | PcLen | PcSignal
  | PcRequest ref | PcUpdate ref gostring | PcRetry ref | PcDelete ref

text \<open>The retry loop, from the test \<open>len() > 0\<close> on.\<close>

datatype cpc =
    CkLen
  | CkFirst gotime | CkDecide gotime ref | CkExpire ref | CkDelExpired ref
  | CkDelRetry ref | CkEnqueue ref | CkSleep | CkWait | CkWaiting

text \<open>
  The system: the monitor, its goroutines, and two history variables that no code reads,
  the identifiers handed to the monitor so far and the status updates it has tried, with
  their errors.
\<close>

record 'd msys =
  ms_mon :: "'d Monitor"
  ms_threads :: "pc list"
  ms_check :: cpc
  ms_seen :: "uint64 set"
  ms_log :: "(uint64 \<times> gostring \<times> goerror) list"

datatype action =
    ActDial nat goerror
  | ActCall nat gotime L2Transaction
  | ActAdd nat | ActLen nat | ActSignal nat
  | ActDeliver nat | ActReceive nat | ActHandoff nat nat
  | ActReceipt nat receipt_result | ActUpdate nat goerror | ActRetry nat gotime | ActDelete nat
  | ActCheck gotime goerror

definition set_pc :: "nat \<Rightarrow> pc \<Rightarrow> 'd msys \<Rightarrow> 'd msys" where
  "set_pc t c s = s\<lparr>ms_threads := (ms_threads s)[t := c]\<rparr>"

definition pc_of :: "'d msys \<Rightarrow> nat \<Rightarrow> pc option" where
  "pc_of s t = index_at (ms_threads s) t"

definition is_worker :: "MonitorConfig \<Rightarrow> nat \<Rightarrow> bool" where
  "is_worker cfg t \<longleftrightarrow> t < unat (mc_Workers cfg)"

definition list_update_mon :: "monitorRequestList \<Rightarrow> 'd msys \<Rightarrow> 'd msys" where
  "list_update_mon l s = s\<lparr>ms_mon := (ms_mon s)\<lparr>m_list := l\<rparr>\<rparr>"

text \<open>The next step of the retry loop, given a clock reading and the database's answer.\<close>

definition check_act :: "MonitorConfig \<Rightarrow> gotime \<Rightarrow> goerror \<Rightarrow> 'd msys \<Rightarrow> 'd msys option option" where
  "check_act cfg now err s =
     (let m = ms_mon s in
      case ms_check s of
        CkLen \<Rightarrow> Some (Some (s\<lparr>ms_check := (if len (m_list m) > 0 then CkFirst now else CkWait)\<rparr>))
      | CkFirst t \<Rightarrow> Some (map_option (\<lambda>p. s\<lparr>ms_check := CkDecide t p\<rparr>) (getByIndex 0 (m_list m)))
      | CkDecide t p \<Rightarrow>
          Some (map_option (\<lambda>r. s\<lparr>ms_check :=
                  (if has_expired cfg t r then CkExpire p
                   else if time_before (nextRetry r) t then CkDelRetry p else CkSleep)\<rparr>)
                (deref (m_heap m) p))
      | CkExpire p \<Rightarrow>
          Some (map_option (\<lambda>r. s\<lparr>ms_check := CkDelExpired p,
                  ms_log := ms_log s @ [(tx_Id (l2Tx r), TxStatusExpired, err)]\<rparr>)
                (deref (m_heap m) p))
      | CkDelExpired p \<Rightarrow>
          Some (map_option (\<lambda>(b, l). list_update_mon l (s\<lparr>ms_check := CkLen\<rparr>))
                (delete (m_heap m) p (m_list m)))
      | CkDelRetry p \<Rightarrow>
          Some (map_option (\<lambda>(b, l). list_update_mon l (s\<lparr>ms_check := CkEnqueue p\<rparr>))
                (delete (m_heap m) p (m_list m)))
      | CkEnqueue p \<Rightarrow> Some (Some (s\<lparr>ms_check := CkLen, ms_mon := enqueueMonitorRequest p m\<rparr>))
      | CkSleep \<Rightarrow> Some (Some (s\<lparr>ms_check := CkLen\<rparr>))
      | CkWait \<Rightarrow> Some (Some (s\<lparr>ms_check := CkWaiting, ms_mon := m\<lparr>m_waiting := True\<rparr>\<rparr>))
      | CkWaiting \<Rightarrow> if m_waiting m then None else Some (Some (s\<lparr>ms_check := CkLen\<rparr>)))"

text \<open>
  One action: \<^term>\<open>None\<close> when it is not enabled, \<^term>\<open>Some None\<close> when it panics.
\<close>

fun mon_act ::
  "MonitorConfig \<Rightarrow> action \<Rightarrow> 'd msys \<Rightarrow> 'd msys option option" where
  "mon_act cfg (ActDial t err) s =
     (if pc_of s t = Some PcStart
      then Some (Some (set_pc t (if err \<noteq> None then PcDead else PcIdle) s))
      else None)"
| "mon_act cfg (ActCall t now tx) s =
     (if pc_of s t = Some PcIdle \<and> \<not> is_worker cfg t
      then (let s' = s\<lparr>ms_seen := insert (tx_Id tx) (ms_seen s)\<rparr> in
            if mc_InitialWaitInterval cfg > 0
            then (let (p, m) = new_request
                        \<lparr>l2Tx = tx, nextRetry = time_add now (mc_InitialWaitInterval cfg)\<rparr> (ms_mon s)
                  in Some (Some (set_pc t (PcAdd p) (s'\<lparr>ms_mon := m\<rparr>))))
            else (let (p, m) = new_request \<lparr>l2Tx = tx, nextRetry = zero_time\<rparr> (ms_mon s)
                  in Some (Some (s'\<lparr>ms_mon := enqueueMonitorRequest p m\<rparr>))))
      else None)"
| "mon_act cfg (ActAdd t) s =
     (case pc_of s t of
        Some (PcAdd p) \<Rightarrow>
          Some (map_option (\<lambda>(b, l). set_pc t PcLen (list_update_mon l s))
                (add (m_heap (ms_mon s)) p (m_list (ms_mon s))))
      | _ \<Rightarrow> None)"
| "mon_act cfg (ActLen t) s =
     (if pc_of s t = Some PcLen
      then Some (Some (set_pc t (if len (m_list (ms_mon s)) = 1 then PcSignal else PcIdle) s))
      else None)"
| "mon_act cfg (ActSignal t) s =
     (if pc_of s t = Some PcSignal
      then Some (Some (set_pc t PcIdle (s\<lparr>ms_mon := cond_signal (ms_mon s)\<rparr>)))
      else None)"
| "mon_act cfg (ActDeliver i) s =
     map_option (\<lambda>m. Some (s\<lparr>ms_mon := m\<rparr>)) (chan_deliver cfg i (ms_mon s))"
| "mon_act cfg (ActReceive t) s =
     (if pc_of s t = Some PcIdle \<and> is_worker cfg t
      then map_option (\<lambda>(p, m). Some (set_pc t (PcRequest p) (s\<lparr>ms_mon := m\<rparr>))) (chan_receive (ms_mon s))
      else None)"
| "mon_act cfg (ActHandoff t i) s =
     (if pc_of s t = Some PcIdle \<and> is_worker cfg t
      then map_option (\<lambda>(p, m). Some (set_pc t (PcRequest p) (s\<lparr>ms_mon := m\<rparr>))) (chan_handoff i (ms_mon s))
      else None)"
| "mon_act cfg (ActReceipt t res) s =
     (case pc_of s t of
        Some (PcRequest p) \<Rightarrow>
          Some (map_option (\<lambda>r. set_pc t (case res of
                               Receipt status \<Rightarrow> PcUpdate p (receipt_status status)
                             | ReceiptNotFound \<Rightarrow> PcRetry p
                             | ReceiptError e \<Rightarrow> PcRetry p) s)
                (deref (m_heap (ms_mon s)) p))
      | _ \<Rightarrow> None)"
| "mon_act cfg (ActUpdate t err) s =
     (case pc_of s t of
        Some (PcUpdate p status) \<Rightarrow>
          Some (map_option (\<lambda>r. set_pc t (if err \<noteq> None then PcRetry p else PcDelete p)
                              (s\<lparr>ms_log := ms_log s @ [(tx_Id (l2Tx r), status, err)]\<rparr>))
                (deref (m_heap (ms_mon s)) p))
      | _ \<Rightarrow> None)"
| "mon_act cfg (ActRetry t now) s =
     (case pc_of s t of
        Some (PcRetry p) \<Rightarrow>
          Some (map_option (\<lambda>m. set_pc t (PcAdd p) (s\<lparr>ms_mon := m\<rparr>))
                (set_nextRetry p (time_add now (mc_RetryWaitInterval cfg)) (ms_mon s)))
      | _ \<Rightarrow> None)"
| "mon_act cfg (ActDelete t) s =
     (case pc_of s t of
        Some (PcDelete p) \<Rightarrow>
          Some (map_option (\<lambda>(b, l). set_pc t PcIdle (list_update_mon l s))
                (delete (m_heap (ms_mon s)) p (m_list (ms_mon s))))
      | _ \<Rightarrow> None)"
| "mon_act cfg (ActCheck now err) s = check_act cfg now err s"

subsection \<open>Disciplines\<close>

text \<open>
  \<open>AddL2Transaction\<close> takes any transaction. The theorems about the monitor assume something of
  its callers, which is said here apart from the actions: that they hand over only new
  identifiers, or only transactions of which one hash always has one identifier. After an
  orderly start the callers of the program keep to the first (theory \<open>PipelineOrder\<close>).
\<close>

datatype discipline = FreshIds | HashIds

definition callable :: "discipline \<Rightarrow> 'd msys \<Rightarrow> L2Transaction \<Rightarrow> bool" where
  "callable disc s tx \<longleftrightarrow>
     (case disc of
        FreshIds \<Rightarrow> tx_Id tx \<notin> ms_seen s
      | HashIds \<Rightarrow>
          list_all (\<lambda>p. case m_heap (ms_mon s) p of
                         None \<Rightarrow> True
                       | Some r \<Rightarrow> tx_Hash (l2Tx r) = tx_Hash tx \<longrightarrow> tx_Id (l2Tx r) = tx_Id tx)
            [0..<m_next (ms_mon s)])"

definition allowed :: "discipline \<Rightarrow> action \<Rightarrow> 'd msys \<Rightarrow> bool" where
  "allowed disc a s = (case a of ActCall t now tx \<Rightarrow> callable disc s tx | _ \<Rightarrow> True)"

definition act_under ::
  "MonitorConfig \<Rightarrow> discipline \<Rightarrow> action \<Rightarrow> 'd msys \<Rightarrow> 'd msys option option" where
  "act_under cfg disc a s = (if allowed disc a s then mon_act cfg a s else None)"

lemma act_underD: "act_under cfg disc a s = Some r \<Longrightarrow> mon_act cfg a s = Some r"
  by (simp add: act_under_def split: if_splits)

lemma act_underI: "mon_act cfg a s = Some r \<Longrightarrow> allowed disc a s \<Longrightarrow> act_under cfg disc a s = Some r"
  by (simp add: act_under_def)

lemma act_under_simps [simp]:
  "act_under cfg disc (ActCall t now tx) s = (if callable disc s tx then mon_act cfg (ActCall t now tx) s else None)"
  "act_under cfg disc (ActDial t err) s = mon_act cfg (ActDial t err) s"
  "act_under cfg disc (ActAdd t) s = mon_act cfg (ActAdd t) s"
  "act_under cfg disc (ActLen t) s = mon_act cfg (ActLen t) s"
  "act_under cfg disc (ActSignal t) s = mon_act cfg (ActSignal t) s"
  "act_under cfg disc (ActDeliver i) s = mon_act cfg (ActDeliver i) s"
  "act_under cfg disc (ActReceive t) s = mon_act cfg (ActReceive t) s"
  "act_under cfg disc (ActHandoff t i) s = mon_act cfg (ActHandoff t i) s"
  "act_under cfg disc (ActReceipt t res) s = mon_act cfg (ActReceipt t res) s"
  "act_under cfg disc (ActUpdate t err) s = mon_act cfg (ActUpdate t err) s"
  "act_under cfg disc (ActRetry t now) s = mon_act cfg (ActRetry t now) s"
  "act_under cfg disc (ActDelete t) s = mon_act cfg (ActDelete t) s"
  "act_under cfg disc (ActCheck now err) s = mon_act cfg (ActCheck now err) s"
  by (simp_all only: act_under_def allowed_def action.case if_True)

lemma panic_under: "mon_act cfg a s = Some None \<Longrightarrow> act_under cfg disc a s = Some None"
  by (cases a) (auto simp: Let_def split: if_splits prod.splits)

text \<open>Steps, reachable states and panics, under a discipline of the callers.\<close>

inductive mon_step :: "MonitorConfig \<Rightarrow> discipline \<Rightarrow> 'd msys \<Rightarrow> 'd msys \<Rightarrow> bool"
  for cfg disc where
  act: "act_under cfg disc a s = Some (Some s') \<Longrightarrow> mon_step cfg disc s s'"

definition mon_panics :: "MonitorConfig \<Rightarrow> 'd msys \<Rightarrow> bool" where
  "mon_panics cfg s \<longleftrightarrow> (\<exists>a. mon_act cfg a s = Some None)"

definition mon_init :: "MonitorConfig \<Rightarrow> nat \<Rightarrow> 'd \<Rightarrow> 'd msys" where
  "mon_init cfg callers db = \<lparr>ms_mon = NewMonitor db,
     ms_threads = replicate (unat (mc_Workers cfg)) PcStart @ replicate callers PcIdle,
     ms_check = CkLen, ms_seen = {}, ms_log = []\<rparr>"

inductive mon_reach :: "MonitorConfig \<Rightarrow> discipline \<Rightarrow> 'd msys \<Rightarrow> bool"
  for cfg disc where
  start: "mon_reach cfg disc (mon_init cfg callers db)"
| step: "mon_reach cfg disc s \<Longrightarrow> mon_step cfg disc s s' \<Longrightarrow> mon_reach cfg disc s'"

inductive_cases mon_stepE [elim!]: "mon_step cfg disc s s'"

text \<open>A run along a list of actions; \<^term>\<open>None\<close> when one is not enabled or panics.\<close>

fun mon_run ::
  "MonitorConfig \<Rightarrow> discipline \<Rightarrow> action list \<Rightarrow> 'd msys \<Rightarrow> 'd msys option" where
  "mon_run cfg disc [] s = Some s"
| "mon_run cfg disc (a # as) s =
     (case act_under cfg disc a s of Some (Some s') \<Rightarrow> mon_run cfg disc as s' | _ \<Rightarrow> None)"

lemma mon_run_reach:
  "mon_reach cfg disc s \<Longrightarrow> mon_run cfg disc as s = Some s' \<Longrightarrow> mon_reach cfg disc s'"
proof (induction "as" arbitrary: s)
  case Nil
  then show ?case by simp
next
  case (Cons a "as")
  then obtain s1 where s1: "act_under cfg disc a s = Some (Some s1)" "mon_run cfg disc as s1 = Some s'"
    by (auto split: option.splits)
  have "mon_reach cfg disc s1"
    using Cons.prems(1) mon_step.act [OF s1(1)] by (rule mon_reach.step)
  then show ?case using s1(2) by (rule Cons.IH)
qed

end
