(* ===== verification/MonitorInv.thy ===== *)
theory MonitorInv
  imports MonitorSteps
begin

section \<open>Invariants of the interleaved monitor\<close>

text \<open>
  Every request is in at most one place: the retry list, a goroutine sending it, the
  channel, or the hands of one thread. This is what makes the unsynchronised write to
  \<open>nextRetry\<close> in \<open>scheduleRequestRetry\<close> safe for the order of the list. The retry loop also
  looks at a request that is still in the list; as long as it is there, it stays the first
  of its millisecond, so that the deletion that follows succeeds.
\<close>

subsection \<open>Where the requests are\<close>

text \<open>
  \<open>held\<close> are the requests still to be monitored that are outside the list, \<open>doomed\<close> those a
  worker is about to delete after it stored their final status.
\<close>

fun pc_held :: "pc \<Rightarrow> ref multiset" where
  "pc_held (PcAdd p) = {#p#}"
| "pc_held (PcRequest p) = {#p#}"
| "pc_held (PcUpdate p s) = {#p#}"
| "pc_held (PcRetry p) = {#p#}"
| "pc_held _ = {#}"

fun pc_doomed :: "pc \<Rightarrow> ref multiset" where
  "pc_doomed (PcDelete p) = {#p#}"
| "pc_doomed _ = {#}"

fun ck_refs :: "cpc \<Rightarrow> ref multiset" where
  "ck_refs (CkEnqueue p) = {#p#}"
| "ck_refs _ = {#}"

text \<open>The request the retry loop has read from the list and not yet taken out.\<close>

fun ck_borrow :: "cpc \<Rightarrow> ref option" where
  "ck_borrow (CkDecide t p) = Some p"
| "ck_borrow (CkExpire p) = Some p"
| "ck_borrow (CkDelExpired p) = Some p"
| "ck_borrow (CkDelRetry p) = Some p"
| "ck_borrow _ = None"

definition held :: "'d msys \<Rightarrow> ref multiset" where
  "held s = mset (m_sending (ms_mon s)) + mset (m_chan (ms_mon s))
     + (\<Sum>c\<leftarrow>ms_threads s. pc_held c) + ck_refs (ms_check s)"

definition doomed :: "'d msys \<Rightarrow> ref multiset" where
  "doomed s = (\<Sum>c\<leftarrow>ms_threads s. pc_doomed c)"

definition owned :: "'d msys \<Rightarrow> ref multiset" where
  "owned s = held s + doomed s"

abbreviation sys_heap :: "'d msys \<Rightarrow> heap" where
  "sys_heap s \<equiv> m_heap (ms_mon s)"

abbreviation sys_list :: "'d msys \<Rightarrow> monitorRequestList" where
  "sys_list s \<equiv> m_list (ms_mon s)"

abbreviation sys_sorted :: "'d msys \<Rightarrow> ref list" where
  "sys_sorted s \<equiv> rl_sorted (m_list (ms_mon s))"

text \<open>A thread moves from \<open>a\<close> to \<open>b\<close>: what it gives away and what it gets.\<close>

lemma threads_update:
  assumes "pc_of s t = Some a"
  shows "(\<Sum>c\<leftarrow>(ms_threads s)[t := b]. f c) + f a = (\<Sum>c\<leftarrow>ms_threads s. f c) + (f b :: ref multiset)"
proof -
  have "t < length (ms_threads s)" "ms_threads s ! t = a"
    using assms by (auto simp: pc_of_def index_at_def split: if_splits)
  then show ?thesis using sum_mset_list_update [of t "ms_threads s" f b] by simp
qed

lemma threads_keep:
  "pc_of s t = Some a \<Longrightarrow> f a = f b \<Longrightarrow>
   (\<Sum>c\<leftarrow>(ms_threads s)[t := b]. f c) = (\<Sum>c\<leftarrow>ms_threads s. (f c :: ref multiset))"
  using threads_update [of s t a f b] by simp

lemma threads_gain:
  "pc_of s t = Some a \<Longrightarrow> f a = {#} \<Longrightarrow>
   (\<Sum>c\<leftarrow>(ms_threads s)[t := b]. f c) = (\<Sum>c\<leftarrow>ms_threads s. f c) + (f b :: ref multiset)"
  using threads_update [of s t a f b] by simp

lemma threads_lose:
  "pc_of s t = Some a \<Longrightarrow> f b = {#} \<Longrightarrow>
   (\<Sum>c\<leftarrow>ms_threads s. f c) = (\<Sum>c\<leftarrow>(ms_threads s)[t := b]. f c) + (f a :: ref multiset)"
  using threads_update [of s t a f b] by simp

lemma threads_member:
  assumes "pc_of s t = Some a" "p \<in># f a"
  shows "p \<in># (\<Sum>c\<leftarrow>ms_threads s. (f c :: ref multiset))"
proof -
  have "a \<in> set (ms_threads s)"
    using assms(1) by (auto simp: pc_of_def index_at_def split: if_splits)
  moreover have "c \<in> set cs \<Longrightarrow> p \<in># f c \<Longrightarrow> p \<in># (\<Sum>c\<leftarrow>cs. f c)" for c cs
    by (induction cs) auto
  ultimately show ?thesis using assms(2) by blast
qed

lemma mset_take_drop:
  "i < length xs \<Longrightarrow> mset xs = add_mset (xs ! i) (mset (take i xs @ drop (Suc i) xs))"
  by (metis id_take_nth_drop mset_append mset.simps(2) union_mset_add_mset_right)

subsection \<open>The effect of an action\<close>

text \<open>
  All actions other than those of the retry loop, grouped by what they do to the places of
  the requests.
\<close>

lemma mon_act_cases:
  assumes act: "act_under cfg disc a s = Some (Some s')"
  obtains
    (call) r where "callable disc s (l2Tx (r :: monitorRequest))"
      "sys_heap s' = (sys_heap s)(m_next (ms_mon s) \<mapsto> r)"
      "m_next (ms_mon s') = m_next (ms_mon s) + 1" "sys_list s' = sys_list s"
      "ms_seen s' = insert (tx_Id (l2Tx r)) (ms_seen s)" "ms_log s' = ms_log s"
      "ms_check s' = ms_check s" "held s' = add_mset (m_next (ms_mon s)) (held s)"
      "doomed s' = doomed s"
  | (shuffle) "sys_heap s' = sys_heap s" "m_next (ms_mon s') = m_next (ms_mon s)"
      "sys_list s' = sys_list s" "ms_seen s' = ms_seen s" "ms_log s' = ms_log s"
      "ms_check s' = ms_check s" "held s' = held s" "doomed s' = doomed s"
  | (add) p b l where "add (sys_heap s) p (sys_list s) = Some (b, l)"
      "sys_heap s' = sys_heap s" "m_next (ms_mon s') = m_next (ms_mon s)"
      "sys_list s' = l" "ms_seen s' = ms_seen s" "ms_log s' = ms_log s"
      "ms_check s' = ms_check s" "held s = add_mset p (held s')" "doomed s' = doomed s"
  | (failed_update) p r st t e where "deref (sys_heap s) p = Some r"
      "pc_of s t = Some (PcUpdate p st)"
      "sys_heap s' = sys_heap s" "m_next (ms_mon s') = m_next (ms_mon s)"
      "sys_list s' = sys_list s" "ms_seen s' = ms_seen s"
      "ms_log s' = ms_log s @ [(tx_Id (l2Tx r), st, Some e)]"
      "ms_check s' = ms_check s" "held s' = held s" "doomed s' = doomed s"
  | (stored_update) p r st t where "deref (sys_heap s) p = Some r"
      "pc_of s t = Some (PcUpdate p st)"
      "sys_heap s' = sys_heap s" "m_next (ms_mon s') = m_next (ms_mon s)"
      "sys_list s' = sys_list s" "ms_seen s' = ms_seen s"
      "ms_log s' = ms_log s @ [(tx_Id (l2Tx r), st, None)]"
      "ms_check s' = ms_check s" "held s = add_mset p (held s')" "doomed s' = add_mset p (doomed s)"
  | (retry) p r t where "deref (sys_heap s) p = Some r" "p \<in># held s"
      "sys_heap s' = (sys_heap s)(p \<mapsto> r\<lparr>nextRetry := t\<rparr>)" "m_next (ms_mon s') = m_next (ms_mon s)"
      "sys_list s' = sys_list s" "ms_seen s' = ms_seen s" "ms_log s' = ms_log s"
      "ms_check s' = ms_check s" "held s' = held s" "doomed s' = doomed s"
  | (delete) p b l where "delete (sys_heap s) p (sys_list s) = Some (b, l)"
      "sys_heap s' = sys_heap s" "m_next (ms_mon s') = m_next (ms_mon s)"
      "sys_list s' = l" "ms_seen s' = ms_seen s" "ms_log s' = ms_log s"
      "ms_check s' = ms_check s" "held s' = held s" "doomed s = add_mset p (doomed s')"
  | (check) now err where "check_act cfg now err s = Some (Some s')"
proof (cases a)
  case (ActDial t err)
  then show ?thesis using act
      threads_keep [of s t PcStart pc_held] threads_keep [of s t PcStart pc_doomed]
    by (intro shuffle) (auto simp: set_pc_def held_def doomed_def split: if_splits)
next
  case (ActCall t now tx)
  then show ?thesis using act
    by (auto simp: new_request_def enqueueMonitorRequest_def set_pc_def held_def doomed_def Let_def
        threads_gain [of s t PcIdle pc_held] threads_keep [of s t PcIdle pc_doomed]
        split: if_splits intro!: call)
next
  case (ActAdd t)
  then obtain p b l where "pc_of s t = Some (PcAdd p)" "add (sys_heap s) p (sys_list s) = Some (b, l)"
      "s' = set_pc t PcLen (list_update_mon l s)"
    using act by (auto split: option.splits pc.splits)
  then show ?thesis
    using threads_lose [of s t "PcAdd p" pc_held PcLen] threads_keep [of s t "PcAdd p" pc_doomed PcLen]
    by (intro add [of p b l]) (auto simp: set_pc_def list_update_mon_def held_def doomed_def)
next
  case (ActLen t)
  then show ?thesis using act
      threads_keep [of s t PcLen pc_held] threads_keep [of s t PcLen pc_doomed]
    by (intro shuffle) (auto simp: set_pc_def held_def doomed_def split: if_splits)
next
  case (ActSignal t)
  then show ?thesis using act
      threads_keep [of s t PcSignal pc_held] threads_keep [of s t PcSignal pc_doomed]
    by (intro shuffle) (auto simp: set_pc_def cond_signal_def held_def doomed_def split: if_splits)
next
  case (ActDeliver i)
  then show ?thesis using act mset_take_drop [of i "m_sending (ms_mon s)"]
    by (intro shuffle) (auto simp: chan_deliver_def held_def doomed_def split: if_splits)
next
  case (ActReceive t)
  then show ?thesis using act
      threads_gain [of s t PcIdle pc_held] threads_keep [of s t PcIdle pc_doomed]
    by (intro shuffle)
      (auto simp: chan_receive_def set_pc_def held_def doomed_def split: if_splits list.splits)
next
  case (ActHandoff t i)
  then show ?thesis using act mset_take_drop [of i "m_sending (ms_mon s)"]
      threads_gain [of s t PcIdle pc_held] threads_keep [of s t PcIdle pc_doomed]
    by (intro shuffle)
      (auto simp: chan_handoff_def set_pc_def held_def doomed_def split: if_splits)
next
  case (ActReceipt t res)
  then obtain p where p: "pc_of s t = Some (PcRequest p)"
    using act by (auto split: option.splits pc.splits)
  define c where "c = (case res of Receipt status \<Rightarrow> PcUpdate p (receipt_status status)
      | ReceiptNotFound \<Rightarrow> PcRetry p | ReceiptError e \<Rightarrow> PcRetry p)"
  have "pc_held c = {#p#}" "pc_doomed c = {#}"
    by (simp_all add: c_def split: receipt_result.split)
  moreover have "s' = set_pc t c s"
    using act ActReceipt p by (auto simp: c_def)
  ultimately show ?thesis
    using p threads_keep [of s t "PcRequest p" pc_held c] threads_keep [of s t "PcRequest p" pc_doomed c]
    by (intro shuffle) (auto simp: set_pc_def held_def doomed_def)
next
  case (ActUpdate t err)
  then obtain p st r where u: "pc_of s t = Some (PcUpdate p st)" "deref (sys_heap s) p = Some r"
      "s' = set_pc t (if err \<noteq> None then PcRetry p else PcDelete p)
              (s\<lparr>ms_log := ms_log s @ [(tx_Id (l2Tx r), st, err)]\<rparr>)"
    using act by (auto split: option.splits pc.splits)
  show ?thesis
  proof (cases err)
    case None
    then show ?thesis
      using u threads_lose [of s t "PcUpdate p st" pc_held "PcDelete p"]
        threads_gain [of s t "PcUpdate p st" pc_doomed "PcDelete p"]
      by (intro stored_update [of p r t st]) (auto simp: set_pc_def held_def doomed_def)
  next
    case (Some e)
    then show ?thesis
      using u threads_keep [of s t "PcUpdate p st" pc_held "PcRetry p"]
        threads_keep [of s t "PcUpdate p st" pc_doomed "PcRetry p"]
      by (intro failed_update [of p r t st e]) (auto simp: set_pc_def held_def doomed_def)
  qed
next
  case (ActRetry t now)
  then obtain p r where "pc_of s t = Some (PcRetry p)" "deref (sys_heap s) p = Some r"
      "s' = set_pc t (PcAdd p) (s\<lparr>ms_mon := (ms_mon s)\<lparr>m_heap := (sys_heap s)(p \<mapsto>
              r\<lparr>nextRetry := time_add now (mc_RetryWaitInterval cfg)\<rparr>)\<rparr>\<rparr>)"
    using act by (auto simp: set_nextRetry_def split: option.splits pc.splits bind_splits)
  then show ?thesis
    using threads_keep [of s t "PcRetry p" pc_held "PcAdd p"]
      threads_keep [of s t "PcRetry p" pc_doomed "PcAdd p"]
      threads_member [of s t "PcRetry p" p pc_held]
    by (intro retry [of p r]) (auto simp: set_pc_def held_def doomed_def)
next
  case (ActDelete t)
  then obtain p b l where "pc_of s t = Some (PcDelete p)" "delete (sys_heap s) p (sys_list s) = Some (b, l)"
      "s' = set_pc t PcIdle (list_update_mon l s)"
    using act by (auto split: option.splits pc.splits)
  then show ?thesis
    using threads_lose [of s t "PcDelete p" pc_doomed PcIdle] threads_keep [of s t "PcDelete p" pc_held PcIdle]
    by (intro delete [of p b l]) (auto simp: set_pc_def list_update_mon_def held_def doomed_def)
next
  case (ActCheck now err)
  then show ?thesis using act check by simp
qed

text \<open>The same for the retry loop.\<close>

lemma check_act_cases:
  assumes act: "check_act cfg now err s = Some (Some s')"
  obtains
    (quiet) "sys_heap s' = sys_heap s" "m_next (ms_mon s') = m_next (ms_mon s)"
      "sys_list s' = sys_list s" "ms_seen s' = ms_seen s" "ms_log s' = ms_log s"
      "held s' = held s" "doomed s' = doomed s"
      "ck_borrow (ms_check s') = None \<or> ck_borrow (ms_check s') = ck_borrow (ms_check s)"
      "\<And>p. ms_check s \<noteq> CkDelExpired p"
      "\<And>p. ms_check s' \<noteq> CkDelExpired p" "\<And>t. ms_check s' = CkFirst t \<Longrightarrow> sys_sorted s \<noteq> []"
  | (first) t p where "ms_check s = CkFirst t" "getByIndex 0 (sys_list s) = Some p"
      "s' = s\<lparr>ms_check := CkDecide t p\<rparr>" "held s' = held s" "doomed s' = doomed s"
  | (expire) p r where "ms_check s = CkExpire p" "deref (sys_heap s) p = Some r"
      "s' = s\<lparr>ms_check := CkDelExpired p, ms_log := ms_log s @ [(tx_Id (l2Tx r), TxStatusExpired, err)]\<rparr>"
      "held s' = held s" "doomed s' = doomed s"
  | (del_expired) p b l where "ms_check s = CkDelExpired p"
      "delete (sys_heap s) p (sys_list s) = Some (b, l)"
      "s' = list_update_mon l (s\<lparr>ms_check := CkLen\<rparr>)" "held s' = held s" "doomed s' = doomed s"
  | (del_retry) p b l where "ms_check s = CkDelRetry p"
      "delete (sys_heap s) p (sys_list s) = Some (b, l)"
      "s' = list_update_mon l (s\<lparr>ms_check := CkEnqueue p\<rparr>)"
      "held s' = add_mset p (held s)" "doomed s' = doomed s"
proof (cases "ms_check s")
  case (CkFirst t)
  then show ?thesis using act
    by (auto simp: check_act_def held_def doomed_def intro!: first [of t])
next
  case (CkExpire p)
  then show ?thesis using act
    by (auto simp: check_act_def held_def doomed_def intro!: expire [of p])
next
  case (CkDelExpired p)
  then obtain b l where "delete (sys_heap s) p (sys_list s) = Some (b, l)"
      "s' = list_update_mon l (s\<lparr>ms_check := CkLen\<rparr>)"
    using act by (auto simp: check_act_def Let_def)
  with CkDelExpired show ?thesis
    by (intro del_expired [of p b l]) (auto simp: list_update_mon_def held_def doomed_def)
next
  case (CkDelRetry p)
  then obtain b l where "delete (sys_heap s) p (sys_list s) = Some (b, l)"
      "s' = list_update_mon l (s\<lparr>ms_check := CkEnqueue p\<rparr>)"
    using act by (auto simp: check_act_def Let_def)
  with CkDelRetry show ?thesis
    by (intro del_retry [of p b l]) (auto simp: list_update_mon_def held_def doomed_def)
next
  case CkLen
  then have "s' = s\<lparr>ms_check := (if len (sys_list s) > 0 then CkFirst now else CkWait)\<rparr>"
    using act by (simp add: check_act_def Let_def)
  then show ?thesis using CkLen
    by (intro quiet) (auto simp: held_def doomed_def len_def split: if_splits)
next
  case (CkDecide t p)
  then obtain c where "s' = s\<lparr>ms_check := c\<rparr>" "c \<in> {CkExpire p, CkDelRetry p, CkSleep}"
    using act by (fastforce simp: check_act_def Let_def split: if_splits)
  then show ?thesis using CkDecide
    by (intro quiet) (auto simp: held_def doomed_def)
next
  case (CkEnqueue p)
  then have "s' = s\<lparr>ms_check := CkLen, ms_mon := enqueueMonitorRequest p (ms_mon s)\<rparr>"
    using act by (simp add: check_act_def Let_def)
  then show ?thesis using CkEnqueue
    by (intro quiet) (auto simp: held_def doomed_def enqueueMonitorRequest_def)
next
  case CkSleep
  then have "s' = s\<lparr>ms_check := CkLen\<rparr>" using act by (simp add: check_act_def Let_def)
  then show ?thesis using CkSleep by (intro quiet) (auto simp: held_def doomed_def)
next
  case CkWait
  then have "s' = s\<lparr>ms_check := CkWaiting, ms_mon := (ms_mon s)\<lparr>m_waiting := True\<rparr>\<rparr>"
    using act by (simp add: check_act_def Let_def)
  then show ?thesis using CkWait by (intro quiet) (auto simp: held_def doomed_def)
next
  case CkWaiting
  then have "s' = s\<lparr>ms_check := CkLen\<rparr>"
    using act by (simp add: check_act_def Let_def split: if_splits)
  then show ?thesis using CkWaiting by (intro quiet) (auto simp: held_def doomed_def)
qed

subsection \<open>The invariant\<close>

definition nodup :: "'a multiset \<Rightarrow> bool" where
  "nodup M \<longleftrightarrow> (\<forall>x. count M x \<le> 1)"

lemma nodup_empty [simp]: "nodup {#}"
  by (simp add: nodup_def)

lemma nodup_add [simp]: "nodup (add_mset p M) \<longleftrightarrow> p \<notin># M \<and> nodup M"
proof
  assume h: "nodup (add_mset p M)"
  then have "count (add_mset p M) p \<le> 1" unfolding nodup_def by blast
  then have "p \<notin># M" by (simp add: count_eq_zero_iff)
  moreover have "count M x \<le> 1" for x
    using h le_trans [of "count M x" "count (add_mset p M) x" 1] unfolding nodup_def by simp
  ultimately show "p \<notin># M \<and> nodup M" by (simp add: nodup_def)
next
  assume h: "p \<notin># M \<and> nodup M"
  then have "count M p = 0" by (simp add: count_eq_zero_iff)
  with h show "nodup (add_mset p M)" by (simp add: nodup_def)
qed

text \<open>
  The two disciplines each rule out that \<open>delete\<close> takes one request for another: the first
  because a request outside the list has its own identifier, the second because a hash
  determines the identifier.
\<close>

definition inv_ids :: "discipline \<Rightarrow> 'd msys \<Rightarrow> bool" where
  "inv_ids disc s \<longleftrightarrow>
     ms_seen s = req_id (sys_heap s) ` dom (sys_heap s) \<and>
     (case disc of
        FreshIds \<Rightarrow> inj_on (req_id (sys_heap s)) (dom (sys_heap s))
      | HashIds \<Rightarrow> \<forall>p\<in>dom (sys_heap s). \<forall>q\<in>dom (sys_heap s).
          req_hash (sys_heap s) p = req_hash (sys_heap s) q \<longrightarrow>
          req_id (sys_heap s) p = req_id (sys_heap s) q)"

definition inv_heap :: "'d msys \<Rightarrow> bool" where
  "inv_heap s \<longleftrightarrow> sys_heap s nil = None \<and> nil < m_next (ms_mon s)
     \<and> (\<forall>p\<ge>m_next (ms_mon s). sys_heap s p = None)"

definition inv_refs :: "'d msys \<Rightarrow> bool" where
  "inv_refs s \<longleftrightarrow>
     rl_inv (sys_heap s) (sys_list s) \<and>
     (\<forall>p\<in>#owned s. sys_heap s p \<noteq> None \<and> p \<notin> set (sys_sorted s)) \<and>
     nodup (owned s)"

definition borrow_ok :: "'d msys \<Rightarrow> ref \<Rightarrow> bool" where
  "borrow_ok s p \<longleftrightarrow> sys_heap s p \<noteq> None \<and> p \<notin># owned s
     \<and> (p \<in> set (sys_sorted s) \<longrightarrow> first_of_ms (sys_heap s) p (sys_list s))"

definition inv_check :: "'d msys \<Rightarrow> bool" where
  "inv_check s \<longleftrightarrow> (\<forall>p. ck_borrow (ms_check s) = Some p \<longrightarrow> borrow_ok s p)"

lemma inv_heap_live: "inv_heap s \<Longrightarrow> sys_heap s p = Some r \<Longrightarrow> deref (sys_heap s) p = Some r"
  by (auto simp: inv_heap_def deref_def)

lemma inv_heap_nonnil: "inv_heap s \<Longrightarrow> sys_heap s p = Some r \<Longrightarrow> p \<noteq> nil"
  by (auto simp: inv_heap_def)

lemma deref_heap: "deref h p = Some r \<Longrightarrow> h p = Some r"
  by (auto simp: deref_def split: if_splits)

text \<open>The heap changes only outside the list: the list's facts do not see it.\<close>

lemma req_cong:
  "h' p = h p \<Longrightarrow> req_id h' p = req_id h p"
  "h' p = h p \<Longrightarrow> req_hash h' p = req_hash h p"
  "h' p = h p \<Longrightarrow> req_time h' p = req_time h p"
  "h' p = h p \<Longrightarrow> req_key h' p = req_key h p"
  by (simp_all add: req_id_def req_hash_def req_time_def req_key_def)

lemma rl_inv_cong:
  assumes "\<And>p. p \<in> set (rl_sorted e) \<Longrightarrow> h' p = h p" "rl_inv h e"
  shows "rl_inv h' e"
proof -
  have keys: "map (req_key h') (rl_sorted e) = map (req_key h) (rl_sorted e)"
    by (simp add: req_key_def req_time_def assms(1))
  have "p \<in> set (rl_sorted e) \<and> req_id h' p = i \<longleftrightarrow> p \<in> set (rl_sorted e) \<and> req_id h p = i" for p i
    by (auto simp: req_id_def assms(1))
  then show ?thesis using assms unfolding rl_inv_def keys by simp
qed

lemma first_of_ms_cong:
  assumes "\<And>p. p \<in> set (rl_sorted e) \<Longrightarrow> h' p = h p" "h' q = h q" "first_of_ms h q e"
  shows "first_of_ms h' q e"
  using assms unfolding first_of_ms_def
  by (metis (no_types, lifting) req_cong(4) set_takeWhileD)

text \<open>Being the first of its millisecond survives insertions and deletions.\<close>

lemma first_of_ms_split:
  assumes "distinct (rl_sorted e)" "rl_sorted e = us @ q # vs"
  shows "first_of_ms h q e \<longleftrightarrow> (\<forall>p\<in>set us. req_key h p < req_key h q)"
proof -
  have "q \<notin> set us" using assms by auto
  then show ?thesis unfolding first_of_ms_def assms(2) takeWhile_neq [OF \<open>q \<notin> set us\<close>] by simp
qed

lemma insert_sorted_behind:
  "\<forall>p\<in>set (us @ [b]). req_key h p \<le> req_key h x \<Longrightarrow>
   insert_sorted h x (us @ b # vs) = us @ b # insert_sorted h x vs"
  by (simp add: insert_sorted_def)

lemma insert_sorted_before:
  "\<not> req_key h b \<le> req_key h x \<Longrightarrow>
   insert_sorted h x (us @ b # vs) = insert_sorted h x us @ b # vs"
  by (induction us) (auto simp: insert_sorted_def)

lemma first_of_ms_insert:
  assumes d: "distinct (rl_sorted e)" and b: "b \<in> set (rl_sorted e)"
    and x: "x \<notin> set (rl_sorted e)" and first: "first_of_ms h b e"
  shows "first_of_ms h b \<lparr>rl_list = l, rl_sorted = insert_sorted h x (rl_sorted e)\<rparr>"
    (is "first_of_ms h b ?e")
proof -
  obtain us vs where xs: "rl_sorted e = us @ b # vs" using b split_list by fast
  have us: "\<forall>p\<in>set us. req_key h p < req_key h b" using first first_of_ms_split [OF d xs] by simp
  have d': "distinct (rl_sorted ?e)" using d x by simp
  show ?thesis
  proof (cases "req_key h b \<le> req_key h x")
    case True
    then have "rl_sorted ?e = us @ b # insert_sorted h x vs"
      using us xs insert_sorted_behind [of us b h x vs] by force
    from first_of_ms_split [OF d' this] us show ?thesis by simp
  next
    case False
    then have "rl_sorted ?e = insert_sorted h x us @ b # vs"
      using xs insert_sorted_before [of h b x us vs] by simp
    from first_of_ms_split [OF d' this] us False show ?thesis by simp
  qed
qed

lemma takeWhile_remove1:
  "b \<noteq> q \<Longrightarrow> set (takeWhile (\<lambda>p. p \<noteq> b) (remove1 q xs)) \<subseteq> set (takeWhile (\<lambda>p. p \<noteq> b) xs)"
  by (induction xs) (auto dest: set_takeWhileD)

lemma first_of_ms_remove:
  assumes "distinct (rl_sorted e)" "b \<in> set (rl_sorted (remove_req h q e))" "first_of_ms h b e"
  shows "first_of_ms h b (remove_req h q e)"
proof -
  have "b \<noteq> q" using assms(1,2) by (auto simp: remove_req_def)
  from takeWhile_remove1 [OF this] assms(3) show ?thesis
    unfolding first_of_ms_def remove_req_def by auto
qed

text \<open>A deletion removes at most the one request with that identifier.\<close>

lemma delete_cases_inv:
  assumes heap: "inv_heap s" and ids: "inv_ids disc s"
    and inv: "rl_inv (sys_heap s) (sys_list s)"
    and p: "sys_heap s p = Some r"
    and first: "p \<in> set (sys_sorted s) \<Longrightarrow> first_of_ms (sys_heap s) p (sys_list s)"
  obtains (unchanged) b where "delete (sys_heap s) p (sys_list s) = Some (b, sys_list s)"
      "p \<notin> set (sys_sorted s)"
  | (removed) q where "q \<in> set (sys_sorted s)" "req_id (sys_heap s) q = req_id (sys_heap s) p"
      "delete (sys_heap s) p (sys_list s) = Some (True, remove_req (sys_heap s) q (sys_list s))"
proof -
  note dp = inv_heap_live [OF heap p]
  have id: "req_id (sys_heap s) p = tx_Id (l2Tx r)" using p by (simp add: req_id_def)
  consider (listed) "p \<in> set (sys_sorted s)" | (none) "p \<notin> set (sys_sorted s)" "rl_list (sys_list s) (tx_Id (l2Tx r)) = None"
    | (other) q where "p \<notin> set (sys_sorted s)" "rl_list (sys_list s) (tx_Id (l2Tx r)) = Some q"
    by blast
  then show ?thesis
  proof cases
    case listed
    from delete_first_of_ms [OF inv listed first [OF listed] dp] id show ?thesis
      by (intro removed [OF listed]) auto
  next
    case none
    with delete_unknown [OF dp] show ?thesis by (intro unchanged) auto
  next
    case (other q)
    then have q: "q \<in> set (sys_sorted s)" "req_id (sys_heap s) q = tx_Id (l2Tx r)"
      using rl_inv_lookup [OF inv] by auto
    have live: "x \<in> dom (sys_heap s)" if "x \<in> set (sys_sorted s)" for x
      using inv that by (auto simp: rl_inv_def)
    show ?thesis
    proof (cases disc)
      case FreshIds
      then have "inj_on (req_id (sys_heap s)) (dom (sys_heap s))"
        using ids by (simp add: inv_ids_def)
      then have "p = q" using q live id p by (metis domI inj_onD)
      then show ?thesis using other q by simp
    next
      case HashIds
      then have "hash_clear (sys_heap s) (sys_sorted s)"
        using ids live rl_inv_id_inj [OF inv] unfolding hash_clear_def inv_ids_def by simp
      from inv this dp show ?thesis
        by (rule delete_cases) (use other id removed unchanged in auto)
    qed
  qed
qed

subsection \<open>Preservation\<close>

definition mon_inv :: "discipline \<Rightarrow> 'd msys \<Rightarrow> bool" where
  "mon_inv disc s \<longleftrightarrow> inv_heap s \<and> inv_refs s \<and> inv_check s \<and> inv_ids disc s"

lemma sum_list_idle [simp]: "(\<Sum>c\<leftarrow>replicate n PcIdle. pc_held c) = {#}"
    "(\<Sum>c\<leftarrow>replicate n PcIdle. pc_doomed c) = {#}"
    "(\<Sum>c\<leftarrow>replicate n PcStart. pc_held c) = {#}" "(\<Sum>c\<leftarrow>replicate n PcStart. pc_doomed c) = {#}"
  by (induction n) auto

lemma init_owned: "owned (mon_init cfg callers db) = {#}"
  by (simp add: owned_def held_def doomed_def mon_init_def NewMonitor_def del: map_replicate)

lemma mon_inv_init: "mon_inv disc (mon_init cfg callers db)"
  unfolding mon_inv_def inv_refs_def init_owned
  by (cases disc)
    (auto simp: inv_heap_def inv_check_def inv_ids_def mon_init_def NewMonitor_def rl_inv_new nil_def)

lemma owned_sub:
  "p \<in># held s \<Longrightarrow> p \<in># owned s" "p \<in># doomed s \<Longrightarrow> p \<in># owned s"
  by (simp_all add: owned_def)

lemma inv_refs_list: "inv_refs s \<Longrightarrow> rl_inv (sys_heap s) (sys_list s)"
  by (simp add: inv_refs_def)

lemma inv_refs_distinct: "inv_refs s \<Longrightarrow> distinct (sys_sorted s)"
  by (simp add: inv_refs_def rl_inv_def)

lemma fresh_ref:
  assumes "inv_heap s" "inv_refs s"
  shows "sys_heap s (m_next (ms_mon s)) = None" "m_next (ms_mon s) \<notin># owned s"
    "m_next (ms_mon s) \<notin> set (sys_sorted s)"
proof -
  show none: "sys_heap s (m_next (ms_mon s)) = None" using assms(1) by (simp add: inv_heap_def)
  then show "m_next (ms_mon s) \<notin># owned s" using assms(2) by (auto simp: inv_refs_def)
  show "m_next (ms_mon s) \<notin> set (sys_sorted s)"
    using none assms(2) by (auto simp: inv_refs_def rl_inv_def)
qed

text \<open>The effect of an insertion by a thread that holds the request.\<close>

lemma add_cases_inv:
  assumes heap: "inv_heap s" and refs: "inv_refs s" and p: "p \<in># owned s"
    and add: "add (sys_heap s) p (sys_list s) = Some (b, l)"
  obtains (known) q where "l = sys_list s" "q \<in> set (sys_sorted s)"
      "req_id (sys_heap s) q = req_id (sys_heap s) p"
  | (new) f where "l = \<lparr>rl_list = f, rl_sorted = insert_sorted (sys_heap s) p (sys_sorted s)\<rparr>"
      "rl_inv (sys_heap s) l"
proof -
  obtain r where r: "sys_heap s p = Some r" using refs p by (auto simp: inv_refs_def)
  have nn: "p \<noteq> nil" using inv_heap_nonnil [OF heap r] .
  have inv: "rl_inv (sys_heap s) (sys_list s)" using refs by (rule inv_refs_list)
  have id: "req_id (sys_heap s) p = tx_Id (l2Tx r)" using r by (simp add: req_id_def)
  show ?thesis
  proof (cases "rl_list (sys_list s) (tx_Id (l2Tx r))")
    case None
    from add_new [OF inv nn r None] rl_inv_insert [OF inv nn r None] add show ?thesis
      by (intro new) auto
  next
    case (Some q)
    then have "q \<in> set (sys_sorted s)" "req_id (sys_heap s) q = tx_Id (l2Tx r)"
      using rl_inv_lookup [OF inv] by auto
    moreover have "l = sys_list s"
      using add_known [of p "sys_heap s" r, OF nn r Some] add by simp
    ultimately show ?thesis using id by (intro known) auto
  qed
qed

text \<open>The effect of a deletion: the list is unchanged or loses one request.\<close>

lemma delete_shrinks:
  assumes "inv_heap s" "inv_ids disc s" "inv_refs s" "sys_heap s p \<noteq> None"
    and "p \<in> set (sys_sorted s) \<Longrightarrow> first_of_ms (sys_heap s) p (sys_list s)"
    and "delete (sys_heap s) p (sys_list s) = Some (b, l)"
  shows "rl_inv (sys_heap s) l \<and> set (rl_sorted l) \<subseteq> set (sys_sorted s) - {p}
    \<and> (\<forall>q\<in>set (sys_sorted s) - set (rl_sorted l). req_id (sys_heap s) q = req_id (sys_heap s) p)
    \<and> (\<forall>b\<in>set (rl_sorted l). first_of_ms (sys_heap s) b (sys_list s) \<longrightarrow> first_of_ms (sys_heap s) b l)"
proof -
  obtain r where r: "sys_heap s p = Some r" using assms(4) by auto
  have inv: "rl_inv (sys_heap s) (sys_list s)" using assms(3) by (rule inv_refs_list)
  from assms(1,2) inv r assms(5) show ?thesis
  proof (rule delete_cases_inv)
    fix b' assume "delete (sys_heap s) p (sys_list s) = Some (b', sys_list s)" "p \<notin> set (sys_sorted s)"
    then show ?thesis using assms(6) inv by auto
  next
    fix q
    assume q: "q \<in> set (sys_sorted s)" "req_id (sys_heap s) q = req_id (sys_heap s) p"
      and del: "delete (sys_heap s) p (sys_list s) = Some (True, remove_req (sys_heap s) q (sys_list s))"
    have l: "l = remove_req (sys_heap s) q (sys_list s)" using del assms(6) by simp
    have d: "distinct (sys_sorted s)" using assms(3) by (rule inv_refs_distinct)
    have sub: "set (rl_sorted l) = set (sys_sorted s) - {q}"
      unfolding l remove_req_def using d by simp
    have "p \<in> set (sys_sorted s) \<Longrightarrow> p = q" using rl_inv_id_inj [OF inv] q by metis
    then show ?thesis
      using rl_inv_remove_req [OF inv q(1)] q(2) first_of_ms_remove [OF d] sub unfolding l by auto
  qed
qed

lemma inv_heap_act:
  assumes heap: "inv_heap s" and act: "act_under cfg disc a s = Some (Some s')"
  shows "inv_heap s'"
  using act
proof (cases rule: mon_act_cases)
  case (check now err)
  then show ?thesis
    by (cases rule: check_act_cases) (use heap in \<open>auto simp: inv_heap_def list_update_mon_def\<close>)
next
  case (retry p r t)
  have "p \<noteq> nil" using retry(1) by (auto simp: deref_def split: if_splits)
  moreover have "p < m_next (ms_mon s)"
    using heap deref_heap [OF retry(1)] unfolding inv_heap_def by (metis not_less option.distinct(1))
  ultimately show ?thesis using heap retry by (auto simp: inv_heap_def)
qed (use heap in \<open>auto simp: inv_heap_def nil_def\<close>)

lemma req_id_retry:
  "h p = Some r \<Longrightarrow> req_id (h(p \<mapsto> r\<lparr>nextRetry := t\<rparr>)) = req_id h"
  "h p = Some r \<Longrightarrow> req_hash (h(p \<mapsto> r\<lparr>nextRetry := t\<rparr>)) = req_hash h"
  by (auto simp: req_id_def req_hash_def fun_eq_iff)

lemma inv_ids_same:
  assumes "req_id (sys_heap s') = req_id (sys_heap s)" "req_hash (sys_heap s') = req_hash (sys_heap s)"
    "dom (sys_heap s') = dom (sys_heap s)" "ms_seen s' = ms_seen s"
  shows "inv_ids disc s' = inv_ids disc s"
  unfolding inv_ids_def assms ..

lemma inv_ids_heap:
  "sys_heap s' = sys_heap s \<Longrightarrow> ms_seen s' = ms_seen s \<Longrightarrow> inv_ids disc s' = inv_ids disc s"
  by (rule inv_ids_same) simp_all

lemma dom_fun_upd': "dom (h(n \<mapsto> r)) = insert n (dom h)"
  by simp

lemma inv_ids_act:
  assumes heap: "inv_heap s" and ids: "inv_ids disc s"
    and act: "act_under cfg disc a s = Some (Some s')"
  shows "inv_ids disc s'"
  using act
proof (cases rule: mon_act_cases)
  case (call r)
  let ?n = "m_next (ms_mon s)" and ?h = "sys_heap s"
  have none: "?h ?n = None" using heap by (simp add: inv_heap_def)
  have old: "req_id (?h(?n \<mapsto> r)) p = req_id ?h p" "req_hash (?h(?n \<mapsto> r)) p = req_hash ?h p"
    if "p \<in> dom ?h" for p
    using that none by (auto simp: req_id_def req_hash_def)
  have new: "req_id (?h(?n \<mapsto> r)) ?n = tx_Id (l2Tx r)" "req_hash (?h(?n \<mapsto> r)) ?n = tx_Hash (l2Tx r)"
    by (simp_all add: req_id_def req_hash_def)
  have seen: "ms_seen s' = req_id (sys_heap s') ` dom (sys_heap s')"
    using call ids old(1) new(1) by (auto simp: inv_ids_def image_iff)
  show ?thesis
  proof (cases disc)
    case FreshIds
    then have "inj_on (req_id ?h) (dom ?h)" "tx_Id (l2Tx r) \<notin> req_id ?h ` dom ?h"
      using ids call by (auto simp: inv_ids_def callable_def)
    moreover from this(2) have "req_id ?h x \<noteq> tx_Id (l2Tx r)" if "?h x = Some y" for x y
      using that by (metis domI image_eqI)
    ultimately have "inj_on (req_id (sys_heap s')) (dom (sys_heap s'))"
      using call old(1) new(1) none by (auto simp: inj_on_def domI)
    then show ?thesis using seen FreshIds by (simp add: inv_ids_def)
  next
    case HashIds
    have same: "req_hash ?h p = tx_Hash (l2Tx r) \<longrightarrow> req_id ?h p = tx_Id (l2Tx r)" if "p \<in> dom ?h" for p
    proof -
      have "p < ?n" using that heap unfolding inv_heap_def by (metis domIff not_less)
      moreover have "\<forall>p\<in>set [0..<?n]. case ?h p of None \<Rightarrow> True
          | Some y \<Rightarrow> tx_Hash (l2Tx y) = tx_Hash (l2Tx r) \<longrightarrow> tx_Id (l2Tx y) = tx_Id (l2Tx r)"
        using call(1) HashIds unfolding callable_def list_all_iff by simp
      ultimately have "case ?h p of None \<Rightarrow> True
          | Some y \<Rightarrow> tx_Hash (l2Tx y) = tx_Hash (l2Tx r) \<longrightarrow> tx_Id (l2Tx y) = tx_Id (l2Tx r)"
        by simp
      then show ?thesis using that by (auto simp: req_id_def req_hash_def)
    qed
    have clear: "\<forall>p\<in>dom ?h. \<forall>q\<in>dom ?h. req_hash ?h p = req_hash ?h q \<longrightarrow> req_id ?h p = req_id ?h q"
      using ids unfolding inv_ids_def HashIds discipline.case by (rule conjunct2)
    have "req_id (sys_heap s') p = req_id (sys_heap s') q"
      if pq: "p \<in> dom (sys_heap s')" "q \<in> dom (sys_heap s')"
        "req_hash (sys_heap s') p = req_hash (sys_heap s') q" for p q
    proof -
      have dom: "dom (sys_heap s') = insert ?n (dom ?h)" unfolding call(2) by (rule dom_fun_upd')
      consider "p = q" | "p = ?n" "q \<in> dom ?h" | "p \<in> dom ?h" "q = ?n"
        | "p \<in> dom ?h" "q \<in> dom ?h"
        using pq(1,2) unfolding dom insert_iff by argo
      then show ?thesis
      proof cases
        case 2
        then show ?thesis using pq(3) same [of q] old [of q] new unfolding call(2) by presburger
      next
        case 3
        then show ?thesis using pq(3) same [of p] old [of p] new unfolding call(2) by presburger
      next
        case 4
        from clear this have "req_hash ?h p = req_hash ?h q \<longrightarrow> req_id ?h p = req_id ?h q" by blast
        then show ?thesis using 4 pq(3) old [of p] old [of q] unfolding call(2) by presburger
      qed simp
    qed
    then have "\<forall>p\<in>dom (sys_heap s'). \<forall>q\<in>dom (sys_heap s').
        req_hash (sys_heap s') p = req_hash (sys_heap s') q \<longrightarrow>
        req_id (sys_heap s') p = req_id (sys_heap s') q"
      by blast
    with seen show ?thesis unfolding inv_ids_def HashIds discipline.case by (rule conjI)
  qed
next
  case (retry p r t)
  have "sys_heap s p = Some r" using retry(1) by (rule deref_heap)
  moreover from this have "dom (sys_heap s') = dom (sys_heap s)" using retry by auto
  ultimately have "inv_ids disc s' = inv_ids disc s"
    using req_id_retry [of "sys_heap s" p r t] unfolding retry(3)
    by (intro inv_ids_same) (simp_all add: retry)
  then show ?thesis using ids by simp
next
  case (check now err)
  then show ?thesis
    by (cases rule: check_act_cases)
(rule inv_ids_heap [THEN iffD2, OF _ _ ids]; simp add: list_update_mon_def)+
qed (use ids in \<open>simp_all add: inv_ids_heap [of s' s]\<close>)

lemma inv_refs_act:
  assumes heap: "inv_heap s" and refs: "inv_refs s" and chk: "inv_check s" and ids: "inv_ids disc s"
    and act: "act_under cfg disc a s = Some (Some s')"
  shows "inv_refs s'"
  using act
proof (cases rule: mon_act_cases)
  case (call r)
  note fresh = fresh_ref [OF heap refs]
  have "rl_inv (sys_heap s') (sys_list s')"
    unfolding call(2,4) using fresh(3) by (intro rl_inv_cong [OF _ inv_refs_list [OF refs]]) auto
  moreover have "owned s' = add_mset (m_next (ms_mon s)) (owned s)"
    using call by (simp add: owned_def)
  ultimately show ?thesis
    using refs fresh call(2,4) by (auto simp: inv_refs_def)
next
  case (add p b l)
  have o: "owned s = add_mset p (owned s')" using add by (simp add: owned_def)
  then have p: "p \<in># owned s" "p \<notin># owned s'" "nodup (owned s')"
    using refs by (auto simp: inv_refs_def)
  from heap refs p(1) add(1) show ?thesis
  proof (rule add_cases_inv)
    fix q assume "l = sys_list s"
    then show ?thesis using refs add o p by (auto simp: inv_refs_def)
  next
    fix f assume "l = \<lparr>rl_list = f, rl_sorted = insert_sorted (sys_heap s) p (sys_sorted s)\<rparr>"
      "rl_inv (sys_heap s) l"
    then show ?thesis using refs add o p by (auto simp: inv_refs_def)
  qed
next
  case (stored_update p r st t)
  then have "owned s' = owned s" by (simp add: owned_def)
  then show ?thesis using refs stored_update by (simp add: inv_refs_def)
next
  case (retry p r t)
  have "owned s' = owned s" using retry by (simp add: owned_def)
  moreover have "p \<notin> set (sys_sorted s)"
    using refs owned_sub(1) [OF retry(2)] by (auto simp: inv_refs_def)
  then have "rl_inv (sys_heap s') (sys_list s')"
    unfolding retry(3,5) by (intro rl_inv_cong [OF _ inv_refs_list [OF refs]]) auto
  ultimately show ?thesis using refs retry by (auto simp: inv_refs_def)
next
  case (delete p b l)
  have o: "owned s = add_mset p (owned s')" using delete by (simp add: owned_def)
  then have p: "sys_heap s p \<noteq> None" "p \<notin> set (sys_sorted s)" using refs by (auto simp: inv_refs_def)
  from delete_shrinks [OF heap ids refs p(1) _ delete(1)] p(2)
  show ?thesis using refs delete o by (auto simp: inv_refs_def)
next
  case (check now err)
  then show ?thesis
  proof (cases rule: check_act_cases)
    case (del_expired p b l)
    have "borrow_ok s p" using chk del_expired by (simp add: inv_check_def)
    then have p: "sys_heap s p \<noteq> None"
        "p \<in> set (sys_sorted s) \<Longrightarrow> first_of_ms (sys_heap s) p (sys_list s)"
      by (auto simp: borrow_ok_def)
    have "owned s' = owned s" using del_expired by (simp add: owned_def)
    then show ?thesis
      using delete_shrinks [OF heap ids refs p del_expired(2)] refs del_expired
      by (auto simp: inv_refs_def list_update_mon_def)
  next
    case (del_retry p b l)
    have "borrow_ok s p" using chk del_retry by (simp add: inv_check_def)
    then have p: "sys_heap s p \<noteq> None"
        "p \<in> set (sys_sorted s) \<Longrightarrow> first_of_ms (sys_heap s) p (sys_list s)" "p \<notin># owned s"
      by (auto simp: borrow_ok_def)
    have "owned s' = add_mset p (owned s)" using del_retry by (simp add: owned_def)
    then show ?thesis
      using delete_shrinks [OF heap ids refs p(1,2) del_retry(2)] refs p del_retry
      by (auto simp: inv_refs_def list_update_mon_def)
  qed (use refs in \<open>auto simp: inv_refs_def owned_def\<close>)
qed (use refs in \<open>auto simp: inv_refs_def owned_def\<close>)

lemma inv_check_act:
  assumes heap: "inv_heap s" and refs: "inv_refs s" and chk: "inv_check s" and ids: "inv_ids disc s"
    and act: "act_under cfg disc a s = Some (Some s')"
  shows "inv_check s'"
  using act
proof (cases rule: mon_act_cases)
  case (call r)
  have "borrow_ok s' p" if b: "borrow_ok s p" for p
  proof -
    have n: "p \<noteq> m_next (ms_mon s)" using b fresh_ref(1) [OF heap refs] by (auto simp: borrow_ok_def)
    have "first_of_ms (sys_heap s') p (sys_list s')" if "first_of_ms (sys_heap s) p (sys_list s)"
      unfolding call(2,4) using fresh_ref(3) [OF heap refs] n
      by (intro first_of_ms_cong [OF _ _ that]) auto
    then show ?thesis using b n call by (auto simp: borrow_ok_def owned_def)
  qed
  then show ?thesis using chk call by (simp add: inv_check_def)
next
  case (add p b l)
  have o: "owned s = add_mset p (owned s')" using add by (simp add: owned_def)
  then have p: "p \<in># owned s" by simp
  have np: "p \<notin> set (sys_sorted s)" using refs p by (auto simp: inv_refs_def)
  have "borrow_ok s' q" if b: "borrow_ok s q" for q
  proof -
    have "q \<noteq> p" using b p by (auto simp: borrow_ok_def)
    moreover from heap refs p add(1) have "q \<in> set (rl_sorted l) \<longrightarrow> first_of_ms (sys_heap s) q l"
    proof (rule add_cases_inv)
      assume "l = sys_list s"
      then show ?thesis using b by (simp add: borrow_ok_def)
    next
      fix f assume l: "l = \<lparr>rl_list = f, rl_sorted = insert_sorted (sys_heap s) p (sys_sorted s)\<rparr>"
      then show ?thesis
        using b \<open>q \<noteq> p\<close> np first_of_ms_insert [OF inv_refs_distinct [OF refs], of q p "sys_heap s" f]
        by (auto simp: borrow_ok_def)
    qed
    ultimately show ?thesis using b add o by (auto simp: borrow_ok_def)
  qed
  then show ?thesis using chk add by (simp add: inv_check_def)
next
  case (stored_update p r st t)
  then have "owned s' = owned s" by (simp add: owned_def)
  then show ?thesis using chk stored_update by (simp add: inv_check_def borrow_ok_def)
next
  case (retry p r t)
  have o: "owned s' = owned s" using retry by (simp add: owned_def)
  have np: "p \<notin> set (sys_sorted s)"
    using refs owned_sub(1) [OF retry(2)] by (auto simp: inv_refs_def)
  have "borrow_ok s' q" if b: "borrow_ok s q" for q
  proof -
    have n: "q \<noteq> p" using b owned_sub(1) [OF retry(2)] by (auto simp: borrow_ok_def)
    have "first_of_ms (sys_heap s') q (sys_list s')" if "first_of_ms (sys_heap s) q (sys_list s)"
      unfolding retry(3,5) using np n by (intro first_of_ms_cong [OF _ _ that]) auto
    then show ?thesis using b n o retry by (auto simp: borrow_ok_def)
  qed
  then show ?thesis using chk retry by (simp add: inv_check_def)
next
  case (delete p b l)
  have o: "owned s = add_mset p (owned s')" using delete by (simp add: owned_def)
  then have p: "sys_heap s p \<noteq> None" "p \<notin> set (sys_sorted s)" using refs by (auto simp: inv_refs_def)
  have "borrow_ok s' q" if "borrow_ok s q" for q
    using that delete_shrinks [OF heap ids refs p(1) _ delete(1)] p(2) delete o
    by (auto simp: borrow_ok_def)
  then show ?thesis using chk delete by (simp add: inv_check_def)
next
  case (check now err)
  then show ?thesis
  proof (cases rule: check_act_cases)
    case quiet
    then have "borrow_ok s' p = borrow_ok s p" for p by (simp add: borrow_ok_def owned_def)
    then show ?thesis using chk quiet by (auto simp: inv_check_def)
  next
    case (first t p)
    then obtain ps where ps: "sys_sorted s = p # ps"
      by (cases "sys_sorted s") (auto simp: getByIndex_def index_at_def)
    have "borrow_ok s' p"
      using refs first ps unfolding inv_refs_def rl_inv_def
      by (auto simp: borrow_ok_def first_of_ms_def owned_def)
    then show ?thesis using first by (simp add: inv_check_def)
  next
    case (expire p r)
    then have "borrow_ok s' p = borrow_ok s p" by (simp add: borrow_ok_def owned_def)
    then show ?thesis using chk expire by (simp add: inv_check_def)
  qed (auto simp: inv_check_def list_update_mon_def)
qed (use chk in \<open>auto simp: inv_check_def borrow_ok_def owned_def\<close>)

theorem mon_inv_step:
  "mon_inv disc s \<Longrightarrow> mon_step cfg disc s s' \<Longrightarrow> mon_inv disc s'"
  unfolding mon_inv_def
  by (blast intro: inv_heap_act inv_refs_act inv_check_act inv_ids_act)

lemma mon_reach_inv: "mon_reach cfg disc s \<Longrightarrow> mon_inv disc s"
  by (induction rule: mon_reach.induct) (auto intro: mon_inv_init mon_inv_step mon_step.act)

end
