(* ===== verification/MonitorProps.thy ===== *)
theory MonitorProps
  imports MonitorInv
begin

section \<open>What the interleaved monitor guarantees\<close>

text \<open>
  On top of the invariant of theory \<open>MonitorInv\<close>, under a discipline of the callers: no
  transaction handed to the monitor is lost, which statuses it stores, when the retry loop can
  panic, and when it sleeps for ever. What can happen without a discipline is shown by a run.
\<close>

subsection \<open>Nothing is forgotten\<close>

text \<open>
  The identifiers the monitor is done with: their status has been stored as confirmed or
  failed, or the retry loop has tried to store that they expired.
\<close>

definition done_ids :: "'d msys \<Rightarrow> uint64 set" where
  "done_ids s = {i. (i, TxStatusConfirmed, None) \<in> set (ms_log s)
                  \<or> (i, TxStatusFailed, None) \<in> set (ms_log s)
                  \<or> (\<exists>e. (i, TxStatusExpired, e) \<in> set (ms_log s))}"

text \<open>The requests the monitor still works on.\<close>

definition live_refs :: "'d msys \<Rightarrow> ref set" where
  "live_refs s = set (sys_sorted s) \<union> set_mset (held s)"

definition final_status :: "pc \<Rightarrow> bool" where
  "final_status c = (case c of PcUpdate p st \<Rightarrow> st = TxStatusConfirmed \<or> st = TxStatusFailed | _ \<Rightarrow> True)"

definition inv_status :: "'d msys \<Rightarrow> bool" where
  "inv_status s \<longleftrightarrow> list_all final_status (ms_threads s)
     \<and> (\<forall>(i, st, e)\<in>set (ms_log s). st \<in> {TxStatusConfirmed, TxStatusFailed, TxStatusExpired})"

definition inv_done :: "'d msys \<Rightarrow> bool" where
  "inv_done s \<longleftrightarrow> (\<forall>p\<in>#doomed s. req_id (sys_heap s) p \<in> done_ids s)
     \<and> (\<forall>p. ms_check s = CkDelExpired p \<longrightarrow> req_id (sys_heap s) p \<in> done_ids s)"

definition inv_live :: "'d msys \<Rightarrow> bool" where
  "inv_live s \<longleftrightarrow> ms_seen s \<subseteq> req_id (sys_heap s) ` live_refs s \<union> done_ids s"

lemma done_ids_log: "set (ms_log s) \<subseteq> set (ms_log s') \<Longrightarrow> done_ids s \<subseteq> done_ids s'"
  by (auto simp: done_ids_def)

lemma final_status_simps [simp]:
  "final_status (PcUpdate p st) \<longleftrightarrow> st = TxStatusConfirmed \<or> st = TxStatusFailed"
  "final_status PcIdle" "final_status (PcAdd p)" "final_status PcLen" "final_status PcSignal"
  "final_status PcStart" "final_status PcDead" "final_status (PcRequest p)" "final_status (PcRetry p)" "final_status (PcDelete p)"
  by (simp_all add: final_status_def)

lemma final_status_set_pc:
  "list_all final_status (ms_threads s) \<Longrightarrow> final_status c \<Longrightarrow> list_all final_status ((ms_threads s)[t := c])"
  using set_update_subset_insert [of "ms_threads s" t c] by (auto simp: list_all_iff)

lemma final_status_pc_of:
  "list_all final_status (ms_threads s) \<Longrightarrow> pc_of s t = Some c \<Longrightarrow> final_status c"
  by (auto simp: pc_of_def index_at_def list_all_iff split: if_splits)

lemma receipt_status_final: "receipt_status st = TxStatusConfirmed \<or> receipt_status st = TxStatusFailed"
  by (simp add: receipt_status_def)

lemma check_act_threads:
  "check_act cfg now err s = Some (Some s') \<Longrightarrow> ms_threads s' = ms_threads s"
  by (auto simp: check_act_def Let_def list_update_mon_def split: cpc.splits if_splits)

lemma inv_status_act:
  assumes st': "inv_status s" and act: "act_under cfg disc a s = Some (Some s')"
  shows "inv_status s'"
proof -
  note threads = conjunct1 [OF st' [unfolded inv_status_def]]
  have pcs: "list_all final_status (ms_threads s')"
  proof (cases a)
    case (ActCheck now err)
    then show ?thesis using act check_act_threads threads by fastforce
  next
    case (ActUpdate t err)
    then show ?thesis using act final_status_set_pc [OF threads]
      by (auto simp: set_pc_def split: option.splits pc.splits)
  next
    case (ActReceipt t res)
    then show ?thesis using act final_status_set_pc [OF threads] receipt_status_final
      by (auto simp: set_pc_def split: option.splits pc.splits receipt_result.splits)
  qed (use act final_status_set_pc [OF threads] threads in
      \<open>auto simp: set_pc_def list_update_mon_def Let_def new_request_def
        split: option.splits pc.splits if_splits prod.splits\<close>)
  have log: "ms_log s' = ms_log s"
    if "\<And>t err. a \<noteq> ActUpdate t err" "\<And>now err. a \<noteq> ActCheck now err"
    using act that
    by (cases a) (auto simp: set_pc_def list_update_mon_def Let_def new_request_def
        split: option.splits pc.splits if_splits prod.splits)
  have "\<forall>(i, st, e)\<in>set (ms_log s'). st \<in> {TxStatusConfirmed, TxStatusFailed, TxStatusExpired}"
  proof (cases a)
    case (ActUpdate t err)
    then obtain p st where p: "pc_of s t = Some (PcUpdate p st)"
      using act by (auto split: option.splits pc.splits)
    with act ActUpdate obtain i where "ms_log s' = ms_log s @ [(i, st, err)]"
      by (auto simp: set_pc_def)
    with p have "pc_of s t = Some (PcUpdate p st)" "ms_log s' = ms_log s @ [(i, st, err)]"
      by simp_all
    then show ?thesis
      using final_status_pc_of [OF threads, of t "PcUpdate p st"] st' by (auto simp: inv_status_def)
  next
    case (ActCheck now err)
    then have "check_act cfg now err s = Some (Some s')" using act by simp
    then show ?thesis
      by (cases rule: check_act_cases) (use st' in \<open>auto simp: inv_status_def list_update_mon_def\<close>)
  qed (use log st' in \<open>simp_all add: inv_status_def\<close>)
  with pcs show ?thesis unfolding inv_status_def by blast
qed

lemma done_ids_grow:
  assumes "act_under cfg disc a s = Some (Some s')"
  shows "done_ids s \<subseteq> done_ids s'"
  using assms
proof (cases rule: mon_act_cases)
  case (check now err)
  then show ?thesis
    by (cases rule: check_act_cases) (auto simp: done_ids_def list_update_mon_def)
qed (auto simp: done_ids_def)

lemma req_id_act:
  assumes heap: "inv_heap s" and act: "act_under cfg disc a s = Some (Some s')"
    and p: "sys_heap s p \<noteq> None"
  shows "req_id (sys_heap s') p = req_id (sys_heap s) p"
  using act
proof (cases rule: mon_act_cases)
  case (call r)
  then show ?thesis using p heap by (auto simp: req_id_def inv_heap_def)
next
  case (retry q r t)
  then have "sys_heap s q = Some r" by (auto dest: deref_heap)
  then show ?thesis using req_id_retry(1) [of "sys_heap s" q r t] retry(3) by simp
next
  case (check now err)
  then show ?thesis by (cases rule: check_act_cases) (auto simp: list_update_mon_def)
qed auto

lemma inv_done_act:
  assumes inv: "mon_inv disc s" and st: "inv_status s" and dn: "inv_done s"
    and act: "act_under cfg disc a s = Some (Some s')"
  shows "inv_done s'"
proof -
  have heap: "inv_heap s" and refs: "inv_refs s" and chk: "inv_check s"
    using inv by (auto simp: mon_inv_def)
  have grow: "req_id (sys_heap s') p \<in> done_ids s'"
    if "sys_heap s p \<noteq> None" "req_id (sys_heap s) p \<in> done_ids s" for p
    using that req_id_act [OF heap act] done_ids_grow [OF act] by auto
  have old: "req_id (sys_heap s') p \<in> done_ids s'" if "p \<in># doomed s" for p
    using that dn refs owned_sub(2) [OF that] by (intro grow) (auto simp: inv_done_def inv_refs_def)
  have ck: "req_id (sys_heap s') p \<in> done_ids s'" if "ms_check s = CkDelExpired p" for p
    using that dn chk by (intro grow) (auto simp: inv_done_def inv_check_def borrow_ok_def)
  from act show ?thesis
  proof (cases rule: mon_act_cases)
    case (stored_update p r stt t)
    have "stt = TxStatusConfirmed \<or> stt = TxStatusFailed"
      using st stored_update(2) final_status_pc_of [of s t "PcUpdate p stt"]
      by (simp add: inv_status_def)
    then have "req_id (sys_heap s') p \<in> done_ids s'"
      using stored_update deref_heap [OF stored_update(1)] by (auto simp: done_ids_def req_id_def)
    then show ?thesis using old ck stored_update by (auto simp: inv_done_def)
  next
    case (delete p b l)
    then show ?thesis using old ck by (auto simp: inv_done_def)
  next
    case (check now err)
    then show ?thesis
    proof (cases rule: check_act_cases)
      case (expire p r)
      have "req_id (sys_heap s') p \<in> done_ids s'"
        using expire deref_heap [OF expire(2)] by (auto simp: done_ids_def req_id_def)
      then show ?thesis using old expire by (auto simp: inv_done_def)
    qed (use old ck in \<open>auto simp: inv_done_def list_update_mon_def\<close>)
  qed (use old ck in \<open>auto simp: inv_done_def\<close>)
qed

text \<open>A deletion of a request that is done, or that is kept in other hands, loses nothing.\<close>

lemma inv_live_shrink:
  assumes sub: "\<forall>q\<in>set (sys_sorted s) - set (sys_sorted s'). req_id (sys_heap s) q \<in> I"
    and heap: "\<And>p. p \<in> live_refs s \<Longrightarrow> req_id (sys_heap s') p = req_id (sys_heap s) p"
    and held: "set_mset (held s) \<subseteq> set_mset (held s') \<union> R" "req_id (sys_heap s) ` R \<subseteq> I"
    and I: "I \<subseteq> req_id (sys_heap s') ` live_refs s' \<union> done_ids s'"
    and dn: "done_ids s \<subseteq> done_ids s'" and seen: "ms_seen s' = ms_seen s" and live: "inv_live s"
  shows "inv_live s'"
  unfolding inv_live_def seen
proof
  fix i assume "i \<in> ms_seen s"
  then consider p where "p \<in> live_refs s" "i = req_id (sys_heap s) p" | "i \<in> done_ids s"
    using live by (auto simp: inv_live_def)
  then show "i \<in> req_id (sys_heap s') ` live_refs s' \<union> done_ids s'"
  proof cases
    case (1 p)
    show ?thesis
    proof (cases "p \<in> live_refs s'")
      case True
      then show ?thesis using 1 heap [OF 1(1)] by (metis UnI1 imageI)
    next
      case False
      then have "i \<in> I" using 1 sub held by (auto simp: live_refs_def)
      then show ?thesis using I by blast
    qed
  next
    case 2
    then show ?thesis using dn by auto
  qed
qed

lemma inv_live_act:
  assumes inv: "mon_inv disc s" and st: "inv_status s" and dn: "inv_done s" and live: "inv_live s"
    and act: "act_under cfg disc a s = Some (Some s')"
  shows "inv_live s'"
proof -
  have heap: "inv_heap s" and refs: "inv_refs s" and chk: "inv_check s" and ids: "inv_ids disc s"
    using inv by (auto simp: mon_inv_def)
  note grow = done_ids_grow [OF act]
  have alive: "sys_heap s p \<noteq> None" if "p \<in> live_refs s" for p
    using that refs by (auto simp: live_refs_def inv_refs_def rl_inv_def owned_def)
  have same: "req_id (sys_heap s') p = req_id (sys_heap s) p" if "p \<in> live_refs s" for p
    using req_id_act [OF heap act alive [OF that]] .
  note shrink = inv_live_shrink [OF _ same _ _ _ grow _ live]
  from act show ?thesis
  proof (cases rule: mon_act_cases)
    case (call r)
    have "req_id (sys_heap s') (m_next (ms_mon s)) = tx_Id (l2Tx r)"
      using call by (simp add: req_id_def)
    moreover have "live_refs s' = insert (m_next (ms_mon s)) (live_refs s)"
      using call by (auto simp: live_refs_def)
    ultimately have "req_id (sys_heap s') ` live_refs s' =
        insert (tx_Id (l2Tx r)) (req_id (sys_heap s) ` live_refs s)"
      using same by (simp cong: image_cong)
    then show ?thesis using live grow call(5) by (auto simp: inv_live_def)
  next
    case (add p b l)
    have p: "p \<in># owned s" using add by (simp add: owned_def)
    have "p \<in> live_refs s'" if "p \<in> set (rl_sorted l)" using that add by (simp add: live_refs_def)
    moreover from heap refs p add(1)
    have "set (sys_sorted s) \<subseteq> set (rl_sorted l) \<and> req_id (sys_heap s) p \<in> req_id (sys_heap s) ` set (rl_sorted l)"
      by (rule add_cases_inv) (auto intro: rev_image_eqI)
    ultimately show ?thesis
      using add same by (intro shrink [of "req_id (sys_heap s) ` set (rl_sorted l)" "{p}"])
        (auto simp: live_refs_def)
  next
    case (stored_update p r stt t)
    have "stt = TxStatusConfirmed \<or> stt = TxStatusFailed"
      using st stored_update(2) final_status_pc_of [of s t "PcUpdate p stt"]
      by (simp add: inv_status_def)
    then have "req_id (sys_heap s) p \<in> done_ids s'"
      using stored_update deref_heap [OF stored_update(1)] by (auto simp: done_ids_def req_id_def)
    then show ?thesis
      using stored_update by (intro shrink [of "{req_id (sys_heap s) p}" "{p}"]) auto
  next
    case (delete p b l)
    then have p: "p \<in># doomed s" by simp
    then have np: "sys_heap s p \<noteq> None" "p \<notin> set (sys_sorted s)"
      using refs owned_sub(2) [OF p] by (auto simp: inv_refs_def)
    have d: "req_id (sys_heap s) p \<in> done_ids s'" using dn p grow by (auto simp: inv_done_def)
    from delete_shrinks [OF heap ids refs np(1) _ delete(1)] np(2) delete(4)
    have "\<forall>q\<in>set (sys_sorted s) - set (sys_sorted s'). req_id (sys_heap s) q = req_id (sys_heap s) p"
      by simp
    then show ?thesis using delete d by (intro shrink [of "{req_id (sys_heap s) p}" "{}"]) auto
  next
    case (check now err)
    then show ?thesis
    proof (cases rule: check_act_cases)
      case (del_expired p b l)
      then have b: "borrow_ok s p" using chk by (simp add: inv_check_def)
      have d: "req_id (sys_heap s) p \<in> done_ids s'" using dn del_expired(1) grow by (auto simp: inv_done_def)
      from delete_shrinks [OF heap ids refs _ _ del_expired(2)] b del_expired(3)
      have "\<forall>q\<in>set (sys_sorted s) - set (sys_sorted s'). req_id (sys_heap s) q = req_id (sys_heap s) p"
        by (simp add: borrow_ok_def list_update_mon_def)
      moreover have "ms_seen s' = ms_seen s" using del_expired by (simp add: list_update_mon_def)
      ultimately show ?thesis
        using del_expired d by (intro shrink [of "{req_id (sys_heap s) p}" "{}"]) auto
    next
      case (del_retry p b l)
      then have b: "borrow_ok s p" using chk by (simp add: inv_check_def)
      have h: "sys_heap s' = sys_heap s" using del_retry by (simp add: list_update_mon_def)
      have p: "p \<in> live_refs s'" using del_retry by (simp add: live_refs_def)
      from delete_shrinks [OF heap ids refs _ _ del_retry(2)] b del_retry(3)
      have "\<forall>q\<in>set (sys_sorted s) - set (sys_sorted s'). req_id (sys_heap s) q = req_id (sys_heap s) p"
        by (simp add: borrow_ok_def list_update_mon_def)
      moreover have "ms_seen s' = ms_seen s" using del_retry by (simp add: list_update_mon_def)
      ultimately show ?thesis
        using del_retry h p by (intro shrink [of "{req_id (sys_heap s) p}" "{}"]) auto
    next
      case quiet
      then show ?thesis by (intro shrink [of "{}" "{}"]) auto
    qed (intro shrink [of "{}" "{}"]; simp)+
  next
    case (retry p r t)
    then show ?thesis by (intro shrink [of "{}" "{}"]) auto
  qed (intro shrink [of "{}" "{}"]; simp)+
qed

text \<open>Everything together holds in every reachable state.\<close>

definition mon_safe :: "discipline \<Rightarrow> 'd msys \<Rightarrow> bool" where
  "mon_safe disc s \<longleftrightarrow> mon_inv disc s \<and> inv_status s \<and> inv_done s \<and> inv_live s"

lemma init_doomed: "doomed (mon_init cfg callers db) = {#}"
  using init_owned [of cfg callers db] by (simp add: owned_def)

lemma mon_safe_init: "mon_safe disc (mon_init cfg callers db)"
  unfolding mon_safe_def
  by (auto simp: mon_inv_init inv_done_def init_doomed)
    (auto simp: inv_status_def inv_live_def mon_init_def list_all_iff)

lemma mon_reach_safe: "mon_reach cfg disc s \<Longrightarrow> mon_safe disc s"
proof (induction rule: mon_reach.induct)
  case (start callers db)
  show ?case by (rule mon_safe_init)
next
  case (step s s')
  have safe: "mon_inv disc s" "inv_status s" "inv_done s" "inv_live s"
    using step.IH by (simp_all add: mon_safe_def)
  from step.hyps(2) obtain a where act: "act_under cfg disc a s = Some (Some s')" by blast
  show ?case
    unfolding mon_safe_def
    using mon_inv_step [OF safe(1) step.hyps(2)] inv_status_act [OF safe(2) act]
      inv_done_act [OF safe(1-3) act] inv_live_act [OF safe act]
    by simp
qed

subsection \<open>Panics\<close>

lemma inv_refs_live:
  assumes "inv_refs s" "p \<in># owned s"
  obtains r where "sys_heap s p = Some r" "p \<notin> set (sys_sorted s)"
  using assms by (auto simp: inv_refs_def)

lemma held_pc:
  "pc_of s t = Some c \<Longrightarrow> p \<in># pc_held c \<Longrightarrow> p \<in># owned s"
  "pc_of s t = Some c \<Longrightarrow> p \<in># pc_doomed c \<Longrightarrow> p \<in># owned s"
  using threads_member [of s t c p pc_held] threads_member [of s t c p pc_doomed]
  by (auto simp: owned_def held_def doomed_def)

lemma pc_owned:
  "pc_of s t = Some (PcAdd p) \<Longrightarrow> p \<in># owned s"
  "pc_of s t = Some (PcRequest p) \<Longrightarrow> p \<in># owned s"
  "pc_of s t = Some (PcUpdate p st) \<Longrightarrow> p \<in># owned s"
  "pc_of s t = Some (PcRetry p) \<Longrightarrow> p \<in># owned s"
  "pc_of s t = Some (PcDelete p) \<Longrightarrow> p \<in># owned s"
  using held_pc(1) [of s t "PcAdd p" p] held_pc(1) [of s t "PcRequest p" p]
    held_pc(1) [of s t "PcUpdate p st" p] held_pc(1) [of s t "PcRetry p" p]
    held_pc(2) [of s t "PcDelete p" p] by simp_all

lemma add_returns:
  assumes "inv_heap s" "inv_refs s" "sys_heap s p = Some r"
  shows "add (sys_heap s) p (sys_list s) \<noteq> None"
  using rl_inv_add [OF inv_refs_list [OF assms(2)] inv_heap_nonnil [OF assms(1,3)] assms(3)]
  by (metis option.distinct(1))

lemma delete_returns:
  assumes "inv_heap s" "inv_ids disc s" "inv_refs s" "sys_heap s p = Some r"
    and "p \<in> set (sys_sorted s) \<Longrightarrow> first_of_ms (sys_heap s) p (sys_list s)"
  shows "delete (sys_heap s) p (sys_list s) \<noteq> None"
  using delete_cases_inv [OF assms(1,2) inv_refs_list [OF assms(3)] assms(4,5)]
  by (metis option.distinct(1))

text \<open>The only panic there can be: the retry loop reads index 0 of an empty list.\<close>

lemma only_panic:
  assumes inv: "mon_inv disc s" and panic: "mon_act cfg a s = Some None"
  obtains now err t where "a = ActCheck now err" "ms_check s = CkFirst t" "sys_sorted s = []"
proof -
  note act = panic_under [OF panic, of disc]
  have heap: "inv_heap s" and refs: "inv_refs s" and chk: "inv_check s" and ids: "inv_ids disc s"
    using inv by (auto simp: mon_inv_def)
  have owned: "deref (sys_heap s) p \<noteq> None" "add (sys_heap s) p (sys_list s) \<noteq> None"
    "delete (sys_heap s) p (sys_list s) \<noteq> None" if p: "p \<in># owned s" for p
  proof -
    obtain r where r: "sys_heap s p = Some r" "p \<notin> set (sys_sorted s)"
      by (rule inv_refs_live [OF refs p])
    show "deref (sys_heap s) p \<noteq> None" using inv_heap_live [OF heap r(1)] by simp
    show "add (sys_heap s) p (sys_list s) \<noteq> None" by (rule add_returns [OF heap refs r(1)])
    show "delete (sys_heap s) p (sys_list s) \<noteq> None"
      by (rule delete_returns [OF heap ids refs r(1)]) (simp add: r(2))
  qed
  have borrowed: "deref (sys_heap s) p \<noteq> None" "delete (sys_heap s) p (sys_list s) \<noteq> None"
    if p: "ck_borrow (ms_check s) = Some p" for p
  proof -
    have b: "borrow_ok s p" using chk p by (simp add: inv_check_def)
    then obtain r where r: "sys_heap s p = Some r" by (auto simp: borrow_ok_def)
    show "deref (sys_heap s) p \<noteq> None" using inv_heap_live [OF heap r] by simp
    show "delete (sys_heap s) p (sys_list s) \<noteq> None"
      by (rule delete_returns [OF heap ids refs r]) (use b in \<open>simp add: borrow_ok_def\<close>)
  qed
  show ?thesis
  proof (cases a)
    case (ActCheck now err)
    then have c: "check_act cfg now err s = Some None" using act by simp
    show ?thesis
    proof (cases "ms_check s")
      case (CkFirst t)
      then have "sys_sorted s = []"
        using c by (cases "sys_sorted s") (auto simp: check_act_def getByIndex_def index_at_def)
      then show ?thesis using that ActCheck CkFirst by blast
    qed (use c borrowed in \<open>auto simp: check_act_def Let_def split: if_splits\<close>)
  next
    case (ActAdd t)
    then obtain p where "pc_of s t = Some (PcAdd p)" "add (sys_heap s) p (sys_list s) = None"
      using act by (auto split: option.splits pc.splits)
    then show ?thesis using owned(2) [OF pc_owned(1)] by blast
  next
    case (ActReceipt t res)
    then obtain p where "pc_of s t = Some (PcRequest p)" "deref (sys_heap s) p = None"
      using act by (auto split: option.splits pc.splits)
    then show ?thesis using owned(1) [OF pc_owned(2)] by blast
  next
    case (ActUpdate t err)
    then obtain p st where "pc_of s t = Some (PcUpdate p st)" "deref (sys_heap s) p = None"
      using act by (auto split: option.splits pc.splits)
    then show ?thesis using owned(1) [OF pc_owned(3)] by blast
  next
    case (ActRetry t now)
    then obtain p where "pc_of s t = Some (PcRetry p)" "deref (sys_heap s) p = None"
      using act by (auto simp: set_nextRetry_def split: option.splits pc.splits bind_splits)
    then show ?thesis using owned(1) [OF pc_owned(4)] by blast
  next
    case (ActDelete t)
    then obtain p where "pc_of s t = Some (PcDelete p)" "delete (sys_heap s) p (sys_list s) = None"
      using act by (auto split: option.splits pc.splits)
    then show ?thesis using owned(3) [OF pc_owned(5)] by blast
  qed (use act in \<open>auto simp: Let_def split: if_splits prod.splits\<close>)
qed

text \<open>With fresh identifiers no worker takes a request out of the list, and every insertion is new.\<close>

lemma fresh_delete:
  assumes "mon_inv FreshIds s" "p \<in># owned s" "delete (sys_heap s) p (sys_list s) = Some (b, l)"
  shows "set (rl_sorted l) = set (sys_sorted s)" "length (rl_sorted l) = length (sys_sorted s)"
proof -
  have heap: "inv_heap s" and refs: "inv_refs s" and ids: "inv_ids FreshIds s"
    using assms(1) by (auto simp: mon_inv_def)
  obtain r where r: "sys_heap s p = Some r" "p \<notin> set (sys_sorted s)"
    by (rule inv_refs_live [OF refs assms(2)])
  have live: "q \<in> dom (sys_heap s)" if "q \<in> set (sys_sorted s)" for q
    using that inv_refs_list [OF refs] by (auto simp: rl_inv_def)
  have inj: "inj_on (req_id (sys_heap s)) (dom (sys_heap s))" using ids by (simp add: inv_ids_def)
  from delete_shrinks [OF heap ids refs _ _ assms(3)] r
  have sh: "rl_inv (sys_heap s) l" "set (rl_sorted l) \<subseteq> set (sys_sorted s)"
      "\<forall>q\<in>set (sys_sorted s) - set (rl_sorted l). req_id (sys_heap s) q = req_id (sys_heap s) p"
    by auto
  have "q \<in> set (rl_sorted l)" if q: "q \<in> set (sys_sorted s)" for q
    using sh(3) q r inj_onD [OF inj, of q p] live [OF q] by auto
  with sh(2) show eq: "set (rl_sorted l) = set (sys_sorted s)" by blast
  show "length (rl_sorted l) = length (sys_sorted s)"
    using sh(1) inv_refs_distinct [OF refs] eq
    by (metis distinct_card rl_inv_def)
qed

lemma fresh_add:
  assumes "mon_inv FreshIds s" "p \<in># owned s" "add (sys_heap s) p (sys_list s) = Some (b, l)"
  shows "length (rl_sorted l) = Suc (length (sys_sorted s))"
proof -
  have heap: "inv_heap s" and refs: "inv_refs s" and ids: "inv_ids FreshIds s"
    using assms(1) by (auto simp: mon_inv_def)
  obtain r where r: "sys_heap s p = Some r" "p \<notin> set (sys_sorted s)"
    by (rule inv_refs_live [OF refs assms(2)])
  have inj: "inj_on (req_id (sys_heap s)) (dom (sys_heap s))" using ids by (simp add: inv_ids_def)
  from heap refs assms(2,3) show ?thesis
  proof (rule add_cases_inv)
    fix q assume q: "q \<in> set (sys_sorted s)" "req_id (sys_heap s) q = req_id (sys_heap s) p"
    then have "q \<in> dom (sys_heap s)" using inv_refs_list [OF refs] by (auto simp: rl_inv_def)
    then have "q = p" using inj_onD [OF inj q(2)] r by auto
    then show ?thesis using q r by simp
  qed simp
qed

definition inv_first :: "'d msys \<Rightarrow> bool" where
  "inv_first s \<longleftrightarrow> (\<forall>t. ms_check s = CkFirst t \<longrightarrow> sys_sorted s \<noteq> [])"

lemma inv_first_act:
  assumes inv: "mon_inv FreshIds s" and fst: "inv_first s"
    and act: "act_under cfg FreshIds a s = Some (Some s')"
  shows "inv_first s'"
  using act
proof (cases rule: mon_act_cases)
  case (add p b l)
  then have "p \<in># owned s" by (simp add: owned_def)
  then show ?thesis using fresh_add [OF inv _ add(1)] add by (auto simp: inv_first_def)
next
  case (delete p b l)
  then have "p \<in># owned s" by (simp add: owned_def)
  then show ?thesis using fresh_delete(1) [OF inv _ delete(1)] delete fst
    by (auto simp: inv_first_def)
next
  case (check now err)
  then show ?thesis
    by (cases rule: check_act_cases) (use fst in \<open>auto simp: inv_first_def list_update_mon_def\<close>)
qed (use fst in \<open>auto simp: inv_first_def\<close>)

lemma mon_reach_first: "mon_reach cfg FreshIds s \<Longrightarrow> inv_first s"
proof (induction rule: mon_reach.induct)
  case (start callers db)
  show ?case by (simp add: inv_first_def mon_init_def)
next
  case (step s s')
  have "mon_inv FreshIds s" using mon_reach_safe [OF step.hyps(1)] by (simp add: mon_safe_def)
  with step show ?case by (blast intro: inv_first_act)
qed

subsection \<open>The retry loop asleep\<close>

text \<open>
  The loop waits on its condition variable, the list is not empty, and no goroutine is about
  to signal: none has read the length 1, and one that still has to read it will find more.
\<close>

definition asleep :: "'d msys \<Rightarrow> bool" where
  "asleep s \<longleftrightarrow> ms_check s = CkWaiting \<and> m_waiting (ms_mon s) \<and> sys_sorted s \<noteq> []
     \<and> list_all (\<lambda>c. c \<noteq> PcSignal \<and> (c = PcLen \<longrightarrow> 2 \<le> length (sys_sorted s))) (ms_threads s)"

lemma list_all_update: "list_all P xs \<Longrightarrow> P x \<Longrightarrow> list_all P (xs[t := x])"
  using set_update_subset_insert [of xs t x] by (auto simp: list_all_iff)

lemma list_all_pc_of: "list_all P (ms_threads s) \<Longrightarrow> pc_of s t = Some c \<Longrightarrow> P c"
  by (auto simp: pc_of_def index_at_def list_all_iff split: if_splits)

lemma asleep_pc:
  assumes "asleep s" "ms_check s' = ms_check s" "m_waiting (ms_mon s') = m_waiting (ms_mon s)"
    and "length (sys_sorted s') \<ge> length (sys_sorted s)"
    and "ms_threads s' = (ms_threads s)[t := c]"
    and "c \<noteq> PcSignal" "c = PcLen \<Longrightarrow> 2 \<le> length (sys_sorted s')"
  shows "asleep s'"
proof -
  have "list_all (\<lambda>c. c \<noteq> PcSignal \<and> (c = PcLen \<longrightarrow> 2 \<le> length (sys_sorted s'))) (ms_threads s)"
    using assms(1,4) by (fastforce simp: asleep_def list_all_iff)
  moreover have "sys_sorted s' \<noteq> []" using assms(1,4) by (auto simp: asleep_def)
  ultimately show ?thesis
    using assms unfolding asleep_def by (simp add: list_all_update)
qed

lemma asleep_act:
  assumes inv: "mon_inv FreshIds s" and sl: "asleep s"
    and act: "act_under cfg FreshIds a s = Some (Some s')"
  shows "asleep s' \<and> set (sys_sorted s) \<subseteq> set (sys_sorted s')"
proof (cases a)
  case (ActDial t err)
  then show ?thesis using act
    by (auto simp: set_pc_def split: if_splits intro: asleep_pc [OF sl, where t = t])
next
  case (ActCall t now tx)
  then show ?thesis using act
    by (auto simp: new_request_def set_pc_def enqueueMonitorRequest_def Let_def split: if_splits
        intro: asleep_pc [OF sl, where t = t]) (use sl in \<open>simp add: asleep_def\<close>)
next
  case (ActAdd t)
  then obtain p b l where p: "pc_of s t = Some (PcAdd p)" "add (sys_heap s) p (sys_list s) = Some (b, l)"
      "s' = set_pc t PcLen (list_update_mon l s)"
    using act by (auto split: option.splits pc.splits)
  have n: "length (rl_sorted l) = Suc (length (sys_sorted s))"
    using fresh_add [OF inv pc_owned(1) [OF p(1)] p(2)] .
  have "sys_sorted s \<noteq> []" using sl by (simp add: asleep_def)
  then have "2 \<le> length (rl_sorted l)" using n by (cases "sys_sorted s") auto
  then have "asleep s'"
    by (intro asleep_pc [OF sl, where t = t and c = PcLen]) (simp_all add: p set_pc_def list_update_mon_def n)
  moreover have "set (sys_sorted s) \<subseteq> set (rl_sorted l)"
    using inv unfolding mon_inv_def
    by (elim conjE add_cases_inv [OF _ _ pc_owned(1) [OF p(1)] p(2)]) auto
  ultimately show ?thesis by (simp add: p set_pc_def list_update_mon_def)
next
  case (ActLen t)
  then have pc: "pc_of s t = Some PcLen" using act by (simp split: if_splits)
  have "2 \<le> length (sys_sorted s)"
    using list_all_pc_of [OF _ pc] sl by (auto simp: asleep_def)
  then have "s' = set_pc t PcIdle s" using act ActLen pc by (simp add: len_def)
  then show ?thesis
    by (auto simp: set_pc_def intro: asleep_pc [OF sl, where t = t])
next
  case (ActSignal t)
  then have "pc_of s t = Some PcSignal" using act by (simp split: if_splits)
  then show ?thesis using list_all_pc_of sl unfolding asleep_def by blast
next
  case (ActDelete t)
  then obtain p b l where p: "pc_of s t = Some (PcDelete p)" "delete (sys_heap s) p (sys_list s) = Some (b, l)"
      "s' = set_pc t PcIdle (list_update_mon l s)"
    using act by (auto split: option.splits pc.splits)
  note same = fresh_delete [OF inv pc_owned(5) [OF p(1)] p(2)]
  show ?thesis
    by (auto simp: p set_pc_def list_update_mon_def same intro: asleep_pc [OF sl, where t = t])
next
  case (ActCheck now err)
  then show ?thesis using act sl by (auto simp: check_act_def asleep_def)
next
  case (ActDeliver i)
  then show ?thesis using act sl by (auto simp: chan_deliver_def asleep_def split: if_splits)
next
  case (ActReceive t)
  then show ?thesis using act
    by (auto simp: set_pc_def chan_receive_def split: if_splits list.splits
        intro: asleep_pc [OF sl, where t = t])
next
  case (ActHandoff t i)
  then show ?thesis using act
    by (auto simp: set_pc_def chan_handoff_def split: if_splits
        intro: asleep_pc [OF sl, where t = t])
next
  case (ActReceipt t res)
  then show ?thesis using act
    by (auto simp: set_pc_def split: option.splits pc.splits receipt_result.splits
        intro: asleep_pc [OF sl, where t = t])
next
  case (ActUpdate t err)
  then obtain p st where p: "pc_of s t = Some (PcUpdate p st)"
    using act by (auto split: option.splits pc.splits)
  with act ActUpdate obtain i where "s' = set_pc t (if err \<noteq> None then PcRetry p else PcDelete p)
      (s\<lparr>ms_log := ms_log s @ [(i, st, err)]\<rparr>)"
    by auto
  then show ?thesis
    using asleep_pc [OF sl, of s' t "PcRetry p"] asleep_pc [OF sl, of s' t "PcDelete p"]
    by (cases err) (simp_all add: set_pc_def)
next
  case (ActRetry t now)
  then show ?thesis using act
    by (auto simp: set_pc_def set_nextRetry_def split: option.splits pc.splits bind_splits
        intro: asleep_pc [OF sl, where t = t])
qed

subsection \<open>One final status\<close>

text \<open>
  The updates that make a transaction final: a stored confirmation or failure, and the
  expiry, which is final whatever the database answers.
\<close>

definition final_entry :: "uint64 \<times> gostring \<times> goerror \<Rightarrow> bool" where
  "final_entry = (\<lambda>(i, st, e). st = TxStatusExpired \<or> e = None)"

definition final_ids :: "'d msys \<Rightarrow> uint64 list" where
  "final_ids s = map fst (filter final_entry (ms_log s))"

definition inv_once :: "'d msys \<Rightarrow> bool" where
  "inv_once s \<longleftrightarrow> distinct (final_ids s) \<and> fst ` set (ms_log s) \<subseteq> ms_seen s
     \<and> (\<forall>p. ck_borrow (ms_check s) = Some p \<longrightarrow> p \<in> set (sys_sorted s))
     \<and> (\<forall>p\<in>live_refs s. ms_check s \<noteq> CkDelExpired p \<longrightarrow> req_id (sys_heap s) p \<notin> set (final_ids s))"

lemma inv_onceD:
  assumes "inv_once s"
  shows "distinct (final_ids s)" "fst ` set (ms_log s) \<subseteq> ms_seen s"
    "ck_borrow (ms_check s) = Some p \<Longrightarrow> p \<in> set (sys_sorted s)"
    "p \<in> live_refs s \<Longrightarrow> ms_check s \<noteq> CkDelExpired p \<Longrightarrow> req_id (sys_heap s) p \<notin> set (final_ids s)"
  using assms by (auto simp: inv_once_def)

lemma final_ids_seen: "inv_once s \<Longrightarrow> set (final_ids s) \<subseteq> ms_seen s"
  by (force simp: final_ids_def inv_once_def)

text \<open>An action that logs nothing final.\<close>

lemma inv_once_quiet:
  assumes once: "inv_once s" and fin: "final_ids s' = final_ids s"
    and log: "fst ` set (ms_log s') \<subseteq> ms_seen s'"
    and bor: "\<And>p. ck_borrow (ms_check s') = Some p \<Longrightarrow> p \<in> set (sys_sorted s')"
    and live: "\<And>p. p \<in> live_refs s' \<Longrightarrow>
      p \<in> live_refs s \<and> ms_check s \<noteq> CkDelExpired p \<and> req_id (sys_heap s') p = req_id (sys_heap s) p
      \<or> ms_check s' = CkDelExpired p \<or> req_id (sys_heap s') p \<notin> ms_seen s"
  shows "inv_once s'"
proof -
  have "req_id (sys_heap s') p \<notin> set (final_ids s')"
    if p: "p \<in> live_refs s'" "ms_check s' \<noteq> CkDelExpired p" for p
    using live [OF p(1)] p(2) inv_onceD(4) [OF once, of p] final_ids_seen [OF once] fin by auto
  then show ?thesis
    unfolding inv_once_def using inv_onceD(1) [OF once] fin log bor by auto
qed

lemma inv_once_act:
  assumes inv: "mon_inv FreshIds s" and st: "inv_status s" and once: "inv_once s"
    and act: "act_under cfg FreshIds a s = Some (Some s')"
  shows "inv_once s'"
proof -
  have heap: "inv_heap s" and refs: "inv_refs s" and chk: "inv_check s" and ids: "inv_ids FreshIds s"
    using inv by (auto simp: mon_inv_def)
  have alive: "sys_heap s p \<noteq> None" if "p \<in> live_refs s" for p
    using that refs by (auto simp: live_refs_def inv_refs_def rl_inv_def owned_def)
  have seen: "req_id (sys_heap s) p \<in> ms_seen s" if "sys_heap s p = Some r" for p r
    using ids that by (auto simp: inv_ids_def)
  have inj: "p = q" if "req_id (sys_heap s) p = req_id (sys_heap s) q" "p \<in> live_refs s" "q \<in> live_refs s"
    for p q using ids alive that by (auto simp: inv_ids_def dest: inj_onD)
  have apart: "ms_check s \<noteq> CkDelExpired p" if "p \<in># owned s" for p
    using chk that by (auto simp: inv_check_def borrow_ok_def)
  note same = req_id_act [OF heap act alive]
  note quiet = inv_once_quiet [OF once]
  from act show ?thesis
  proof (cases rule: mon_act_cases)
    case (call r)
    have new: "req_id (sys_heap s') (m_next (ms_mon s)) \<notin> ms_seen s"
      using call by (simp add: callable_def req_id_def)
    show ?thesis
    proof (rule quiet)
      fix p assume "p \<in> live_refs s'"
      then show "p \<in> live_refs s \<and> ms_check s \<noteq> CkDelExpired p \<and> req_id (sys_heap s') p = req_id (sys_heap s) p
          \<or> ms_check s' = CkDelExpired p \<or> req_id (sys_heap s') p \<notin> ms_seen s"
        using call(4,7,8) new same [of p] by (auto simp: live_refs_def)
    qed (use call inv_onceD [OF once] in \<open>auto simp: final_ids_def\<close>)
  next
    case (failed_update p r stt t e)
    have "stt \<noteq> TxStatusExpired"
      using st failed_update(2) final_status_pc_of [of s t "PcUpdate p stt"]
      by (auto simp: inv_status_def TxStatus_defs)
    then have fin: "final_ids s' = final_ids s"
      using failed_update by (simp add: final_ids_def final_entry_def)
    have "fst ` set (ms_log s') \<subseteq> ms_seen s'"
      using failed_update inv_onceD(2) [OF once] seen [OF deref_heap [OF failed_update(1)]]
        deref_heap [OF failed_update(1)] by (auto simp: req_id_def)
    then show ?thesis
      by (rule quiet [OF fin])
        (use failed_update inv_onceD(3) [OF once] in \<open>auto simp: live_refs_def\<close>)
  next
    case (stored_update p r stt t)
    have h: "sys_heap s p = Some r" by (rule deref_heap [OF stored_update(1)])
    then have i: "tx_Id (l2Tx r) = req_id (sys_heap s) p" by (simp add: req_id_def)
    have p: "p \<in> live_refs s" "ms_check s \<noteq> CkDelExpired p"
      using stored_update apart [of p] owned_sub(1) [of p s] by (auto simp: live_refs_def)
    have fin: "final_ids s' = final_ids s @ [req_id (sys_heap s) p]"
      using stored_update i by (simp add: final_ids_def final_entry_def)
    have gone: "p \<notin> live_refs s'"
      using stored_update refs by (auto simp: inv_refs_def live_refs_def owned_def)
    have "req_id (sys_heap s') q \<notin> set (final_ids s')"
      if q: "q \<in> live_refs s'" "ms_check s' \<noteq> CkDelExpired q" for q
    proof -
      have "q \<in> live_refs s" "q \<noteq> p" using q gone stored_update by (auto simp: live_refs_def)
      then show ?thesis
        using inv_onceD(4) [OF once, of q] q stored_update inj [of q p] p fin by auto
    qed
    moreover have "distinct (final_ids s')" using fin inv_onceD(1,4) [OF once] p by simp
    moreover have "fst ` set (ms_log s') \<subseteq> ms_seen s'"
      using stored_update inv_onceD(2) [OF once] seen [OF h] i by auto
    ultimately show ?thesis
      unfolding inv_once_def using inv_onceD(3) [OF once] stored_update by auto
  next
    case (add p b l)
    have p: "p \<in># owned s" using add by (simp add: owned_def)
    from heap refs p add(1)
    have l: "set (sys_sorted s) \<subseteq> set (rl_sorted l)" "set (rl_sorted l) \<subseteq> insert p (set (sys_sorted s))"
      by (rule add_cases_inv; auto)+
    have "p \<in> live_refs s" using add by (simp add: live_refs_def)
    then have "live_refs s' \<subseteq> live_refs s" using l add by (auto simp: live_refs_def)
    then show ?thesis
      by (intro quiet) (use add l inv_onceD(2,3) [OF once] in \<open>auto simp: final_ids_def\<close>)
  next
    case (retry p r t)
    then have "live_refs s' = live_refs s" by (simp add: live_refs_def)
    then show ?thesis
      by (intro quiet) (use retry(3-) same inv_onceD(2,3) [OF once] in \<open>auto simp: final_ids_def\<close>)
  next
    case (delete p b l)
    have "p \<in># owned s" using delete by (simp add: owned_def)
    note l = fresh_delete(1) [OF inv this delete(1)]
    then have "live_refs s' = live_refs s" using delete by (simp add: live_refs_def)
    then show ?thesis
      by (intro quiet) (use delete l inv_onceD(2,3) [OF once] in \<open>auto simp: final_ids_def\<close>)
  next
    case shuffle
    then have "live_refs s' = live_refs s" by (simp add: live_refs_def)
    then show ?thesis
      by (intro quiet) (use shuffle inv_onceD(2,3) [OF once] in \<open>auto simp: final_ids_def\<close>)
  next
    case (check now err)
    then show ?thesis
    proof (cases rule: check_act_cases)
      case quiet
      then have "live_refs s' = live_refs s" by (simp add: live_refs_def)
      then show ?thesis
        by (intro inv_once_quiet [OF once]) (use quiet inv_onceD(2,3) [OF once] in \<open>auto simp: final_ids_def\<close>)
    next
      case (first t p)
      then have "p \<in> set (sys_sorted s)"
        by (cases "sys_sorted s") (auto simp: getByIndex_def index_at_def)
      then show ?thesis
        by (intro quiet) (use first inv_onceD(2) [OF once] in \<open>auto simp: final_ids_def live_refs_def\<close>)
    next
      case (expire p r)
      have h: "sys_heap s p = Some r" by (rule deref_heap [OF expire(2)])
      then have i: "tx_Id (l2Tx r) = req_id (sys_heap s) p" by (simp add: req_id_def)
      have p: "p \<in> set (sys_sorted s)" using inv_onceD(3) [OF once, of p] expire(1) by simp
      then have pl: "p \<in> live_refs s" by (simp add: live_refs_def)
      have fin: "final_ids s' = final_ids s @ [req_id (sys_heap s) p]"
        using expire i by (simp add: final_ids_def final_entry_def)
      have "req_id (sys_heap s') q \<notin> set (final_ids s')"
        if q: "q \<in> live_refs s'" "ms_check s' \<noteq> CkDelExpired q" for q
      proof -
        have "q \<in> live_refs s" "q \<noteq> p" using q expire(3-) by (auto simp: live_refs_def)
        then show ?thesis using inv_onceD(4) [OF once, of q] expire inj [of q p] pl fin by auto
      qed
      moreover have "distinct (final_ids s')"
        using fin inv_onceD(1) [OF once] inv_onceD(4) [OF once pl] expire(1) by simp
      moreover have "fst ` set (ms_log s') \<subseteq> ms_seen s'"
        using expire inv_onceD(2) [OF once] seen [OF h] i by auto
      ultimately show ?thesis unfolding inv_once_def using expire p by auto
    next
      case (del_expired p b l)
      have b: "borrow_ok s p" using chk del_expired(1) by (simp add: inv_check_def)
      from delete_shrinks [OF heap ids refs _ _ del_expired(2)] b
      have l: "set (rl_sorted l) \<subseteq> set (sys_sorted s) - {p}" by (simp add: borrow_ok_def)
      have "p \<notin># held s" using b by (auto simp: borrow_ok_def owned_def)
      then have "live_refs s' \<subseteq> live_refs s - {p}"
        using l del_expired by (auto simp: live_refs_def list_update_mon_def)
      then show ?thesis
        by (intro quiet) (use del_expired inv_onceD(2) [OF once] in \<open>auto simp: final_ids_def list_update_mon_def\<close>)
    next
      case (del_retry p b l)
      have b: "borrow_ok s p" using chk del_retry(1) by (simp add: inv_check_def)
      from delete_shrinks [OF heap ids refs _ _ del_retry(2)] b
      have l: "set (rl_sorted l) \<subseteq> set (sys_sorted s) - {p}" by (simp add: borrow_ok_def)
      have "p \<in> set (sys_sorted s)" using inv_onceD(3) [OF once, of p] del_retry(1) by simp
      then have "live_refs s' \<subseteq> live_refs s"
        using l del_retry by (auto simp: live_refs_def list_update_mon_def)
      then show ?thesis
        by (intro quiet) (use del_retry inv_onceD(2) [OF once] in \<open>auto simp: final_ids_def list_update_mon_def\<close>)
    qed
  qed
qed

lemma mon_reach_once: "mon_reach cfg FreshIds s \<Longrightarrow> inv_once s"
proof (induction rule: mon_reach.induct)
  case (start callers db)
  have "held (mon_init cfg callers db) = {#}"
    using init_owned [of cfg callers db] by (simp add: owned_def)
  then show ?case
    by (simp add: inv_once_def live_refs_def final_ids_def mon_init_def NewMonitor_def newMonitorRequestList_def)
next
  case (step s s')
  have safe: "mon_inv FreshIds s" "inv_status s"
    using mon_reach_safe [OF step.hyps(1)] by (simp_all add: mon_safe_def)
  from step.hyps(2) obtain a where act: "act_under cfg FreshIds a s = Some (Some s')" by blast
  show ?case by (rule inv_once_act [OF safe step.IH act])
qed

subsection \<open>Properties\<close>

text \<open>
  Two workers, one caller (thread 2), requests sent to the channel at once, retries after a
  millisecond, a lifetime of one second.
\<close>

definition ex_cfg :: MonitorConfig where
  "ex_cfg = \<lparr>mc_L2NodeURL = ''http://localhost:8467'', mc_Workers = 2, mc_QueueSize = 4, mc_InitialWaitInterval = 0,
     mc_RetryWaitInterval = 1000000, mc_TxLifeTimeMax = 1000000000, mc_RPCReadTimeout = 30000000000\<rparr>"

text \<open>
  One transaction whose receipt is not there at first: it goes through the list, is retried
  and confirmed.
\<close>

definition ex_dial :: "action list" where
  "ex_dial = [ActDial 0 None, ActDial 1 None]"

definition ex_retry_run :: "action list" where
  "ex_retry_run = ex_dial @
     [ActCall 2 (clock 0) (mk_tx 7 ''0x07'' (clock 0)), ActHandoff 0 0,
      ActReceipt 0 ReceiptNotFound, ActRetry 0 (clock 10), ActAdd 0, ActLen 0, ActSignal 0,
      ActCheck (clock 2000000) None, ActCheck (clock 0) None, ActCheck (clock 0) None,
      ActCheck (clock 0) None, ActCheck (clock 0) None,
      ActHandoff 1 0, ActReceipt 1 (Receipt 1), ActUpdate 1 None, ActDelete 1]"

lemma ex_retry_run: "case mon_run ex_cfg FreshIds ex_retry_run (mon_init ex_cfg 1 ()) of
     None \<Rightarrow> False
   | Some s \<Rightarrow> ms_seen s = {7} \<and> ms_log s = [(7, TxStatusConfirmed, None)] \<and> sys_sorted s = []"
  by code_simp

lemma run_state:
  assumes "case mon_run cfg disc xs (mon_init cfg n db) of None \<Rightarrow> False | Some s \<Rightarrow> P s"
  obtains s where "mon_run cfg disc xs (mon_init cfg n db) = Some s" "mon_reach cfg disc s" "P s"
proof (cases "mon_run cfg disc xs (mon_init cfg n db)")
  case (Some s)
  then show ?thesis using assms that [of s] mon_run_reach [OF mon_reach.start Some] by simp
qed (use assms in simp)

lemma never_forgets:
  assumes "mon_reach cfg disc s" "i \<in> ms_seen s"
  shows "i \<in> done_ids s \<or>
    (\<exists>p r. (p \<in> set (sys_sorted s) \<or> p \<in># held s) \<and> sys_heap s p = Some r \<and> tx_Id (l2Tx r) = i)"
proof -
  have safe: "inv_live s" "inv_refs s" using mon_reach_safe [OF assms(1)] by (auto simp: mon_safe_def mon_inv_def)
  consider "i \<in> done_ids s" | p where "p \<in> live_refs s" "i = req_id (sys_heap s) p"
    using safe(1) assms(2) by (auto simp: inv_live_def)
  then show ?thesis
  proof cases
    case (2 p)
    then have "sys_heap s p \<noteq> None"
      using safe(2) by (auto simp: live_refs_def inv_refs_def rl_inv_def owned_def)
    then obtain r where "sys_heap s p = Some r" by blast
    then show ?thesis using 2 by (auto simp: live_refs_def req_id_def)
  qed simp
qed

text \<open>
  C13. The monitor never forgets a transaction, as long as its callers hand over only new
  identifiers, or only transactions of which one hash always has one identifier (duplicates
  included): in every state reached under one of these disciplines, a transaction that was
  handed over is in the retry list, on its way through the channel or in the hands of a
  goroutine, or its final status has been stored, or its expiry has been tried. Failing
  receipts, failing updates and the unsynchronised writes to \<open>nextRetry\<close> change nothing about
  it. The code does not check what it is handed; without a discipline the statement is false
  (lemma \<open>undisciplined_callers\<close>).
\<close>

theorem monitor_never_forgets:
  assumes "mon_reach cfg disc s" "i \<in> ms_seen s"
  shows "i \<in> done_ids s \<or>
    (\<exists>p r. (p \<in> set (sys_sorted s) \<or> p \<in># held s) \<and> sys_heap s p = Some r \<and> tx_Id (l2Tx r) = i)"
  by (rule never_forgets [OF assms])

theorem monitor_never_forgets_witness:
  "\<exists>s. mon_run ex_cfg FreshIds ex_retry_run (mon_init ex_cfg 1 ()) = Some s
     \<and> 7 \<in> done_ids s"
proof -
  obtain s where s: "mon_run ex_cfg FreshIds ex_retry_run (mon_init ex_cfg 1 ()) = Some s"
      "mon_reach ex_cfg FreshIds s"
      "ms_seen s = {7} \<and> ms_log s = [(7, TxStatusConfirmed, None)] \<and> sys_sorted s = []"
    by (rule run_state [OF ex_retry_run])
  then have "7 \<in> ms_seen s" by simp
  from monitor_never_forgets [OF s(2) this] s(1) show ?thesis
    using s(3) by (auto simp: done_ids_def)
qed

text \<open>
  C14. As long as the callers hand over only new identifiers, or only transactions of which one
  hash always has one identifier, the retry list is well-formed in every reachable state
  (sorted, the map and the slice in agreement) although other goroutines write the sort key of
  requests without a lock, and no request is in two places: at most once in the list, in the
  channel, in a goroutine that sends it, or in the hands of a worker. Without a discipline the
  map and the slice can disagree (lemma \<open>undisciplined_callers\<close>).
\<close>

theorem monitor_places:
  assumes "mon_reach cfg disc s"
  shows "rl_inv (sys_heap s) (sys_list s)
    \<and> count (mset (sys_sorted s) + held s + doomed s) p \<le> 1"
proof -
  have refs: "inv_refs s" using mon_reach_safe [OF assms] by (auto simp: mon_safe_def mon_inv_def)
  then have "count (owned s) p \<le> 1" by (simp add: inv_refs_def nodup_def)
  moreover have "count (mset (sys_sorted s)) p \<le> 1"
    using inv_refs_distinct [OF refs] by (simp add: distinct_count_atmost_1)
  moreover have "count (owned s) p = 0" if "p \<in> set (sys_sorted s)"
    using refs that by (auto simp: inv_refs_def count_eq_zero_iff)
  moreover have "count (mset (sys_sorted s)) p = 0" if "p \<notin> set (sys_sorted s)"
    using that by (metis count_eq_zero_iff set_mset_mset)
  ultimately have "count (mset (sys_sorted s)) p + count (owned s) p \<le> 1"
    by (cases "p \<in> set (sys_sorted s)") linarith+
  with inv_refs_list [OF refs] show ?thesis by (simp add: owned_def add.assoc)
qed

theorem monitor_places_witness:
  "\<exists>s. mon_run ex_cfg FreshIds (take 9 ex_retry_run) (mon_init ex_cfg 1 ()) = Some s
     \<and> rl_inv (sys_heap s) (sys_list s) \<and> sys_sorted s = [1]"
proof -
  have "case mon_run ex_cfg FreshIds (take 9 ex_retry_run) (mon_init ex_cfg 1 ()) of
      None \<Rightarrow> False | Some s \<Rightarrow> sys_sorted s = [1]" by code_simp
  then obtain s where s: "mon_run ex_cfg FreshIds (take 9 ex_retry_run) (mon_init ex_cfg 1 ()) = Some s"
      "mon_reach ex_cfg FreshIds s" "sys_sorted s = [1]"
    by (rule run_state)
  from monitor_places [OF s(2)] s show ?thesis by blast
qed

text \<open>
  C15. When every transaction handed over has a new identifier, as the pool database gives
  them out, the monitor decides the status of each at most once: no transaction is stored as
  confirmed or failed twice, or expired after that, or stored after it expired.
\<close>

theorem monitor_final_once:
  assumes "mon_reach cfg FreshIds s"
  shows "distinct (map fst (filter (\<lambda>(i, st, e). st = TxStatusExpired \<or> e = None) (ms_log s)))"
  using inv_onceD(1) [OF mon_reach_once [OF assms]] by (simp add: final_ids_def final_entry_def)

theorem monitor_final_once_witness:
  "\<exists>s. mon_run ex_cfg FreshIds ex_retry_run (mon_init ex_cfg 1 ()) = Some s
     \<and> ms_log s = [(7, TxStatusConfirmed, None)]
     \<and> distinct (map fst (filter (\<lambda>(i, st, e). st = TxStatusExpired \<or> e = None) (ms_log s)))"
proof -
  obtain s where s: "mon_run ex_cfg FreshIds ex_retry_run (mon_init ex_cfg 1 ()) = Some s"
      "mon_reach ex_cfg FreshIds s"
      "ms_seen s = {7} \<and> ms_log s = [(7, TxStatusConfirmed, None)] \<and> sys_sorted s = []"
    by (rule run_state [OF ex_retry_run])
  from monitor_final_once [OF s(2)] s show ?thesis by blast
qed

lemma monitor_safe:
  assumes "mon_reach cfg FreshIds s"
  shows "mon_act cfg a s \<noteq> Some None"
proof
  assume bad: "mon_act cfg a s = Some None"
  have inv: "mon_inv FreshIds s" using mon_reach_safe [OF assms] by (simp add: mon_safe_def)
  from only_panic [OF inv bad] mon_reach_first [OF assms] show False by (metis inv_first_def)
qed

text \<open>
  With new identifiers no reachable state can panic: no nil pointer is followed and no
  index is out of range, in the workers and in the retry loop.
\<close>

lemma monitor_no_panic:
  assumes "mon_reach cfg FreshIds s"
  shows "\<not> mon_panics cfg s"
  using monitor_safe [OF assms] by (simp add: mon_panics_def)

lemma monitor_no_panic_example:
  "\<exists>s. mon_run ex_cfg FreshIds (take 10 ex_retry_run) (mon_init ex_cfg 1 ()) = Some s
     \<and> ms_check s = CkFirst (clock 2000000) \<and> \<not> mon_panics ex_cfg s"
proof -
  have "case mon_run ex_cfg FreshIds (take 10 ex_retry_run) (mon_init ex_cfg 1 ()) of
      None \<Rightarrow> False | Some s \<Rightarrow> ms_check s = CkFirst (clock 2000000)" by code_simp
  then obtain s where s: "mon_run ex_cfg FreshIds (take 10 ex_retry_run) (mon_init ex_cfg 1 ()) = Some s"
      "mon_reach ex_cfg FreshIds s" "ms_check s = CkFirst (clock 2000000)"
    by (rule run_state)
  from monitor_no_panic [OF s(2)] s show ?thesis by blast
qed

text \<open>
  What happens without a discipline: the transactions 1 and 2 have one hash and are listed for one
  instant, and 2 is handed over a second time and confirmed. Deleting it takes 1 out of the
  slice and 2 out of the map. Transaction 1 is now in nobody's hands and has no final status.
\<close>

fun free_run :: "MonitorConfig \<Rightarrow> action list \<Rightarrow> 'd msys \<Rightarrow> 'd msys option" where
  "free_run cfg [] s = Some s"
| "free_run cfg (a # xs) s = (case mon_act cfg a s of Some (Some s') \<Rightarrow> free_run cfg xs s' | _ \<Rightarrow> None)"

definition ex_listed :: "L2Transaction \<Rightarrow> action list" where
  "ex_listed tx = [ActCall 2 (clock 0) tx, ActHandoff 0 0, ActReceipt 0 ReceiptNotFound,
     ActRetry 0 (clock 10), ActAdd 0, ActLen 0]"

definition ex_undisciplined :: "action list" where
  "ex_undisciplined = ex_dial @ ex_listed (mk_tx 1 ''0xaa'' (clock 0)) @ [ActSignal 0]
     @ ex_listed (mk_tx 2 ''0xaa'' (clock 0))
     @ [ActCall 2 (clock 0) (mk_tx 2 ''0xaa'' (clock 0)), ActHandoff 1 0,
        ActReceipt 1 (Receipt 1), ActUpdate 1 None, ActDelete 1]"

lemma undisciplined_callers:
  "case free_run ex_cfg ex_undisciplined (mon_init ex_cfg 1 ()) of
     None \<Rightarrow> False
   | Some s \<Rightarrow> sys_sorted s = [2] \<and> map (rl_list (sys_list s)) [1, 2] = [Some 1, None] \<and> held s = {#}
       \<and> ms_log s = [(2, TxStatusConfirmed, None)] \<and> 1 \<in> ms_seen s"
  by code_simp

definition ex_panic_run :: "action list" where
  "ex_panic_run = ex_dial @
     [ActCall 2 (clock 0) (mk_tx 7 ''0x07'' (clock 0)), ActHandoff 0 0,
      ActReceipt 0 ReceiptNotFound, ActRetry 0 (clock 10), ActAdd 0, ActLen 0, ActSignal 0,
      ActCall 2 (clock 20) (mk_tx 7 ''0x07'' (clock 0)), ActHandoff 1 0,
      ActReceipt 1 (Receipt 1), ActUpdate 1 None,
      ActCheck (clock 30) None, ActDelete 1]"

text \<open>
  When one transaction is handed over twice (it is sent again after the update of its
  status failed), the retry loop can panic: between its \<open>len() > 0\<close> and its
  \<open>getByIndex(0)\<close> a worker that got the receipt for the second request deletes the first
  one, and the list is empty.
\<close>

lemma monitor_index_panic:
  "case mon_run ex_cfg HashIds ex_panic_run (mon_init ex_cfg 1 ()) of
     None \<Rightarrow> False
   | Some s \<Rightarrow> ms_check s = CkFirst (clock 30)
       \<and> (case mon_act ex_cfg (ActCheck (clock 40) None) s of
            Some None \<Rightarrow> True | _ \<Rightarrow> False)"
  by code_simp

text \<open>
  While the retry loop sleeps on a list that is not empty, no worker has an update for a listed
  request. What follows for the whole is in theory \<open>PipelineProps\<close>.
\<close>

lemma asleep_effect:
  assumes "mon_inv FreshIds s" and "asleep s" and "pc_of s t = Some (PcUpdate p st)" and "q \<in> set (sys_sorted s)"
  shows "req_id (sys_heap s) q \<noteq> req_id (sys_heap s) p"
proof -
  have refs: "inv_refs s" and ids: "inv_ids FreshIds s" using assms(1) by (auto simp: mon_inv_def)
  have "p \<in># owned s" using threads_member [OF assms(3), of p pc_held] by (simp add: owned_def held_def)
  then obtain r where r: "sys_heap s p = Some r" "p \<notin> set (sys_sorted s)" by (rule inv_refs_live [OF refs])
  have "q \<in> dom (sys_heap s)" using assms(4) inv_refs_list [OF refs] by (auto simp: rl_inv_def)
  then show ?thesis using ids r assms(4) by (auto simp: inv_ids_def dest: inj_onD)
qed

subsection \<open>Workers that could not dial\<close>

definition dead_workers :: "MonitorConfig \<Rightarrow> 'd msys \<Rightarrow> bool" where
  "dead_workers cfg s \<longleftrightarrow> list_all (\<lambda>c. c = PcDead) (take (unat (mc_Workers cfg)) (ms_threads s))"

definition channel_refs :: "'d msys \<Rightarrow> ref set" where
  "channel_refs s = set (m_sending (ms_mon s)) \<union> set (m_chan (ms_mon s))"

lemma dead_workers_pc:
  "dead_workers cfg s \<Longrightarrow> is_worker cfg t \<Longrightarrow> pc_of s t = Some c \<Longrightarrow> c = PcDead"
  by (auto simp: dead_workers_def is_worker_def pc_of_def index_at_def list_all_length split: if_splits)

lemma dead_workers_set:
  assumes "dead_workers cfg s" and "pc_of s t = Some c" and "c \<noteq> PcDead"
  shows "dead_workers cfg (s'\<lparr>ms_threads := (ms_threads s)[t := d]\<rparr>)"
proof -
  have "\<not> is_worker cfg t" using dead_workers_pc [OF assms(1) _ assms(2)] assms(3) by blast
  then show ?thesis using assms(1) by (simp add: dead_workers_def is_worker_def)
qed

lemma dead_workers_act:
  assumes dead: "dead_workers cfg s" and act: "act_under cfg disc a s = Some (Some s')"
  shows "dead_workers cfg s' \<and> channel_refs s \<subseteq> channel_refs s'"
proof (cases a)
  case (ActReceive t)
  then show ?thesis using act dead_workers_pc [OF dead] by (auto split: if_splits)
next
  case (ActHandoff t i)
  then show ?thesis using act dead_workers_pc [OF dead] by (auto split: if_splits)
next
  case (ActDeliver i)
  have "set xs \<subseteq> insert (xs ! i) (set (take i xs) \<union> set (drop (Suc i) xs))" if "i < length xs" for xs :: "ref list"
    using id_take_nth_drop [OF that] by (metis Un_insert_right list.simps(15) set_append subset_refl)
  then show ?thesis using act ActDeliver dead
    by (fastforce simp: chan_deliver_def channel_refs_def dead_workers_def split: if_splits)
next
  case (ActCheck now err)
  then have check: "check_act cfg now err s = Some (Some s')" using act by simp
  have "dead_workers cfg s'" using check_act_threads [OF check] dead by (simp add: dead_workers_def)
  moreover have "channel_refs s \<subseteq> channel_refs s'"
    using check by (auto simp: check_act_def channel_refs_def Let_def list_update_mon_def enqueueMonitorRequest_def
        split: cpc.splits if_splits)
  ultimately show ?thesis by blast
qed (use act dead in \<open>auto simp: set_pc_def list_update_mon_def Let_def new_request_def enqueueMonitorRequest_def cond_signal_def
      set_nextRetry_def channel_refs_def dead_workers_def dest: dead_workers_pc [OF dead]
      intro: dead_workers_set [OF dead, unfolded dead_workers_def]
      split: if_splits option.splits pc.splits prod.splits bind_splits\<close>)

end
