(* ===== verification/MonitorHandlers.thy ===== *)
theory MonitorHandlers
  imports MonitorProps
begin

section \<open>The handlers of the monitor, one at a time\<close>

text \<open>
  What each handler of theory \<open>Monitor\<close> does on its own, for any database behind the
  interface; what this means for the statuses in the pool database; and that running a
  handler alone is one of the interleavings of theory \<open>MonitorSteps\<close>.
\<close>

subsection \<open>Putting a request back\<close>

text \<open>
  The request \<open>p\<close> with its new \<open>nextRetry\<close> is inserted into the list, and the retry loop is
  woken if the list was empty.
\<close>

definition requeued :: "MonitorConfig \<Rightarrow> gotime \<Rightarrow> ref \<Rightarrow> monitorRequest \<Rightarrow> 'd Monitor \<Rightarrow> 'd Monitor" where
  "requeued cfg now p r m =
     (let h = (m_heap m)(p \<mapsto> r\<lparr>nextRetry := time_add now (mc_RetryWaitInterval cfg)\<rparr>);
          xs = rl_sorted (m_list m)
      in m\<lparr>m_heap := h,
           m_list := \<lparr>rl_list = (rl_list (m_list m))(tx_Id (l2Tx r) \<mapsto> p), rl_sorted = insert_sorted h p xs\<rparr>,
           m_waiting := (m_waiting m \<and> xs \<noteq> [])\<rparr>)"

lemma addRequestToRetryList_new:
  assumes "rl_inv (m_heap m) (m_list m)" "p \<noteq> nil" "m_heap m p = Some r"
    and "rl_list (m_list m) (tx_Id (l2Tx r)) = None"
  shows "addRequestToRetryList p m =
    Some (m\<lparr>m_list := \<lparr>rl_list = (rl_list (m_list m))(tx_Id (l2Tx r) \<mapsto> p),
                      rl_sorted = insert_sorted (m_heap m) p (rl_sorted (m_list m))\<rparr>,
            m_waiting := (m_waiting m \<and> rl_sorted (m_list m) \<noteq> [])\<rparr>)"
  using add_new [OF assms(1,2,3,4)]
  by (cases m) (auto simp: addRequestToRetryList_def len_def cond_signal_def Let_def)

lemma rl_inv_off_list:
  assumes "rl_inv h e" "p \<notin> set (rl_sorted e)"
  shows "rl_inv (h(p \<mapsto> r)) e"
  by (rule rl_inv_cong [OF _ assms(1)]) (use assms(2) in auto)

lemma unlisted_ref:
  assumes "rl_inv h e" "h p = Some r" "rl_list e (tx_Id (l2Tx r)) = None"
  shows "p \<notin> set (rl_sorted e)"
  using assms rl_inv_lookup_None [OF assms(1)] by (force simp: req_id_def)

lemma scheduleRequestRetry_new:
  assumes inv: "rl_inv (m_heap m) (m_list m)" and p: "p \<noteq> nil" "m_heap m p = Some r"
    and new: "rl_list (m_list m) (tx_Id (l2Tx r)) = None"
  shows "scheduleRequestRetry cfg now p m = Some (requeued cfg now p r m)"
    and "rl_inv (m_heap (requeued cfg now p r m)) (m_list (requeued cfg now p r m))"
proof -
  let ?r = "r\<lparr>nextRetry := time_add now (mc_RetryWaitInterval cfg)\<rparr>"
  let ?m = "m\<lparr>m_heap := (m_heap m)(p \<mapsto> ?r)\<rparr>"
  have np: "p \<notin> set (rl_sorted (m_list m))" by (rule unlisted_ref [OF inv p(2) new])
  have inv': "rl_inv (m_heap ?m) (m_list ?m)" using rl_inv_off_list [OF inv np] by simp
  have r: "m_heap ?m p = Some ?r" by simp
  show "scheduleRequestRetry cfg now p m = Some (requeued cfg now p r m)"
    using addRequestToRetryList_new [of ?m p ?r, OF inv' p(1) r] new p
    by (simp add: scheduleRequestRetry_def set_nextRetry_def deref_def requeued_def Let_def)
  show "rl_inv (m_heap (requeued cfg now p r m)) (m_list (requeued cfg now p r m))"
    using rl_inv_insert [of "m_heap ?m" "m_list ?m" p ?r, OF inv' p(1) r] new
    by (simp add: requeued_def Let_def)
qed

subsection \<open>The worker\<close>

lemma worker_result:
  assumes inv: "rl_inv (m_heap m) (m_list m)" and p: "p \<noteq> nil" "m_heap m p = Some r"
    and new: "rl_list (m_list m) (tx_Id (l2Tx r)) = None"
  shows "workerProcessRequest cfg upd node now p m = Some
    (case node (tx_Hash (l2Tx r)) of
       Receipt status \<Rightarrow>
         (case upd (tx_Id (l2Tx r)) (receipt_status status) [] (m_db m) of
            (None, d) \<Rightarrow> m\<lparr>m_db := d\<rparr>
          | (Some e, d) \<Rightarrow> requeued cfg now p r (m\<lparr>m_db := d\<rparr>))
     | _ \<Rightarrow> requeued cfg now p r m)"
proof -
  have d: "deref (m_heap m) p = Some r" using p by (simp add: deref_def)
  have again: "scheduleRequestRetry cfg now p (m\<lparr>m_db := d\<rparr>) = Some (requeued cfg now p r (m\<lparr>m_db := d\<rparr>))" for d
    by (rule scheduleRequestRetry_new(1)) (simp_all add: assms)
  have "delete (m_heap m) p (m_list m) = Some (False, m_list m)"
    using delete_unknown [OF d new] .
  then show ?thesis
    using again again [of "m_db m"] d
    by (simp add: workerProcessRequest_def Let_def split: receipt_result.split prod.split option.split)
qed

text \<open>
  What a worker does to the statuses, for any store behind the interface: the one identifier
  of its request may get the status of the receipt, and nothing else happens.
\<close>

context status_store
begin

lemma worker_statuses:
  assumes "rl_inv (m_heap m) (m_list m)" "p \<noteq> nil" "m_heap m p = Some r"
    and "rl_list (m_list m) (tx_Id (l2Tx r)) = None" "st_inv (m_db m)"
    and "workerProcessRequest cfg update node now p m = Some m'"
  shows "st_inv (m_db m') \<and>
    (case node (tx_Hash (l2Tx r)) of
       Receipt st \<Rightarrow>
         status (m_db m') = set_status (tx_Id (l2Tx r)) (receipt_status st) (status (m_db m))
           \<and> m_list m' = m_list m
         \<or> (status (m_db m') = status (m_db m)
            \<or> status (m_db m') = set_status (tx_Id (l2Tx r)) (receipt_status st) (status (m_db m)))
           \<and> rl_list (m_list m') (tx_Id (l2Tx r)) = Some p
     | _ \<Rightarrow> status (m_db m') = status (m_db m) \<and> rl_list (m_list m') (tx_Id (l2Tx r)) = Some p)"
proof (cases "node (tx_Hash (l2Tx r))")
  case (Receipt st)
  obtain e d where u: "update (tx_Id (l2Tx r)) (receipt_status st) [] (m_db m) = (e, d)" by fastforce
  have "st_inv d" using update_inv [OF assms(5), of "tx_Id (l2Tx r)" "receipt_status st" "[]"] u by simp
  moreover have "m' = (case e of None \<Rightarrow> m\<lparr>m_db := d\<rparr> | Some e \<Rightarrow> requeued cfg now p r (m\<lparr>m_db := d\<rparr>))"
    using worker_result [OF assms(1-4), of cfg update node now] assms(6) Receipt u by simp
  ultimately show ?thesis
    using Receipt u update_ok update_err by (auto simp: requeued_def Let_def split: option.splits)
qed (use worker_result [OF assms(1-4), of cfg update node now] assms(5,6) in
    \<open>auto simp: requeued_def Let_def\<close>)

end

subsection \<open>Registering transactions\<close>

text \<open>
  The state between handlers: the list is well-formed, addresses from \<open>m_next\<close> on are free.
  \<open>monitored\<close> are the transactions of the requests in the list or being sent.
\<close>

definition mon_ok :: "'d Monitor \<Rightarrow> bool" where
  "mon_ok m \<longleftrightarrow> rl_inv (m_heap m) (m_list m) \<and> nil < m_next m \<and> (\<forall>p\<ge>m_next m. m_heap m p = None)
     \<and> (\<forall>p\<in>set (m_sending m). m_heap m p \<noteq> None)"

definition monitored :: "'d Monitor \<Rightarrow> uint64 set" where
  "monitored m = req_id (m_heap m) ` (set (rl_sorted (m_list m)) \<union> set (m_sending m))"

lemma mon_ok_new: "mon_ok (NewMonitor db)" "monitored (NewMonitor db) = {}"
  using rl_inv_new [of Map.empty]
  by (simp_all add: mon_ok_def NewMonitor_def nil_def monitored_def newMonitorRequestList_def)

text \<open>A fresh request changes nothing for the requests there are.\<close>

lemma fresh_request:
  assumes "mon_ok m"
  shows "m_next m \<noteq> nil" "m_heap m (m_next m) = None" "m_next m \<notin> set (rl_sorted (m_list m))"
    "rl_inv ((m_heap m)(m_next m \<mapsto> r)) (m_list m)"
    "p \<in> set (rl_sorted (m_list m)) \<union> set (m_sending m) \<Longrightarrow>
       req_id ((m_heap m)(m_next m \<mapsto> r)) p = req_id (m_heap m) p"
proof -
  show none: "m_heap m (m_next m) = None" and "m_next m \<noteq> nil"
    using assms by (simp_all add: mon_ok_def)
  have live: "m_heap m p \<noteq> None" if "p \<in> set (rl_sorted (m_list m)) \<union> set (m_sending m)" for p
    using that assms by (auto simp: mon_ok_def rl_inv_def)
  show np: "m_next m \<notin> set (rl_sorted (m_list m))" using live none by blast
  show "rl_inv ((m_heap m)(m_next m \<mapsto> r)) (m_list m)"
    using assms np by (intro rl_inv_off_list) (simp_all add: mon_ok_def)
  show "req_id ((m_heap m)(m_next m \<mapsto> r)) p = req_id (m_heap m) p"
    if "p \<in> set (rl_sorted (m_list m)) \<union> set (m_sending m)"
    using live [OF that] none by (auto simp: req_id_def)
qed

lemma add_registers:
  assumes ok: "mon_ok m"
  shows "\<exists>m'. monitorAddL2Transaction cfg now tx m = Some m' \<and> mon_ok m'
    \<and> monitored m' = insert (tx_Id tx) (monitored m) \<and> m_db m' = m_db m"
proof (cases "mc_InitialWaitInterval cfg > 0")
  case False
  let ?r = "\<lparr>l2Tx = tx, nextRetry = zero_time\<rparr>"
  let ?m = "m\<lparr>m_heap := (m_heap m)(m_next m \<mapsto> ?r), m_next := m_next m + 1,
      m_sending := m_sending m @ [m_next m]\<rparr>"
  note fresh = fresh_request(1-3) [OF ok] fresh_request(4,5) [OF ok, where r = ?r]
  have "monitorAddL2Transaction cfg now tx m = Some ?m"
    using False by (simp add: monitorAddL2Transaction_def new_request_def enqueueMonitorRequest_def)
  moreover have "mon_ok ?m" using ok fresh(4) by (auto simp: mon_ok_def)
  moreover have "monitored ?m = insert (tx_Id tx) (monitored m)"
  proof -
    have "req_id (m_heap ?m) ` (set (rl_sorted (m_list m)) \<union> set (m_sending m)) = monitored m"
      unfolding monitored_def using fresh(5) by (intro image_cong) simp_all
    moreover have "req_id (m_heap ?m) (m_next m) = tx_Id tx" by (simp add: req_id_def)
    moreover have "monitored ?m = insert (req_id (m_heap ?m) (m_next m))
        (req_id (m_heap ?m) ` (set (rl_sorted (m_list m)) \<union> set (m_sending m)))"
      by (auto simp: monitored_def)
    ultimately show ?thesis by (simp only:)
  qed
  ultimately show ?thesis by (intro exI [of _ ?m]) simp
next
  case True
  let ?r = "\<lparr>l2Tx = tx, nextRetry = time_add now (mc_InitialWaitInterval cfg)\<rparr>"
  let ?m = "m\<lparr>m_heap := (m_heap m)(m_next m \<mapsto> ?r), m_next := m_next m + 1\<rparr>"
  note fresh = fresh_request(1-3) [OF ok] fresh_request(4,5) [OF ok, where r = ?r]
  have call: "monitorAddL2Transaction cfg now tx m = addRequestToRetryList (m_next m) ?m"
    using True by (simp add: monitorAddL2Transaction_def new_request_def)
  have inv: "rl_inv (m_heap ?m) (m_list ?m)" using fresh(4) by simp
  have r: "m_heap ?m (m_next m) = Some ?r" by simp
  have ids: "req_id (m_heap ?m) ` (set (rl_sorted (m_list m)) \<union> set (m_sending m)) = monitored m"
    unfolding monitored_def using fresh(5) by (intro image_cong) simp_all
  have new: "req_id (m_heap ?m) (m_next m) = tx_Id tx" by (simp add: req_id_def)
  show ?thesis
  proof (cases "rl_list (m_list m) (tx_Id tx)")
    case None
    let ?m' = "?m\<lparr>m_list := \<lparr>rl_list = (rl_list (m_list m))(tx_Id tx \<mapsto> m_next m),
                 rl_sorted = insert_sorted (m_heap ?m) (m_next m) (rl_sorted (m_list m))\<rparr>,
        m_waiting := (m_waiting m \<and> rl_sorted (m_list m) \<noteq> [])\<rparr>"
    have "monitorAddL2Transaction cfg now tx m = Some ?m'"
      using addRequestToRetryList_new [of ?m "m_next m" ?r, OF inv fresh(1) r] None call by simp
    moreover have "mon_ok ?m'"
      using ok rl_inv_insert [of "m_heap ?m" "m_list ?m" "m_next m" ?r, OF inv fresh(1) r] None
      by (auto simp: mon_ok_def)
    moreover have "monitored ?m' = insert (tx_Id tx) (monitored m)"
    proof -
      have "monitored ?m' = insert (req_id (m_heap ?m) (m_next m))
          (req_id (m_heap ?m) ` (set (rl_sorted (m_list m)) \<union> set (m_sending m)))"
        by (auto simp: monitored_def)
      then show ?thesis by (simp only: ids new)
    qed
    ultimately show ?thesis by (intro exI [of _ ?m']) simp
  next
    case (Some q)
    then have q: "q \<in> set (rl_sorted (m_list m))" "req_id (m_heap m) q = tx_Id tx"
      using ok rl_inv_lookup by (auto simp: mon_ok_def)
    let ?m' = "if len (m_list m) = 1 then cond_signal ?m else ?m"
    have "monitorAddL2Transaction cfg now tx m = Some ?m'"
      using add_known [of "m_next m" "m_heap ?m" ?r, OF fresh(1) r] Some call
      by (simp add: addRequestToRetryList_def)
    moreover have "mon_ok ?m'" using ok inv by (auto simp: mon_ok_def cond_signal_def)
    moreover have "monitored ?m' = monitored m"
    proof -
      have "monitored ?m' = req_id (m_heap ?m) ` (set (rl_sorted (m_list m)) \<union> set (m_sending m))"
        by (auto simp: monitored_def cond_signal_def)
      then show ?thesis by (simp only: ids)
    qed
    moreover have "tx_Id tx \<in> monitored m" using q by (force simp: monitored_def)
    ultimately show ?thesis by (intro exI [of _ ?m']) (auto simp: cond_signal_def)
  qed
qed

lemma monitor_all_registers:
  "mon_ok m \<Longrightarrow> \<exists>m'. monitor_all cfg clk k (map Some txs) m = Some m' \<and> mon_ok m'
     \<and> monitored m' = tx_Id ` set txs \<union> monitored m"
proof (induction txs arbitrary: m k)
  case (Cons tx txs)
  obtain m1 where m1: "monitorAddL2Transaction cfg (clk k) tx m = Some m1" "mon_ok m1"
      "monitored m1 = insert (tx_Id tx) (monitored m)"
    using add_registers [OF Cons.prems] by blast
  with Cons.IH [OF m1(2), of "k + 1"] show ?case by auto
qed simp

subsection \<open>Handlers are runs\<close>

lemma mon_run_append:
  "mon_run cfg disc (xs @ ys) s = (case mon_run cfg disc xs s of None \<Rightarrow> None | Some s' \<Rightarrow> mon_run cfg disc ys s')"
  by (induction xs arbitrary: s) (auto split: option.splits)

lemma pc_of_set_pc [simp]: "pc_of s t = Some c \<Longrightarrow> pc_of (set_pc t d s) t = Some d"
  by (auto simp: pc_of_def set_pc_def index_at_def split: if_splits)

lemma set_pc_simps [simp]:
  "ms_mon (set_pc t c s) = ms_mon s" "ms_check (set_pc t c s) = ms_check s"
  "ms_seen (set_pc t c s) = ms_seen s" "ms_log (set_pc t c s) = ms_log s"
  "set_pc t d (set_pc t c s) = set_pc t d s"
  by (simp_all add: set_pc_def)

lemma pc_of_upd [simp]:
  "pc_of (s\<lparr>ms_mon := m\<rparr>) t = pc_of s t" "pc_of (s\<lparr>ms_log := l\<rparr>) t = pc_of s t"
  "set_pc t c (s\<lparr>ms_mon := m\<rparr>) = (set_pc t c s)\<lparr>ms_mon := m\<rparr>"
  "set_pc t c (s\<lparr>ms_log := l\<rparr>) = (set_pc t c s)\<lparr>ms_log := l\<rparr>"
  by (simp_all add: pc_of_def set_pc_def)

text \<open>The three steps of \<open>addRequestToRetryList\<close>, run without interruption.\<close>

lemma add_run_own:
  assumes "pc_of s t = Some (PcAdd p)" "addRequestToRetryList p (ms_mon s) = Some m"
  shows "\<exists>xs. set xs \<subseteq> {ActAdd t, ActLen t, ActSignal t}
    \<and> mon_run cfg disc xs s = Some (set_pc t PcIdle (s\<lparr>ms_mon := m\<rparr>))"
proof -
  obtain b l where add: "add (m_heap (ms_mon s)) p (m_list (ms_mon s)) = Some (b, l)"
      and m: "m = (if len l = 1 then cond_signal ((ms_mon s)\<lparr>m_list := l\<rparr>) else (ms_mon s)\<lparr>m_list := l\<rparr>)"
    using assms(2) by (auto simp: addRequestToRetryList_def Let_def split: bind_splits if_splits)
  show ?thesis
  proof (cases "len l = 1")
    case True
    then show ?thesis using assms(1) add m
      by (intro exI [of _ "[ActAdd t, ActLen t, ActSignal t]"]) (simp add: list_update_mon_def)
  next
    case False
    then show ?thesis using assms(1) add m
      by (intro exI [of _ "[ActAdd t, ActLen t]"]) (simp add: list_update_mon_def)
  qed
qed

lemma add_run:
  assumes "pc_of s t = Some (PcAdd p)" "addRequestToRetryList p (ms_mon s) = Some m"
  shows "\<exists>xs. mon_run cfg disc xs s = Some (set_pc t PcIdle (s\<lparr>ms_mon := m\<rparr>))"
  using add_run_own [OF assms] by blast

lemma retry_run:
  assumes "pc_of s t = Some (PcRetry p)" "scheduleRequestRetry cfg now p (ms_mon s) = Some m"
  shows "\<exists>xs. mon_run cfg disc xs s = Some (set_pc t PcIdle (s\<lparr>ms_mon := m\<rparr>))"
proof -
  obtain m1 where m1: "set_nextRetry p (time_add now (mc_RetryWaitInterval cfg)) (ms_mon s) = Some m1"
      "addRequestToRetryList p m1 = Some m"
    using assms(2) by (auto simp: scheduleRequestRetry_def split: bind_splits)
  let ?s = "set_pc t (PcAdd p) (s\<lparr>ms_mon := m1\<rparr>)"
  have step: "act_under cfg disc (ActRetry t now) s = Some (Some ?s)"
    using assms(1) m1(1) by simp
  have "pc_of ?s t = Some (PcAdd p)" using assms(1) by simp
  from add_run [OF this, of m cfg disc] m1(2)
  obtain xs where "mon_run cfg disc xs ?s = Some (set_pc t PcIdle (?s\<lparr>ms_mon := m\<rparr>))" by auto
  then show ?thesis using step by (intro exI [of _ "ActRetry t now # xs"]) simp
qed

lemma schedule_db:
  "scheduleRequestRetry cfg now p (m\<lparr>m_db := d\<rparr>) =
    map_option (\<lambda>x. x\<lparr>m_db := d\<rparr>) (scheduleRequestRetry cfg now p m)"
  "scheduleRequestRetry cfg now p m = Some m' \<Longrightarrow> m_db m' = m_db m"
  by (auto simp: scheduleRequestRetry_def set_nextRetry_def addRequestToRetryList_def cond_signal_def
      Let_def split: bind_splits)

lemma worker_run:
  assumes pc: "pc_of s t = Some (PcRequest p)"
    and run: "workerProcessRequest cfg upd node now p (ms_mon s) = Some m"
  shows "\<exists>xs log. mon_run cfg disc xs s =
    Some (set_pc t PcIdle (s\<lparr>ms_mon := m\<lparr>m_db := m_db (ms_mon s)\<rparr>, ms_log := ms_log s @ log\<rparr>))"
proof -
  let ?m = "ms_mon s"
  obtain r where r: "deref (m_heap ?m) p = Some r"
    using run by (auto simp: workerProcessRequest_def split: bind_splits)
  define i where "i = tx_Id (l2Tx r)"
  have worker_waits: ?thesis
    if res: "node (tx_Hash (l2Tx r)) = res" "res = ReceiptNotFound \<or> res = ReceiptError msg" for res msg
  proof -
    let ?s1 = "set_pc t (PcRetry p) s"
    have m: "scheduleRequestRetry cfg now p ?m = Some m"
      using run r res by (auto simp: workerProcessRequest_def)
    have step: "act_under cfg disc (ActReceipt t res) s = Some (Some ?s1)"
      using pc r res(2) by auto
    have "pc_of ?s1 t = Some (PcRetry p)" "scheduleRequestRetry cfg now p (ms_mon ?s1) = Some m"
      using pc m by simp_all
    from retry_run [OF this, of disc] obtain xs where
      xs: "mon_run cfg disc xs ?s1 = Some (set_pc t PcIdle (?s1\<lparr>ms_mon := m\<rparr>))" by blast
    have same: "m\<lparr>m_db := m_db ?m\<rparr> = m" using schedule_db(2) [OF m] by simp
    show ?thesis
      by (rule exI [of _ "ActReceipt t res # xs"], rule exI [of _ "[]"]) (simp add: step xs same del: act_under_simps mon_act.simps)
  qed
  show ?thesis
  proof (cases "node (tx_Hash (l2Tx r))")
    case (Receipt st)
    let ?st = "receipt_status st"
    obtain e d where u: "upd i ?st [] (m_db ?m) = (e, d)" by fastforce
    let ?s1 = "set_pc t (PcUpdate p ?st) s"
    let ?s2 = "set_pc t (if e \<noteq> None then PcRetry p else PcDelete p) (s\<lparr>ms_log := ms_log s @ [(i, ?st, e)]\<rparr>)"
    have steps: "mon_run cfg disc [ActReceipt t (Receipt st), ActUpdate t e] s = Some ?s2"
      using pc r by (simp add: i_def)
    show ?thesis
    proof (cases e)
      case None
      then obtain b l where del: "delete (m_heap ?m) p (m_list ?m) = Some (b, l)"
          "m = ?m\<lparr>m_db := d, m_list := l\<rparr>"
        using run r Receipt u by (auto simp: workerProcessRequest_def i_def Let_def split: bind_splits)
      have "mon_run cfg disc [ActDelete t] ?s2 =
          Some (set_pc t PcIdle (s\<lparr>ms_mon := m\<lparr>m_db := m_db ?m\<rparr>, ms_log := ms_log s @ [(i, ?st, e)]\<rparr>))"
        using None del pc by (simp add: list_update_mon_def)
      with steps show ?thesis
        by (intro exI [of _ "[ActReceipt t (Receipt st), ActUpdate t e] @ [ActDelete t]"] exI [of _ "[(i, ?st, e)]"])
          (simp only: mon_run_append option.case)
    next
      case (Some err)
      then have "scheduleRequestRetry cfg now p (?m\<lparr>m_db := d\<rparr>) = Some m"
        using run r Receipt u by (auto simp: workerProcessRequest_def i_def Let_def)
      then obtain m0 where m0: "scheduleRequestRetry cfg now p ?m = Some m0" "m = m0\<lparr>m_db := d\<rparr>"
        using schedule_db(1) [of cfg now p d ?m] by auto
      have m0': "m\<lparr>m_db := m_db ?m\<rparr> = m0" using m0(2) schedule_db(2) [OF m0(1)] by simp
      have "pc_of ?s2 t = Some (PcRetry p)" "scheduleRequestRetry cfg now p (ms_mon ?s2) = Some m0"
        using Some pc m0(1) by simp_all
      from retry_run [OF this, of disc] obtain xs where
        xs: "mon_run cfg disc xs ?s2 = Some (set_pc t PcIdle (?s2\<lparr>ms_mon := m0\<rparr>))" by blast
      show ?thesis
        by (rule exI [of _ "[ActReceipt t (Receipt st), ActUpdate t e] @ xs"], rule exI [of _ "[(i, ?st, e)]"])
          (simp only: mon_run_append steps option.case xs m0', simp)
    qed
  qed (use worker_waits in blast)+
qed

lemma check_run:
  assumes ck: "ms_check s = CkLen"
    and run: "checkMonitorRequestRetries cfg upd now (ms_mon s) = Some (res, m)"
  shows "\<exists>xs log. mon_run cfg disc xs s =
    Some (s\<lparr>ms_mon := m\<lparr>m_db := m_db (ms_mon s)\<rparr>,
            ms_check := (if res = CheckWait then CkWaiting else CkLen), ms_log := ms_log s @ log\<rparr>)"
proof (cases "len (m_list (ms_mon s)) > 0")
  case False
  then have "res = CheckWait" "m = (ms_mon s)\<lparr>m_waiting := True\<rparr>"
    using run by (simp_all add: checkMonitorRequestRetries_def)
  then show ?thesis using False ck
    by (intro exI [of _ "replicate 2 (ActCheck now None)"] exI [of _ "[]"])
      (simp add: check_act_def numeral_2_eq_2 Let_def)
next
  case True
  then obtain p r where p: "getByIndex 0 (m_list (ms_mon s)) = Some p" "deref (m_heap (ms_mon s)) p = Some r"
    using run by (auto simp: checkMonitorRequestRetries_def split: bind_splits)
  let ?s = "s\<lparr>ms_check := CkDecide now p\<rparr>"
  have start: "mon_run cfg disc (replicate 2 (ActCheck now None)) s = Some ?s"
    using True ck p by (simp add: check_act_def numeral_2_eq_2 Let_def)
  consider (expired) "has_expired cfg now r" | (retried) "\<not> has_expired cfg now r" "time_before (nextRetry r) now"
    | (sleep) "\<not> has_expired cfg now r" "\<not> time_before (nextRetry r) now" by blast
  then obtain xs log where "mon_run cfg disc xs ?s =
      Some (s\<lparr>ms_mon := m\<lparr>m_db := m_db (ms_mon s)\<rparr>,
            ms_check := (if res = CheckWait then CkWaiting else CkLen), ms_log := ms_log s @ log\<rparr>)"
  proof cases
    case expired
    obtain e d where u: "upd (tx_Id (l2Tx r)) TxStatusExpired [] (m_db (ms_mon s)) = (e, d)" by fastforce
    then obtain b l where "delete (m_heap (ms_mon s)) p (m_list (ms_mon s)) = Some (b, l)"
        "res = CheckExpired" "m = (ms_mon s)\<lparr>m_db := d, m_list := l\<rparr>"
      using run True p expired by (auto simp: checkMonitorRequestRetries_def Let_def split: bind_splits)
    then show ?thesis using p expired
      by (intro that [of "replicate 3 (ActCheck now e)" "[(tx_Id (l2Tx r), TxStatusExpired, e)]"])
        (simp add: check_act_def numeral_3_eq_3 Let_def list_update_mon_def)
  next
    case retried
    then obtain b l where "delete (m_heap (ms_mon s)) p (m_list (ms_mon s)) = Some (b, l)"
        "res = CheckRetried" "m = enqueueMonitorRequest p ((ms_mon s)\<lparr>m_list := l\<rparr>)"
      using run True p by (auto simp: checkMonitorRequestRetries_def Let_def split: bind_splits)
    then show ?thesis using p retried
      by (intro that [of "replicate 3 (ActCheck now None)" "[]"])
        (simp add: check_act_def numeral_3_eq_3 Let_def list_update_mon_def enqueueMonitorRequest_def)
  next
    case sleep
    then have "m = ms_mon s" "res = CheckSleep (time_sub (nextRetry r) now)"
      using run True p by (simp_all add: checkMonitorRequestRetries_def)
    then show ?thesis using p sleep
      by (intro that [of "replicate 2 (ActCheck now None)" "[]"])
        (simp add: check_act_def numeral_2_eq_2 Let_def)
  qed
  then show ?thesis
    by (intro exI [of _ "replicate 2 (ActCheck now None) @ xs"] exI [of _ log])
      (simp only: mon_run_append start option.case)
qed

subsection \<open>Properties\<close>

text \<open>
  C17. One pass of the retry loop over a well-formed list: an empty list makes it wait; the
  request with the earliest retry is dropped as expired once its lifetime is over, whatever
  the database answers to the status update; it is taken out and sent to the workers when
  its retry is due; and otherwise the loop sleeps, for no negative time, and changes nothing.
\<close>

theorem check_pass:
  assumes "rl_inv (m_heap m) (m_list m)"
  shows "checkMonitorRequestRetries cfg upd now m =
    (case GetSorted (m_list m) of
       [] \<Rightarrow> Some (CheckWait, m\<lparr>m_waiting := True\<rparr>)
     | p # ps \<Rightarrow>
         (let r = the (m_heap m p); l = \<lparr>rl_list = (rl_list (m_list m))(tx_Id (l2Tx r) := None), rl_sorted = ps\<rparr> in
          if time_before (time_add (tx_ReceivedAt (l2Tx r)) (mc_TxLifeTimeMax cfg)) now
          then Some (CheckExpired, m\<lparr>m_db := snd (upd (tx_Id (l2Tx r)) TxStatusExpired [] (m_db m)), m_list := l\<rparr>)
          else if time_before (nextRetry r) now
          then Some (CheckRetried, m\<lparr>m_list := l, m_sending := m_sending m @ [p]\<rparr>)
          else Some (CheckSleep (time_sub (nextRetry r) now), m)))
    \<and> (\<forall>d m'. checkMonitorRequestRetries cfg upd now m = Some (CheckSleep d, m') \<longrightarrow> 0 \<le> d)"
proof (cases "rl_sorted (m_list m)")
  case Nil
  then show ?thesis by (simp add: checkMonitorRequestRetries_def GetSorted_def len_def)
next
  case (Cons p ps)
  define r where "r = the (m_heap m p)"
  have p: "getByIndex 0 (m_list m) = Some p" using Cons by (simp add: getByIndex_def)
  have d: "deref (m_heap m) p = Some r" using rl_inv_deref [OF assms] Cons by (simp add: r_def)
  then have "delete (m_heap m) p (m_list m) = Some (True, remove_req (m_heap m) p (m_list m))"
    using Cons by (intro delete_first_of_ms [OF assms]) (simp_all add: first_of_ms_def req_id_def r_def)
  then have "delete (m_heap m) p (m_list m) =
      Some (True, \<lparr>rl_list = (rl_list (m_list m))(tx_Id (l2Tx r) := None), rl_sorted = ps\<rparr>)"
    using Cons by (simp add: remove_req_def req_id_def r_def)
  then show ?thesis
    using Cons p d time_not_before_sub [of "nextRetry r" now]
    by (simp add: checkMonitorRequestRetries_def GetSorted_def len_def has_expired_def r_def [symmetric]
        Let_def enqueueMonitorRequest_def split: prod.split)
qed

text \<open>A monitor with one listed request, due at the second 600, over a database that is down.\<close>

definition ex_down :: "uint64 \<Rightarrow> gostring \<Rightarrow> gostring \<Rightarrow> unit \<Rightarrow> goerror \<times> unit" where
  "ex_down i s msg d = (Some ''db down'', ())"

definition ex_mon :: "unit Monitor" where
  "ex_mon = (NewMonitor ())\<lparr>m_heap := ex_heap, m_next := 6,
     m_list := \<lparr>rl_list = [1 \<mapsto> 1], rl_sorted = [1]\<rparr>\<rparr>"

lemma ex_mon_inv: "rl_inv (m_heap ex_mon) (m_list ex_mon)"
  by (auto simp: rl_inv_def ex_mon_def ex_heap_def nil_def req_id_def mk_tx_def)

theorem check_pass_witness:
  "map_option (\<lambda>(res, m). (res, rl_sorted (m_list m)))
     (checkMonitorRequestRetries ex_cfg ex_down (clock 2000000000) ex_mon) = Some (CheckExpired, [])"
  using check_pass [OF ex_mon_inv, of ex_cfg ex_down "clock 2000000000"]
  by (simp add: GetSorted_def ex_mon_def ex_heap_def ex_cfg_def mk_tx_def clock_def zero_time_def
      time_before_def time_add_def Let_def)

text \<open>
  C18. A worker that processes a request for a transaction which is not in the retry list,
  over the pool database: no other transaction changes its status; without a receipt the
  statuses stay and the request goes back into the list; with a receipt the transaction gets
  the status of the receipt, or the update failed and the request is in the list again.
\<close>

theorem worker_outcome:
  assumes "rl_inv (m_heap m) (m_list m)" "p \<noteq> nil" "m_heap m p = Some r"
    and "rl_list (m_list m) (tx_Id (l2Tx r)) = None" "db_inv (m_db m)"
  shows "\<exists>m'. workerProcessRequest cfg UpdateL2TransactionStatus node now p m = Some m'
    \<and> db_inv (m_db m')
    \<and> (\<forall>j. j \<noteq> tx_Id (l2Tx r) \<longrightarrow> status_of (m_db m') j = status_of (m_db m) j)
    \<and> (case node (tx_Hash (l2Tx r)) of
         Receipt st \<Rightarrow>
           status_of (m_db m') = set_status (tx_Id (l2Tx r)) (receipt_status st) (status_of (m_db m))
             \<and> m_list m' = m_list m
           \<or> rl_list (m_list m') (tx_Id (l2Tx r)) = Some p
       | _ \<Rightarrow> status_of (m_db m') = status_of (m_db m) \<and> rl_list (m_list m') (tx_Id (l2Tx r)) = Some p)"
proof -
  obtain m' where m': "workerProcessRequest cfg UpdateL2TransactionStatus node now p m = Some m'"
    using worker_result [OF assms(1-4), of cfg UpdateL2TransactionStatus node now] by blast
  from pool_store.worker_statuses [OF assms m'] m' show ?thesis
    by (intro exI [of _ m']) (auto split: receipt_result.splits)
qed

definition ex_sent_db :: "(nat \<Rightarrow> stmt_event) \<Rightarrow> PoolDB" where
  "ex_sent_db env = (NewPoolDB env)\<lparr>db_rows := [\<lparr>row_tx = ex_tx\<lparr>tx_Id := 1, tx_Status := TxStatusSent\<rparr>,
     row_updated_at = clock 0, row_error = None\<rparr>], db_seq := 2\<rparr>"

lemma ex_sent_db_inv: "db_inv (ex_sent_db env)"
  by (simp add: db_inv_def ex_sent_db_def NewPoolDB_def row_id_def max_serial_def)

theorem worker_outcome_witness:
  "let m = (NewMonitor (ex_sent_db calm))\<lparr>m_heap := ex_heap, m_next := 6\<rparr> in
   \<exists>m'. workerProcessRequest ex_cfg UpdateL2TransactionStatus (\<lambda>h. Receipt 1) (clock 0) 1 m = Some m'
      \<and> status_of (m_db m') = set_status 1 TxStatusConfirmed (status_of (m_db m))"
proof -
  let ?m = "(NewMonitor (ex_sent_db calm))\<lparr>m_heap := ex_heap, m_next := 6\<rparr>"
  have inv: "rl_inv (m_heap ?m) (m_list ?m)" by (simp add: NewMonitor_def rl_inv_new)
  have p: "(1::ref) \<noteq> nil" "m_heap ?m 1 = Some (the (ex_heap 1))"
      "rl_list (m_list ?m) (tx_Id (l2Tx (the (ex_heap 1)))) = None"
    by (simp_all add: nil_def ex_heap_def NewMonitor_def newMonitorRequestList_def)
  have db: "db_inv (m_db ?m)" by (simp add: NewMonitor_def ex_sent_db_inv)
  obtain m' where m': "workerProcessRequest ex_cfg UpdateL2TransactionStatus (\<lambda>h. Receipt 1) (clock 0) 1 ?m = Some m'"
      and c: "status_of (m_db m') = set_status 1 TxStatusConfirmed (status_of (m_db ?m)) \<and> m_list m' = m_list ?m
        \<or> rl_list (m_list m') 1 = Some 1"
    using worker_outcome [OF inv p db, of ex_cfg "\<lambda>h. Receipt 1" "clock 0"]
    by (auto simp: receipt_status_def ex_heap_def mk_tx_def)
  have "m' = ?m\<lparr>m_db := snd (UpdateL2TransactionStatus 1 TxStatusConfirmed [] (m_db ?m))\<rparr>"
    using worker_result [OF inv p, of ex_cfg UpdateL2TransactionStatus "\<lambda>h. Receipt 1" "clock 0"] m'
    by (simp add: receipt_status_def ex_heap_def mk_tx_def UpdateL2TransactionStatus_def NewMonitor_def
        ex_sent_db_def NewPoolDB_def calm_def)
  then have "rl_list (m_list m') 1 = None" by (simp add: NewMonitor_def newMonitorRequestList_def)
  with m' c show ?thesis by (auto simp: Let_def)
qed

text \<open>
  At its start the monitor takes up every transaction that the database has as sent:
  with a query that runs to its end, the call returns and the transactions monitored are
  those before and the identifiers of the rows with status sent, whatever the initial wait.
\<close>

lemma startup_monitors_sent:
  assumes "mon_ok m" "faithful_query q" "q_cut q = None"
    and "st_out (db_env (m_db m) (db_tick (m_db m))) = StOk"
  shows "\<exists>m'. monitorL2TransactionsFromPoolDB cfg clk (GetL2TransactionsToMonitor q) m = Some m'
    \<and> monitored m' = row_id ` {r \<in> set (db_rows (m_db m)). row_status r = TxStatusSent} \<union> monitored m"
proof -
  let ?rows = "q_order q (rows_with_status TxStatusSent (m_db m))"
  obtain d where get: "GetL2TransactionsToMonitor q (m_db m) = (Inr (map Some (map row_tx ?rows)), d)"
    using query_result [OF assms(2,4), of TxStatusSent] assms(3)
    by (cases "GetL2TransactionsByStatus q TxStatusSent (m_db m)") (simp add: GetL2TransactionsToMonitor_def)
  have "mset ?rows = mset (rows_with_status TxStatusSent (m_db m))"
    using assms(2) by (simp add: faithful_query_def)
  from mset_eq_setD [OF this]
  have rows: "set ?rows = {r \<in> set (db_rows (m_db m)). row_status r = TxStatusSent}"
    by (simp add: rows_with_status_def)
  have "mon_ok (m\<lparr>m_db := d\<rparr>)" using assms(1) by (simp add: mon_ok_def)
  from monitor_all_registers [OF this, of cfg clk 0 "map row_tx ?rows"]
  obtain m' where m': "monitor_all cfg clk 0 (map Some (map row_tx ?rows)) (m\<lparr>m_db := d\<rparr>) = Some m'"
      "monitored m' = tx_Id ` set (map row_tx ?rows) \<union> monitored (m\<lparr>m_db := d\<rparr>)" by blast
  have ids: "tx_Id ` set (map row_tx ?rows) = row_id ` set ?rows"
    by (simp add: image_image row_id_def)
  have call: "monitorL2TransactionsFromPoolDB cfg clk (GetL2TransactionsToMonitor q) m =
      monitor_all cfg clk 0 (map Some (map row_tx ?rows)) (m\<lparr>m_db := d\<rparr>)"
    unfolding monitorL2TransactionsFromPoolDB_def get Let_def by simp
  have same: "monitored (m\<lparr>m_db := d\<rparr>) = monitored m" by (simp add: monitored_def)
  show ?thesis
    using m'(2) unfolding ids rows same by (intro exI [of _ m'] conjI) (simp_all only: call m'(1))
qed

lemma startup_monitors_sent_example:
  "\<exists>m'. monitorL2TransactionsFromPoolDB ex_cfg (\<lambda>k. clock 0) (GetL2TransactionsToMonitor (in_order_query None))
          (NewMonitor (ex_sent_db calm)) = Some m' \<and> monitored m' = {1}"
proof -
  have c: "q_cut (in_order_query None) = None" by (simp add: in_order_query_def)
  have o: "st_out (db_env (m_db (NewMonitor (ex_sent_db calm))) (db_tick (m_db (NewMonitor (ex_sent_db calm))))) = StOk"
    by (simp add: NewMonitor_def ex_sent_db_def NewPoolDB_def calm_def)
  have "row_id ` {r \<in> set (db_rows (m_db (NewMonitor (ex_sent_db calm)))). row_status r = TxStatusSent} = {1}"
    by (auto simp: NewMonitor_def ex_sent_db_def row_id_def row_status_def)
  with startup_monitors_sent [OF mon_ok_new(1) faithful_in_order c o] mon_ok_new(2) show ?thesis by fastforce
qed

text \<open>
  C19. One pass of the retry loop, run on its own, is a run of the interleaved system: same
  list, same requests, same channel, and the loop waits exactly when the pass ends waiting.
\<close>

theorem check_pass_is_run:
  assumes "ms_check s = CkLen" "checkMonitorRequestRetries cfg upd now (ms_mon s) = Some (res, m)"
  shows "\<exists>xs log. mon_run cfg disc xs s =
    Some (s\<lparr>ms_mon := m\<lparr>m_db := m_db (ms_mon s)\<rparr>,
            ms_check := (if res = CheckWait then CkWaiting else CkLen), ms_log := ms_log s @ log\<rparr>)"
  by (rule check_run [OF assms])

theorem check_pass_is_run_witness:
  "\<exists>xs s'. mon_run ex_cfg FreshIds xs (mon_init ex_cfg 0 ()) = Some s'
     \<and> ms_check s' = CkWaiting \<and> m_waiting (ms_mon s')"
proof -
  have c: "ms_check (mon_init ex_cfg 0 ()) = CkLen" by (simp add: mon_init_def)
  have p: "checkMonitorRequestRetries ex_cfg ex_down (clock 0) (ms_mon (mon_init ex_cfg 0 ())) =
      Some (CheckWait, (NewMonitor ())\<lparr>m_waiting := True\<rparr>)"
    by (simp add: checkMonitorRequestRetries_def mon_init_def NewMonitor_def newMonitorRequestList_def len_def)
  from check_pass_is_run [OF c p, of FreshIds] show ?thesis by fastforce
qed

text \<open>
  C20. A worker that processes a request without interruption is a run of the interleaved
  system: from the request received to the idle worker, with the effect of the handler.
\<close>

theorem worker_is_run:
  assumes "pc_of s t = Some (PcRequest p)"
    and "workerProcessRequest cfg upd node now p (ms_mon s) = Some m"
  shows "\<exists>xs log. mon_run cfg disc xs s =
    Some (set_pc t PcIdle (s\<lparr>ms_mon := m\<lparr>m_db := m_db (ms_mon s)\<rparr>, ms_log := ms_log s @ log\<rparr>))"
  by (rule worker_run [OF assms])

theorem worker_is_run_witness:
  "let s = (mon_init ex_cfg 0 ())\<lparr>ms_mon := (NewMonitor ())\<lparr>m_heap := ex_heap, m_next := 6\<rparr>,
                                  ms_threads := [PcRequest 1, PcIdle]\<rparr> in
   \<exists>xs s'. mon_run ex_cfg FreshIds xs s = Some s' \<and> rl_sorted (m_list (ms_mon s')) = [1] \<and> pc_of s' 0 = Some PcIdle"
proof -
  let ?s = "(mon_init ex_cfg 0 ())\<lparr>ms_mon := (NewMonitor ())\<lparr>m_heap := ex_heap, m_next := 6\<rparr>,
                                  ms_threads := [PcRequest 1, PcIdle]\<rparr>"
  have pc: "pc_of ?s 0 = Some (PcRequest 1)" by (simp add: pc_of_def)
  have inv: "rl_inv (m_heap (ms_mon ?s)) (m_list (ms_mon ?s))" by (simp add: NewMonitor_def rl_inv_new)
  have p: "(1::ref) \<noteq> nil" "m_heap (ms_mon ?s) 1 = Some (the (ex_heap 1))"
      "rl_list (m_list (ms_mon ?s)) (tx_Id (l2Tx (the (ex_heap 1)))) = None"
    by (simp_all add: nil_def ex_heap_def NewMonitor_def newMonitorRequestList_def)
  obtain m where m: "workerProcessRequest ex_cfg ex_down (\<lambda>h. ReceiptNotFound) (clock 0) 1 (ms_mon ?s) = Some m"
      "rl_sorted (m_list m) = [1]"
    using worker_result [OF inv p, of ex_cfg ex_down "\<lambda>h. ReceiptNotFound" "clock 0"]
    by (simp add: requeued_def insert_sorted_def NewMonitor_def newMonitorRequestList_def)
  from worker_is_run [OF pc m(1), of FreshIds] obtain xs log where
    "mon_run ex_cfg FreshIds xs ?s = Some (set_pc 0 PcIdle (?s\<lparr>ms_mon := m\<lparr>m_db := m_db (ms_mon ?s)\<rparr>,
        ms_log := ms_log ?s @ log\<rparr>))" by blast
  then show ?thesis using m(2) unfolding Let_def by (intro exI conjI) (auto simp: pc_of_def set_pc_def)
qed

end
