(* ===== verification/Sender.thy ===== *)
theory Sender
  imports PoolDB
begin

section \<open>The sender\<close>

text \<open>
  Model of \<open>sender/sender.go\<close> with its queue as one caller sees it who is alone: theory
  \<open>SenderQueue\<close> has the channel, the workers and many callers at the same time. Here the request
  of a call goes to a worker and the answer back, if there is a worker that has dialled
  (\<open>live\<close>); if there is none, nobody ever receives the request and \<open>request.wg.Wait()\<close> does not
  return. The sender's functions transform the state \<open>'st\<close> of what it calls: \<open>upd\<close> is
  \<open>UpdateL2TransactionStatus\<close> of the interface \<open>poolDBInterface\<close>, \<open>madd\<close> is \<open>AddL2Transaction\<close>
  of \<open>monitorInterface\<close>, and \<open>call\<close> is the JSON-RPC client: it takes the parameter of
  \<open>eth_sendRawTransaction\<close> and gives the error of the call, at the latest that of the timeout.

  A result \<^term>\<open>None\<close> stands for a call that does not return: it panics on a nil pointer,
  or it waits for ever.
\<close>

type_synonym 'st update_op = "uint64 \<Rightarrow> gostring \<Rightarrow> gostring \<Rightarrow> 'st \<Rightarrow> goerror \<times> 'st"
type_synonym 'st call_op = "gostring \<Rightarrow> 'st \<Rightarrow> goerror \<times> 'st"
type_synonym 'st madd_op = "L2Transaction \<Rightarrow> 'st \<Rightarrow> 'st option"
type_synonym 'st query_op = "'st \<Rightarrow> (gostring + L2Transaction option list) \<times> 'st"

subsection \<open>Operations\<close>

definition senderWorkerProcessRequest :: "'st call_op \<Rightarrow> L2Transaction \<Rightarrow> 'st \<Rightarrow> goerror \<times> 'st" where
  "senderWorkerProcessRequest call tx s = call (tx_Encoded tx) s"

text \<open>
  \<open>enqueueSenderRequest\<close> and \<open>wg.Wait()\<close>: the caller goes on when a worker has taken its request,
  stored the error and called \<open>wg.Done()\<close>.
\<close>

definition enqueue_and_wait :: "('st \<Rightarrow> bool) \<Rightarrow> 'st call_op \<Rightarrow> L2Transaction \<Rightarrow> 'st \<Rightarrow> (goerror \<times> 'st) option" where
  "enqueue_and_wait live call tx s = (if live s then Some (senderWorkerProcessRequest call tx s) else None)"

definition SendL2Transaction ::
  "('st \<Rightarrow> bool) \<Rightarrow> 'st update_op \<Rightarrow> 'st call_op \<Rightarrow> 'st madd_op \<Rightarrow> L2Transaction option \<Rightarrow> 'st \<Rightarrow> (goerror \<times> 'st) option" where
  "SendL2Transaction live upd call madd l2Tx s = do {
     tx \<leftarrow> l2Tx;
     (err, s1) \<leftarrow> enqueue_and_wait live call tx s;
     case err of
       Some e \<Rightarrow> (let (err2, s2) = upd (tx_Id tx) TxStatusInvalid e s1 in Some (err, s2))
     | None \<Rightarrow> (let (err2, s2) = upd (tx_Id tx) TxStatusSent [] s1 in do {
         s3 \<leftarrow> madd tx s2;
         Some (err, s3) }) }"

text \<open>The loops over a query's result: errors of single transactions are only logged.\<close>

fun send_all ::
  "('st \<Rightarrow> bool) \<Rightarrow> 'st update_op \<Rightarrow> 'st call_op \<Rightarrow> 'st madd_op \<Rightarrow> L2Transaction option list \<Rightarrow> 'st \<Rightarrow> 'st option" where
  "send_all live upd call madd [] s = Some s"
| "send_all live upd call madd (l2Tx # txs) s = do {
     (err, s') \<leftarrow> SendL2Transaction live upd call madd l2Tx s;
     send_all live upd call madd txs s' }"

definition sendL2TransactionsFromPoolDB ::
  "('st \<Rightarrow> bool) \<Rightarrow> 'st update_op \<Rightarrow> 'st call_op \<Rightarrow> 'st madd_op \<Rightarrow> 'st query_op \<Rightarrow> 'st \<Rightarrow> 'st option" where
  "sendL2TransactionsFromPoolDB live upd call madd get s =
     (let (res, s1) = get s;
          l2Txs = (case res of Inl err \<Rightarrow> [] | Inr txs \<Rightarrow> txs)
      in send_all live upd call madd l2Txs s1)"

text \<open>
  One pass of the loop of \<open>checkL2TransactionsToResend\<close>, with whether it sleeps at the end.
  \<open>noRows\<close> is the error \<open>pgx.ErrNoRows\<close>, with which the pass goes on over no rows.
\<close>

definition checkL2TransactionsToResend ::
  "gostring \<Rightarrow> ('st \<Rightarrow> bool) \<Rightarrow> 'st update_op \<Rightarrow> 'st call_op \<Rightarrow> 'st madd_op \<Rightarrow> 'st query_op \<Rightarrow> 'st \<Rightarrow> (bool \<times> 'st) option" where
  "checkL2TransactionsToResend noRows live upd call madd get s =
     (let (res, s1) = get s in
      if (case res of Inl e \<Rightarrow> e \<noteq> noRows | Inr _ \<Rightarrow> False) then Some (True, s1)
      else (let txs = (case res of Inl e \<Rightarrow> [] | Inr txs \<Rightarrow> txs) in do {
        s2 \<leftarrow> send_all live upd call madd txs s1;
        Some (txs = [], s2) }))"

subsection \<open>The contract of the environment\<close>

text \<open>
  What the sender relies on: a worker that has dialled; a store of statuses behind \<open>upd\<close>; a monitor whose
  \<open>AddL2Transaction\<close> returns in every good state, keeps the statuses, and takes up the
  transaction; calls to the sequencer that keep both.
\<close>

locale sender_env = status_store st_inv status upd
  for st_inv :: "'st \<Rightarrow> bool" and status :: "'st \<Rightarrow> uint64 \<Rightarrow> gostring option"
    and upd :: "'st update_op" +
  fixes live :: "'st \<Rightarrow> bool" and call :: "'st call_op" and madd :: "'st madd_op" and watched :: "'st \<Rightarrow> uint64 set"
  assumes good_live: "st_inv s \<Longrightarrow> live s"
    and call_inv: "st_inv s \<Longrightarrow> st_inv (snd (call payload s))"
    and call_status: "status (snd (call payload s)) = status s"
    and call_watched: "watched (snd (call payload s)) = watched s"
    and upd_watched: "watched (snd (upd i st m s)) = watched s"
    and madd_total: "st_inv s \<Longrightarrow> \<exists>s'. madd tx s = Some s' \<and> st_inv s'
          \<and> status s' = status s \<and> watched s' = insert (tx_Id tx) (watched s)"
begin

text \<open>One call: what the sequencer said decides everything.\<close>

lemma send_result:
  assumes "st_inv s" "call (tx_Encoded tx) s = (err, s1)"
  shows "\<exists>s'. SendL2Transaction live upd call madd (Some tx) s = Some (err, s') \<and> st_inv s'
    \<and> (status s' = status s
       \<or> status s' = set_status (tx_Id tx) (if err = None then TxStatusSent else TxStatusInvalid) (status s))
    \<and> watched s' = (if err = None then insert (tx_Id tx) (watched s) else watched s)"
proof -
  note live = good_live [OF assms(1)]
  have s1: "st_inv s1" "status s1 = status s" "watched s1 = watched s"
    using call_inv [OF assms(1)] call_status call_watched assms(2) by (metis snd_conv)+
  show ?thesis
  proof (cases err)
    case None
    let ?s2 = "snd (upd (tx_Id tx) TxStatusSent [] s1)"
    have i2: "st_inv ?s2" by (rule update_inv [OF s1(1)])
    obtain s3 where s3: "madd tx ?s2 = Some s3" "st_inv s3" "status s3 = status ?s2"
        "watched s3 = insert (tx_Id tx) (watched ?s2)"
      using madd_total [OF i2] by blast
    have "SendL2Transaction live upd call madd (Some tx) s = Some (None, s3)"
      using assms(2) None s3(1)
      by (cases "upd (tx_Id tx) TxStatusSent [] s1")
        (simp add: SendL2Transaction_def enqueue_and_wait_def senderWorkerProcessRequest_def live)
    then show ?thesis
      using s3 s1 update_either [of "tx_Id tx" TxStatusSent "[]" s1] upd_watched None by auto
  next
    case (Some e)
    let ?s2 = "snd (upd (tx_Id tx) TxStatusInvalid e s1)"
    have "SendL2Transaction live upd call madd (Some tx) s = Some (err, ?s2)"
      using assms(2) Some
      by (cases "upd (tx_Id tx) TxStatusInvalid e s1")
        (simp add: SendL2Transaction_def enqueue_and_wait_def senderWorkerProcessRequest_def live)
    then show ?thesis
      using update_inv [OF s1(1)] s1 update_either [of "tx_Id tx" TxStatusInvalid e s1] upd_watched Some
      by auto
  qed
qed

text \<open>The same when the update is known to succeed.\<close>

lemma send_stored:
  assumes "st_inv s" "call (tx_Encoded tx) s = (err, s1)"
    and "fst (upd (tx_Id tx) (if err = None then TxStatusSent else TxStatusInvalid)
            (case err of None \<Rightarrow> [] | Some e \<Rightarrow> e) s1) = None"
  shows "\<exists>s'. SendL2Transaction live upd call madd (Some tx) s = Some (err, s')
    \<and> status s' = set_status (tx_Id tx) (if err = None then TxStatusSent else TxStatusInvalid) (status s)"
proof -
  note live = good_live [OF assms(1)]
  have s1: "st_inv s1" "status s1 = status s"
    using call_inv [OF assms(1)] call_status assms(2) by (metis snd_conv)+
  show ?thesis
  proof (cases err)
    case None
    obtain s2 where s2: "upd (tx_Id tx) TxStatusSent [] s1 = (None, s2)"
      using assms(3) None by (cases "upd (tx_Id tx) TxStatusSent [] s1") simp
    have "st_inv s2" using update_inv [OF s1(1), of "tx_Id tx" TxStatusSent "[]"] s2 by simp
    then obtain s3 where "madd tx s2 = Some s3" "status s3 = status s2" using madd_total by blast
    then show ?thesis using assms(2) None s2 update_ok [OF s2] s1
      by (simp add: SendL2Transaction_def enqueue_and_wait_def senderWorkerProcessRequest_def live)
  next
    case (Some e)
    obtain s2 where s2: "upd (tx_Id tx) TxStatusInvalid e s1 = (None, s2)"
      using assms(3) Some by (cases "upd (tx_Id tx) TxStatusInvalid e s1") simp
    then show ?thesis using assms(2) Some update_ok [OF s2] s1
      by (simp add: SendL2Transaction_def enqueue_and_wait_def senderWorkerProcessRequest_def live)
  qed
qed

text \<open>A loop over transactions: it always ends, touches only their statuses, and drops nothing.\<close>

lemma send_all_result:
  "st_inv s \<Longrightarrow> \<exists>s'. send_all live upd call madd (map Some txs) s = Some s' \<and> st_inv s'
     \<and> (\<forall>i. i \<notin> tx_Id ` set txs \<longrightarrow> status s' i = status s i)
     \<and> watched s \<subseteq> watched s' \<and> watched s' \<subseteq> watched s \<union> tx_Id ` set txs"
proof (induction txs arbitrary: s)
  case (Cons tx txs)
  obtain err s0 where c: "call (tx_Encoded tx) s = (err, s0)" by fastforce
  obtain s1 where s1: "SendL2Transaction live upd call madd (Some tx) s = Some (err, s1)" "st_inv s1"
      "status s1 = status s \<or>
       status s1 = set_status (tx_Id tx) (if err = None then TxStatusSent else TxStatusInvalid) (status s)"
      "watched s1 = (if err = None then insert (tx_Id tx) (watched s) else watched s)"
    using send_result [OF Cons.prems c] by blast
  obtain s2 where s2: "send_all live upd call madd (map Some txs) s1 = Some s2" "st_inv s2"
      "\<forall>i. i \<notin> tx_Id ` set txs \<longrightarrow> status s2 i = status s1 i" "watched s1 \<subseteq> watched s2"
      "watched s2 \<subseteq> watched s1 \<union> tx_Id ` set txs"
    using Cons.IH [OF s1(2)] by blast
  have "send_all live upd call madd (map Some (tx # txs)) s = Some s2" using s1(1) s2(1) by simp
  moreover have "\<forall>i. i \<notin> tx_Id ` set (tx # txs) \<longrightarrow> status s2 i = status s i"
    using s1(3) s2(3) by (auto simp: set_status_def)
  ultimately show ?case using s1(4) s2 by (intro exI [of _ s2]) (auto split: if_splits)
qed simp

end

end
