(* ===== verification/SenderQueue.thy ===== *)
theory SenderQueue
  imports L2Transaction
begin

section \<open>The queue of the sender\<close>

text \<open>
  The part of \<open>sender/sender.go\<close> that theory \<open>Sender\<close> takes as one step: callers of
  \<open>SendL2Transaction\<close> up to the return of \<open>wg.Wait()\<close>, the goroutines of
  \<open>enqueueSenderRequest\<close>, the channel, and the workers of \<open>startSenderWorker\<close>, interleaved. A
  request is an address into \<open>sq_reqs\<close>; its wait group is a counter. The answers of the
  sequencer and of the dialling are part of the action and arbitrary; the call to the
  sequencer has a time limit, so it always has an answer.

  Two components are history that no code reads: the calls made to the sequencer, and what
  the callers got back.
\<close>

subsection \<open>State\<close>

record sendRequest =
  sr_l2Tx :: L2Transaction
  sr_wg :: nat
  sr_err :: goerror

record SenderConfig =
  sc_SequencerURL :: gostring
  sc_ResendTxsCheckInterval :: duration
  sc_Workers :: "16 word"
  sc_QueueSize :: "16 word"
  sc_RPCReadTimeout :: duration

text \<open>
  A worker before it has dialled, gone because that failed, waiting for a request, about to
  call the sequencer, with the answer not yet stored in the request, and with \<open>wg.Done()\<close>
  still to call.
\<close>

datatype worker_pc = WStart | WDead | WIdle | WCall nat | WStore nat goerror | WDone nat

datatype caller_pc = CIdle | CWait nat

record sendq =
  sq_reqs :: "sendRequest list"
  sq_sending :: "nat list"
  sq_chan :: "nat list"
  sq_workers :: "worker_pc list"
  sq_callers :: "caller_pc list"
  sq_calls :: "(nat \<times> gostring \<times> goerror) list"
  sq_results :: "(nat \<times> goerror) list"

definition sq_init :: "SenderConfig \<Rightarrow> nat \<Rightarrow> sendq" where
  "sq_init cfg callers = \<lparr>sq_reqs = [], sq_sending = [], sq_chan = [],
     sq_workers = replicate (unat (sc_Workers cfg)) WStart, sq_callers = replicate callers CIdle,
     sq_calls = [], sq_results = []\<rparr>"

subsection \<open>Actions\<close>

datatype sq_action =
    SqSend nat L2Transaction
  | SqDeliver nat
  | SqDial nat goerror
  | SqReceive nat
  | SqHandoff nat nat
  | SqCall nat goerror
  | SqStore nat
  | SqDone nat
  | SqReturn nat

definition set_worker :: "nat \<Rightarrow> worker_pc \<Rightarrow> sendq \<Rightarrow> sendq" where
  "set_worker w c s = s\<lparr>sq_workers := (sq_workers s)[w := c]\<rparr>"

definition set_caller :: "nat \<Rightarrow> caller_pc \<Rightarrow> sendq \<Rightarrow> sendq" where
  "set_caller t c s = s\<lparr>sq_callers := (sq_callers s)[t := c]\<rparr>"

definition remove_at :: "nat \<Rightarrow> 'a list \<Rightarrow> 'a list" where
  "remove_at i xs = take i xs @ drop (i + 1) xs"

text \<open>
  \<^term>\<open>None\<close> when the action is not enabled, \<^term>\<open>Some None\<close> when it panics, which
  \<open>wg.Done()\<close> does on a counter that is 0.
\<close>

fun sq_act :: "SenderConfig \<Rightarrow> sq_action \<Rightarrow> sendq \<Rightarrow> sendq option option" where
  "sq_act cfg (SqSend t tx) s =
     (if index_at (sq_callers s) t = Some CIdle
      then (let p = length (sq_reqs s) in
            Some (Some (set_caller t (CWait p)
              (s\<lparr>sq_reqs := sq_reqs s @ [\<lparr>sr_l2Tx = tx, sr_wg = 1, sr_err = None\<rparr>],
                 sq_sending := sq_sending s @ [p]\<rparr>))))
      else None)"
| "sq_act cfg (SqDeliver i) s =
     (if i < length (sq_sending s) \<and> length (sq_chan s) < unat (sc_QueueSize cfg)
      then Some (Some (s\<lparr>sq_sending := remove_at i (sq_sending s),
                         sq_chan := sq_chan s @ [sq_sending s ! i]\<rparr>))
      else None)"
| "sq_act cfg (SqDial w err) s =
     (if index_at (sq_workers s) w = Some WStart
      then Some (Some (set_worker w (if err \<noteq> None then WDead else WIdle) s))
      else None)"
| "sq_act cfg (SqReceive w) s =
     (if index_at (sq_workers s) w = Some WIdle
      then (case sq_chan s of
              [] \<Rightarrow> None
            | p # ps \<Rightarrow> Some (Some (set_worker w (WCall p) (s\<lparr>sq_chan := ps\<rparr>))))
      else None)"
| "sq_act cfg (SqHandoff w i) s =
     (if index_at (sq_workers s) w = Some WIdle \<and> sq_chan s = [] \<and> i < length (sq_sending s)
      then Some (Some (set_worker w (WCall (sq_sending s ! i)) (s\<lparr>sq_sending := remove_at i (sq_sending s)\<rparr>)))
      else None)"
| "sq_act cfg (SqCall w err) s =
     (case index_at (sq_workers s) w of
        Some (WCall p) \<Rightarrow>
          Some (map_option (\<lambda>r. set_worker w (WStore p err)
                  (s\<lparr>sq_calls := sq_calls s @ [(p, tx_Encoded (sr_l2Tx r), err)]\<rparr>))
                (index_at (sq_reqs s) p))
      | _ \<Rightarrow> None)"
| "sq_act cfg (SqStore w) s =
     (case index_at (sq_workers s) w of
        Some (WStore p err) \<Rightarrow>
          Some (map_option (\<lambda>r. set_worker w (WDone p) (s\<lparr>sq_reqs := (sq_reqs s)[p := r\<lparr>sr_err := err\<rparr>]\<rparr>))
                (index_at (sq_reqs s) p))
      | _ \<Rightarrow> None)"
| "sq_act cfg (SqDone w) s =
     (case index_at (sq_workers s) w of
        Some (WDone p) \<Rightarrow>
          Some (case index_at (sq_reqs s) p of
                  None \<Rightarrow> None
                | Some r \<Rightarrow>
                    if sr_wg r = 0 then None
                    else Some (set_worker w WIdle (s\<lparr>sq_reqs := (sq_reqs s)[p := r\<lparr>sr_wg := sr_wg r - 1\<rparr>]\<rparr>)))
      | _ \<Rightarrow> None)"
| "sq_act cfg (SqReturn t) s =
     (case index_at (sq_callers s) t of
        Some (CWait p) \<Rightarrow>
          (case index_at (sq_reqs s) p of
             None \<Rightarrow> Some None
           | Some r \<Rightarrow>
               if sr_wg r = 0
               then Some (Some (set_caller t CIdle (s\<lparr>sq_results := sq_results s @ [(p, sr_err r)]\<rparr>)))
               else None)
      | _ \<Rightarrow> None)"

inductive sq_step :: "SenderConfig \<Rightarrow> sendq \<Rightarrow> sendq \<Rightarrow> bool" for cfg where
  act: "sq_act cfg a s = Some (Some s') \<Longrightarrow> sq_step cfg s s'"

inductive_cases sq_stepE: "sq_step cfg s s'"

inductive sq_reach :: "SenderConfig \<Rightarrow> sendq \<Rightarrow> bool" for cfg where
  start: "sq_reach cfg (sq_init cfg callers)"
| step: "sq_reach cfg s \<Longrightarrow> sq_step cfg s s' \<Longrightarrow> sq_reach cfg s'"

fun sq_run :: "SenderConfig \<Rightarrow> sq_action list \<Rightarrow> sendq \<Rightarrow> sendq option" where
  "sq_run cfg [] s = Some s"
| "sq_run cfg (a # as) s =
     (case sq_act cfg a s of Some (Some s') \<Rightarrow> sq_run cfg as s' | _ \<Rightarrow> None)"

lemma sq_run_reach: "sq_reach cfg s \<Longrightarrow> sq_run cfg xs s = Some s' \<Longrightarrow> sq_reach cfg s'"
proof (induction xs arbitrary: s)
  case (Cons a xs)
  then obtain s1 where s1: "sq_act cfg a s = Some (Some s1)" "sq_run cfg xs s1 = Some s'"
    by (auto split: option.splits)
  show ?case by (rule Cons.IH [OF sq_reach.step [OF Cons.prems(1) sq_step.act [OF s1(1)]] s1(2)])
qed simp

subsection \<open>Work left\<close>

text \<open>
  How many steps a request still needs, by where it is; a waiting caller needs one more, a
  worker that has not dialled one.
\<close>

fun worker_work :: "worker_pc \<Rightarrow> nat" where
  "worker_work WStart = 1"
| "worker_work (WCall p) = 3"
| "worker_work (WStore p e) = 2"
| "worker_work (WDone p) = 1"
| "worker_work _ = 0"

fun caller_work :: "caller_pc \<Rightarrow> nat" where
  "caller_work (CWait p) = 1"
| "caller_work CIdle = 0"

definition sq_work :: "sendq \<Rightarrow> nat" where
  "sq_work s = 5 * length (sq_sending s) + 4 * length (sq_chan s)
     + sum_list (map worker_work (sq_workers s)) + sum_list (map caller_work (sq_callers s))"

definition is_send :: "sq_action \<Rightarrow> bool" where
  "is_send a = (case a of SqSend t tx \<Rightarrow> True | _ \<Rightarrow> False)"

lemma sum_list_update_nat:
  "index_at xs i = Some a \<Longrightarrow>
   sum_list (map f (xs[i := b])) + f a = sum_list (map f xs) + (f b :: nat)"
proof (induction xs arbitrary: i)
  case (Cons x xs)
  show ?case
  proof (cases i)
    case 0
    then show ?thesis using Cons.prems by (simp add: index_at_def)
  next
    case (Suc j)
    then have "index_at xs j = Some a" using Cons.prems by (simp add: index_at_def split: if_splits)
    from Cons.IH [OF this] show ?thesis by (simp add: Suc)
  qed
qed (simp add: index_at_def)

lemma remove_at_length: "i < length xs \<Longrightarrow> length xs = Suc (length (remove_at i xs))"
  by (simp add: remove_at_def)

text \<open>A worker or a caller moves: what a sum over all of them loses and gains.\<close>

lemma sum_workers [simp]:
  "index_at (sq_workers s) w = Some a \<Longrightarrow>
   sum_list (map worker_work ((sq_workers s)[w := b])) = sum_list (map worker_work (sq_workers s)) + worker_work b - worker_work a"
  using sum_list_update_nat [of "sq_workers s" w a worker_work b] by simp

lemma sum_workers_ge: "index_at (sq_workers s) w = Some a \<Longrightarrow> worker_work a \<le> sum_list (map worker_work (sq_workers s))"
  using sum_list_update_nat [of "sq_workers s" w a worker_work WIdle] by simp

lemma sum_callers [simp]:
  "index_at (sq_callers s) t = Some a \<Longrightarrow>
   sum_list (map caller_work ((sq_callers s)[t := b])) = sum_list (map caller_work (sq_callers s)) + caller_work b - caller_work a"
  using sum_list_update_nat [of "sq_callers s" t a caller_work b] by simp

lemma sum_callers_ge: "index_at (sq_callers s) t = Some a \<Longrightarrow> caller_work a \<le> sum_list (map caller_work (sq_callers s))"
  using sum_list_update_nat [of "sq_callers s" t a caller_work CIdle] by simp

lemma sq_work_decreases:
  assumes act: "sq_act cfg a s = Some (Some s')" and internal: "\<not> is_send a"
  shows "sq_work s' < sq_work s"
proof (cases a)
  case (SqSend t tx)
  then show ?thesis using internal by (simp add: is_send_def)
next
  case (SqDeliver i)
  then show ?thesis using act remove_at_length [of i "sq_sending s"]
    by (auto simp: sq_work_def split: if_splits)
next
  case (SqDial w err)
  then show ?thesis using act sum_workers_ge [of s w WStart]
    by (auto simp: sq_work_def set_worker_def split: if_splits)
next
  case (SqReceive w)
  then show ?thesis using act
    by (auto simp: sq_work_def set_worker_def split: if_splits list.splits)
next
  case (SqHandoff w i)
  then show ?thesis using act remove_at_length [of i "sq_sending s"]
    by (auto simp: sq_work_def set_worker_def split: if_splits)
next
  case (SqCall w err)
  then show ?thesis using act sum_workers_ge [of s w]
    by (fastforce simp: sq_work_def set_worker_def split: option.splits worker_pc.splits)
next
  case (SqStore w)
  then show ?thesis using act sum_workers_ge [of s w]
    by (fastforce simp: sq_work_def set_worker_def split: option.splits worker_pc.splits)
next
  case (SqDone w)
  then show ?thesis using act sum_workers_ge [of s w]
    by (fastforce simp: sq_work_def set_worker_def split: option.splits worker_pc.splits if_splits)
next
  case (SqReturn t)
  then show ?thesis using act sum_callers_ge [of s t]
    by (fastforce simp: sq_work_def set_caller_def split: option.splits caller_pc.splits if_splits)
qed

lemma sq_run_bound:
  "sq_run cfg xs s = Some s' \<Longrightarrow> list_all (\<lambda>a. \<not> is_send a) xs \<Longrightarrow> length xs + sq_work s' \<le> sq_work s"
proof (induction xs arbitrary: s)
  case (Cons a xs)
  then obtain s1 where s1: "sq_act cfg a s = Some (Some s1)" "sq_run cfg xs s1 = Some s'"
    by (auto split: option.splits)
  have "sq_work s1 < sq_work s" using sq_work_decreases [OF s1(1)] Cons.prems(2) by simp
  moreover have "length xs + sq_work s' \<le> sq_work s1" using Cons.IH [OF s1(2)] Cons.prems(2) by simp
  ultimately show ?case by simp
qed simp

subsection \<open>Where the requests are\<close>

fun worker_pending :: "worker_pc \<Rightarrow> nat multiset" where
  "worker_pending (WCall p) = {#p#}"
| "worker_pending _ = {#}"

fun worker_stored :: "worker_pc \<Rightarrow> (nat \<times> goerror) multiset" where
  "worker_stored (WStore p e) = {#(p, e)#}"
| "worker_stored _ = {#}"

fun worker_done :: "worker_pc \<Rightarrow> nat multiset" where
  "worker_done (WDone p) = {#p#}"
| "worker_done _ = {#}"

text \<open>Not yet sent to the sequencer; answered but not stored; stored but not signalled.\<close>

definition pending :: "sendq \<Rightarrow> nat multiset" where
  "pending s = mset (sq_sending s) + mset (sq_chan s) + (\<Sum>c\<leftarrow>sq_workers s. worker_pending c)"

definition answered :: "sendq \<Rightarrow> (nat \<times> goerror) multiset" where
  "answered s = (\<Sum>c\<leftarrow>sq_workers s. worker_stored c)"

definition finishing :: "sendq \<Rightarrow> nat multiset" where
  "finishing s = (\<Sum>c\<leftarrow>sq_workers s. worker_done c)"

text \<open>A worker moves: what the three gain and lose.\<close>

lemma worker_sum_update:
  "index_at xs w = Some a \<Longrightarrow>
   (\<Sum>c\<leftarrow>xs[w := b]. f c) + f a = (\<Sum>c\<leftarrow>xs. f c) + (f b :: 'a multiset)"
  using sum_mset_list_update [of w xs f b] by (auto simp: index_at_def split: if_splits)

lemma set_worker_places:
  assumes "index_at (sq_workers s) w = Some a"
  shows "pending (set_worker w b s) + worker_pending a = pending s + worker_pending b"
    "answered (set_worker w b s) + worker_stored a = answered s + worker_stored b"
    "finishing (set_worker w b s) + worker_done a = finishing s + worker_done b"
  using worker_sum_update [OF assms, of worker_pending b] worker_sum_update [OF assms, of worker_stored b]
    worker_sum_update [OF assms, of worker_done b]
  by (simp_all add: pending_def answered_def finishing_def set_worker_def add.assoc)

lemma set_worker_fields [simp]:
  "sq_reqs (set_worker w c s) = sq_reqs s" "sq_calls (set_worker w c s) = sq_calls s"
  "sq_results (set_worker w c s) = sq_results s" "sq_callers (set_worker w c s) = sq_callers s"
  "sq_workers (set_worker w c s) = (sq_workers s)[w := c]"
  by (simp_all add: set_worker_def)

lemma places_fields [simp]:
  "pending (s\<lparr>sq_calls := x\<rparr>) = pending s" "answered (s\<lparr>sq_calls := x\<rparr>) = answered s"
  "finishing (s\<lparr>sq_calls := x\<rparr>) = finishing s" "pending (s\<lparr>sq_reqs := y\<rparr>) = pending s"
  "answered (s\<lparr>sq_reqs := y\<rparr>) = answered s" "finishing (s\<lparr>sq_reqs := y\<rparr>) = finishing s"
  "answered (s\<lparr>sq_chan := z\<rparr>) = answered s" "finishing (s\<lparr>sq_chan := z\<rparr>) = finishing s"
  "answered (s\<lparr>sq_sending := z\<rparr>) = answered s" "finishing (s\<lparr>sq_sending := z\<rparr>) = finishing s"
  by (simp_all add: pending_def answered_def finishing_def)

lemma mset_remove_at: "i < length xs \<Longrightarrow> mset xs = add_mset (xs ! i) (mset (remove_at i xs))"
  unfolding remove_at_def
  by (metis Suc_eq_plus1 id_take_nth_drop mset_append mset.simps(2) union_mset_add_mset_right)

text \<open>What an action does, as far as the invariant sees it.\<close>

lemma sq_act_cases:
  assumes act: "sq_act cfg a s = Some (Some s')"
  obtains
    (send) t tx where "index_at (sq_callers s) t = Some CIdle"
      "sq_reqs s' = sq_reqs s @ [\<lparr>sr_l2Tx = tx, sr_wg = 1, sr_err = None\<rparr>]"
      "pending s' = add_mset (length (sq_reqs s)) (pending s)" "answered s' = answered s"
      "finishing s' = finishing s" "sq_calls s' = sq_calls s" "sq_results s' = sq_results s"
      "sq_callers s' = (sq_callers s)[t := CWait (length (sq_reqs s))]"
  | (move) "sq_reqs s' = sq_reqs s" "pending s' = pending s" "answered s' = answered s"
      "finishing s' = finishing s" "sq_calls s' = sq_calls s" "sq_results s' = sq_results s"
      "sq_callers s' = sq_callers s"
  | (call) p e r where "index_at (sq_reqs s) p = Some r" "sq_reqs s' = sq_reqs s"
      "pending s = add_mset p (pending s')" "answered s' = add_mset (p, e) (answered s)"
      "finishing s' = finishing s" "sq_calls s' = sq_calls s @ [(p, tx_Encoded (sr_l2Tx r), e)]"
      "sq_results s' = sq_results s" "sq_callers s' = sq_callers s"
  | (store) p e r where "index_at (sq_reqs s) p = Some r" "sq_reqs s' = (sq_reqs s)[p := r\<lparr>sr_err := e\<rparr>]"
      "pending s' = pending s" "answered s = add_mset (p, e) (answered s')"
      "finishing s' = add_mset p (finishing s)" "sq_calls s' = sq_calls s"
      "sq_results s' = sq_results s" "sq_callers s' = sq_callers s"
  | (finish) p r where "index_at (sq_reqs s) p = Some r" "sr_wg r \<noteq> 0"
      "sq_reqs s' = (sq_reqs s)[p := r\<lparr>sr_wg := sr_wg r - 1\<rparr>]"
      "pending s' = pending s" "answered s' = answered s" "finishing s = add_mset p (finishing s')"
      "sq_calls s' = sq_calls s" "sq_results s' = sq_results s" "sq_callers s' = sq_callers s"
  | (return) t p r where "index_at (sq_callers s) t = Some (CWait p)" "index_at (sq_reqs s) p = Some r"
      "sr_wg r = 0" "sq_reqs s' = sq_reqs s" "pending s' = pending s" "answered s' = answered s"
      "finishing s' = finishing s" "sq_calls s' = sq_calls s"
      "sq_results s' = sq_results s @ [(p, sr_err r)]" "sq_callers s' = (sq_callers s)[t := CIdle]"
proof (cases a)
  case (SqSend t tx)
  then show ?thesis using act
    by (intro send [of t tx]) (auto simp: set_caller_def pending_def answered_def finishing_def Let_def split: if_splits)
next
  case (SqDeliver i)
  then show ?thesis using act mset_remove_at [of i "sq_sending s"]
    by (intro move) (auto simp: pending_def answered_def finishing_def split: if_splits)
next
  case (SqDial w err)
  then have w: "index_at (sq_workers s) w = Some WStart"
      "s' = set_worker w (if err \<noteq> None then WDead else WIdle) s"
    using act by (auto split: if_splits)
  show ?thesis
    using set_worker_places [OF w(1), of WDead] set_worker_places [OF w(1), of WIdle]
    by (intro move) (simp_all add: w(2))
next
  case (SqReceive w)
  then obtain p ps where w: "index_at (sq_workers s) w = Some WIdle" "sq_chan s = p # ps"
      "s' = set_worker w (WCall p) (s\<lparr>sq_chan := ps\<rparr>)"
    using act by (auto split: if_splits list.splits)
  have "index_at (sq_workers (s\<lparr>sq_chan := ps\<rparr>)) w = Some WIdle" using w(1) by simp
  from set_worker_places [OF this, of "WCall p"]
  show ?thesis by (intro move) (simp_all add: w(2,3) pending_def)
next
  case (SqHandoff w i)
  then have w: "index_at (sq_workers s) w = Some WIdle" "i < length (sq_sending s)"
      "s' = set_worker w (WCall (sq_sending s ! i)) (s\<lparr>sq_sending := remove_at i (sq_sending s)\<rparr>)"
    using act by (auto split: if_splits)
  have "index_at (sq_workers (s\<lparr>sq_sending := remove_at i (sq_sending s)\<rparr>)) w = Some WIdle" using w(1) by simp
  from set_worker_places [OF this, of "WCall (sq_sending s ! i)"] mset_remove_at [OF w(2)]
  show ?thesis by (intro move) (simp_all add: w(3) pending_def)
next
  case (SqCall w e)
  then obtain p where w: "index_at (sq_workers s) w = Some (WCall p)"
    using act by (auto split: option.splits worker_pc.splits)
  with act SqCall obtain r where r: "index_at (sq_reqs s) p = Some r"
      "s' = set_worker w (WStore p e) (s\<lparr>sq_calls := sq_calls s @ [(p, tx_Encoded (sr_l2Tx r), e)]\<rparr>)"
    by (cases "index_at (sq_reqs s) p") simp_all
  have "index_at (sq_workers (s\<lparr>sq_calls := sq_calls s @ [(p, tx_Encoded (sr_l2Tx r), e)]\<rparr>)) w = Some (WCall p)"
    using w by simp
  from set_worker_places [OF this, of "WStore p e"]
  show ?thesis by (intro call [of p r e]) (simp_all add: r)
next
  case (SqStore w)
  then obtain p e where w: "index_at (sq_workers s) w = Some (WStore p e)"
    using act by (auto split: option.splits worker_pc.splits)
  with act SqStore obtain r where r: "index_at (sq_reqs s) p = Some r"
      "s' = set_worker w (WDone p) (s\<lparr>sq_reqs := (sq_reqs s)[p := r\<lparr>sr_err := e\<rparr>]\<rparr>)"
    by (cases "index_at (sq_reqs s) p") simp_all
  have "index_at (sq_workers (s\<lparr>sq_reqs := (sq_reqs s)[p := r\<lparr>sr_err := e\<rparr>]\<rparr>)) w = Some (WStore p e)"
    using w by simp
  from set_worker_places [OF this, of "WDone p"]
  show ?thesis by (intro store [of p r e]) (simp_all add: r)
next
  case (SqDone w)
  then obtain p where w: "index_at (sq_workers s) w = Some (WDone p)"
    using act by (auto split: option.splits worker_pc.splits)
  with act SqDone obtain r where r: "index_at (sq_reqs s) p = Some r" "sr_wg r \<noteq> 0"
      "s' = set_worker w WIdle (s\<lparr>sq_reqs := (sq_reqs s)[p := r\<lparr>sr_wg := sr_wg r - 1\<rparr>]\<rparr>)"
    by (cases "index_at (sq_reqs s) p") (auto split: if_splits)
  have "index_at (sq_workers (s\<lparr>sq_reqs := (sq_reqs s)[p := r\<lparr>sr_wg := sr_wg r - 1\<rparr>]\<rparr>)) w = Some (WDone p)"
    using w by simp
  from set_worker_places [OF this, of WIdle]
  show ?thesis by (intro finish [of p r]) (simp_all add: r)
next
  case (SqReturn t)
  then obtain p where p: "index_at (sq_callers s) t = Some (CWait p)"
    using act by (auto split: option.splits caller_pc.splits)
  with act SqReturn obtain r where r: "index_at (sq_reqs s) p = Some r" "sr_wg r = 0"
      "s' = set_caller t CIdle (s\<lparr>sq_results := sq_results s @ [(p, sr_err r)]\<rparr>)"
    by (cases "index_at (sq_reqs s) p") (auto split: if_splits)
  show ?thesis
    by (intro return [of t p r])
      (auto simp: p r set_caller_def pending_def answered_def finishing_def)
qed

subsection \<open>The invariant\<close>

text \<open>
  A request is in as many places as its wait group counts, at most one; what the sequencer
  was asked for it, and what it answered, follow from the place.
\<close>

definition wg_at :: "sendq \<Rightarrow> nat \<Rightarrow> nat" where
  "wg_at s p = (if p < length (sq_reqs s) then sr_wg (sq_reqs s ! p) else 0)"

definition calls_of :: "sendq \<Rightarrow> nat \<Rightarrow> (nat \<times> gostring \<times> goerror) list" where
  "calls_of s p = filter (\<lambda>c. fst c = p) (sq_calls s)"

definition payload :: "sendq \<Rightarrow> nat \<Rightarrow> gostring" where
  "payload s p = tx_Encoded (sr_l2Tx (sq_reqs s ! p))"

definition inv_places :: "sendq \<Rightarrow> bool" where
  "inv_places s \<longleftrightarrow> (\<forall>p. wg_at s p \<le> 1 \<and>
     count (pending s) p + count (image_mset fst (answered s)) p + count (finishing s) p = wg_at s p)"

definition inv_calls :: "sendq \<Rightarrow> bool" where
  "inv_calls s \<longleftrightarrow> fst ` set (sq_calls s) \<subseteq> {..<length (sq_reqs s)}
     \<and> (\<forall>p\<in>#pending s. calls_of s p = [])
     \<and> (\<forall>(p, e)\<in>#answered s. calls_of s p = [(p, payload s p, e)])
     \<and> (\<forall>p<length (sq_reqs s). p \<notin># pending s \<longrightarrow> p \<notin># image_mset fst (answered s) \<longrightarrow>
           calls_of s p = [(p, payload s p, sr_err (sq_reqs s ! p))])"

definition inv_results :: "sendq \<Rightarrow> bool" where
  "inv_results s \<longleftrightarrow>
     (\<forall>(p, e)\<in>set (sq_results s). p < length (sq_reqs s) \<and> wg_at s p = 0 \<and> e = sr_err (sq_reqs s ! p))
     \<and> (\<forall>p. CWait p \<in> set (sq_callers s) \<longrightarrow> p < length (sq_reqs s))"

lemma index_atD: "index_at xs i = Some x \<Longrightarrow> i < length xs \<and> xs ! i = x"
  by (auto simp: index_at_def split: if_splits)

lemma places_exclusive:
  assumes "inv_places s"
  shows "p \<in># pending s \<Longrightarrow> p \<notin># image_mset fst (answered s)"
    "p \<in># pending s \<Longrightarrow> p \<notin># finishing s"
    "p \<in># image_mset fst (answered s) \<Longrightarrow> p \<notin># finishing s"
    "p \<in># pending s \<Longrightarrow> p < length (sq_reqs s)"
    "p \<in># image_mset fst (answered s) \<Longrightarrow> p < length (sq_reqs s)"
    "count (pending s) p \<le> 1" "count (image_mset fst (answered s)) p \<le> 1"
proof -
  have sum: "count (pending s) p + count (image_mset fst (answered s)) p + count (finishing s) p = wg_at s p"
      "wg_at s p \<le> 1"
    using assms by (auto simp: inv_places_def)
  have zero: "q \<in># M \<longleftrightarrow> 0 < count M q" for q and M :: "nat multiset" by simp
  show "p \<in># pending s \<Longrightarrow> p \<notin># image_mset fst (answered s)" "p \<in># pending s \<Longrightarrow> p \<notin># finishing s"
    "p \<in># image_mset fst (answered s) \<Longrightarrow> p \<notin># finishing s"
    "count (pending s) p \<le> 1" "count (image_mset fst (answered s)) p \<le> 1"
    using sum unfolding zero by linarith+
  have out: "wg_at s p = 0" if "\<not> p < length (sq_reqs s)" using that by (simp add: wg_at_def)
  show "p \<in># pending s \<Longrightarrow> p < length (sq_reqs s)" "p \<in># image_mset fst (answered s) \<Longrightarrow> p < length (sq_reqs s)"
    using sum(1) out unfolding zero by linarith+
qed

lemma inv_places_act:
  assumes inv: "inv_places s" and act: "sq_act cfg a s = Some (Some s')"
  shows "inv_places s'"
proof -
  have old: "wg_at s q \<le> 1" "count (pending s) q + count (image_mset fst (answered s)) q + count (finishing s) q = wg_at s q" for q
    using inv by (auto simp: inv_places_def)
  have "wg_at s' q \<le> 1 \<and>
      count (pending s') q + count (image_mset fst (answered s')) q + count (finishing s') q = wg_at s' q" for q
    using act
  proof (cases rule: sq_act_cases)
    case (send t tx)
    have "wg_at s' q = wg_at s q + count {#length (sq_reqs s)#} q"
      by (auto simp: wg_at_def send nth_append)
    moreover have "wg_at s (length (sq_reqs s)) = 0" by (simp add: wg_at_def)
    ultimately show ?thesis using old [of q] by (auto simp: send)
  next
    case (move)
    have "wg_at s' q = wg_at s q" by (simp add: wg_at_def move)
    then show ?thesis using old [of q] by (simp add: move)
  next
    case (call p e r)
    have "wg_at s' q = wg_at s q" by (simp add: wg_at_def call)
    then show ?thesis using old [of q] by (auto simp: call)
  next
    case (store p e r)
    have "wg_at s' q = wg_at s q"
      using index_atD [OF store(1)] by (auto simp: wg_at_def store nth_list_update)
    then show ?thesis using old [of q] by (simp add: store split: if_splits)
  next
    case (finish p r)
    have "wg_at s' q = wg_at s q - count {#p#} q"
      using index_atD [OF finish(1)] by (auto simp: wg_at_def finish nth_list_update)
    then show ?thesis using old [of q] by (auto simp: finish)
  next
    case (return t p r)
    have "wg_at s' q = wg_at s q" by (simp add: wg_at_def return)
    then show ?thesis using old [of q] by (simp add: return)
  qed
  then show ?thesis by (simp add: inv_places_def)
qed

lemma calls_of_new: "inv_calls s \<Longrightarrow> length (sq_reqs s) \<le> p \<Longrightarrow> calls_of s p = []"
  by (force simp: inv_calls_def calls_of_def filter_empty_conv)

lemma inv_calls_act:
  assumes pl: "inv_places s" and inv: "inv_calls s" and act: "sq_act cfg a s = Some (Some s')"
  shows "inv_calls s'"
  using act
proof (cases rule: sq_act_cases)
  case (send t tx)
  have same: "payload s' p = payload s p" "sq_reqs s' ! p = sq_reqs s ! p" if "p < length (sq_reqs s)" for p
    using that by (simp_all add: payload_def send nth_append)
  have calls: "calls_of s' = calls_of s" by (simp add: calls_of_def send fun_eq_iff)
  have "calls_of s (length (sq_reqs s)) = []" by (rule calls_of_new [OF inv]) simp
  moreover have "\<forall>(p, e)\<in>#answered s. p < length (sq_reqs s)"
    using places_exclusive(5) [OF pl] by force
  ultimately show ?thesis
    using inv same unfolding inv_calls_def calls send(3-6)
    by (fastforce simp: less_Suc_eq send(2))
next
  case (call p e r)
  have p: "p < length (sq_reqs s)" "sq_reqs s ! p = r" using index_atD [OF call(1)] by auto
  have pay: "payload s' = payload s" by (simp add: payload_def call fun_eq_iff)
  have calls: "calls_of s' q = calls_of s q @ (if q = p then [(p, payload s p, e)] else [])" for q
    using p by (simp add: calls_of_def call payload_def)
  have "p \<in># pending s" using call by simp
  then have x: "p \<notin># pending s'" "p \<notin># image_mset fst (answered s)" "calls_of s p = []"
    using places_exclusive(1,6) [OF pl, of p] call inv
    by (auto simp: inv_calls_def count_eq_zero_iff [symmetric])
  have "\<forall>(q, f)\<in>#answered s. q \<noteq> p" using x(2) by force
  then show ?thesis
    using inv p x unfolding inv_calls_def pay calls call(2,4,6) call(3)
    by auto
next
  case (store p e r)
  have p: "p < length (sq_reqs s)" "sq_reqs s ! p = r" using index_atD [OF store(1)] by auto
  have pay: "payload s' = payload s" using p by (auto simp: payload_def store fun_eq_iff nth_list_update)
  have calls: "calls_of s' = calls_of s" by (simp add: calls_of_def store fun_eq_iff)
  have fin: "calls_of s p = [(p, payload s p, e)]" using inv store(4) by (auto simp: inv_calls_def)
  have other: "sq_reqs s' ! q = sq_reqs s ! q" if "q \<noteq> p" for q using that by (simp add: store)
  have same: "sr_err (sq_reqs s' ! p) = e" using p by (simp add: store)
  have "calls_of s q = [(q, payload s q, sr_err (sq_reqs s' ! q))]"
    if q: "q < length (sq_reqs s)" "q \<notin># pending s" "q \<notin># image_mset fst (answered s')" for q
  proof (cases "q = p")
    case True
    then show ?thesis using fin same by simp
  next
    case False
    then have "q \<notin># image_mset fst (answered s)" using q(3) store(4) by simp
    then show ?thesis using inv q other [OF False] by (simp add: inv_calls_def)
  qed
  moreover have "\<forall>(q, f)\<in>#answered s'. calls_of s q = [(q, payload s q, f)]"
    using inv store(4) by (auto simp: inv_calls_def)
  ultimately show ?thesis using inv unfolding inv_calls_def pay calls store(2,3,6) by simp
next
  case (finish p r)
  have p: "p < length (sq_reqs s)" "sq_reqs s ! p = r" using index_atD [OF finish(1)] by auto
  have pay: "payload s' = payload s" using p by (auto simp: payload_def finish fun_eq_iff nth_list_update)
  have calls: "calls_of s' = calls_of s" by (simp add: calls_of_def finish fun_eq_iff)
  have "sr_err (sq_reqs s' ! q) = sr_err (sq_reqs s ! q)" for q
    using p by (cases "q = p") (simp_all add: finish)
  then show ?thesis using inv unfolding inv_calls_def pay calls by (simp add: finish)
qed (use inv in \<open>auto simp: inv_calls_def calls_of_def payload_def\<close>)

lemma inv_results_act:
  assumes pl: "inv_places s" and inv: "inv_results s" and act: "sq_act cfg a s = Some (Some s')"
  shows "inv_results s'"
  using act
proof (cases rule: sq_act_cases)
  case (send t tx)
  then show ?thesis using inv set_update_subset_insert [of "sq_callers s" t "CWait (length (sq_reqs s))"]
    by (fastforce simp: inv_results_def wg_at_def nth_append)
next
  case (store p e r)
  have p: "p < length (sq_reqs s)" "sq_reqs s ! p = r" using index_atD [OF store(1)] by auto
  have "p \<in># image_mset fst (answered s)" using store(4) by simp
  then have "0 < count (image_mset fst (answered s)) p" by simp
  then have "wg_at s p \<noteq> 0" using pl unfolding inv_places_def by (metis add_is_0 neq0_conv)
  then have "p \<noteq> q" if "(q, f) \<in> set (sq_results s)" for q f
    using that inv by (auto simp: inv_results_def)
  then show ?thesis using inv p
    by (auto simp: inv_results_def store wg_at_def nth_list_update split: if_splits)
next
  case (finish p r)
  have p: "p < length (sq_reqs s)" "sq_reqs s ! p = r" using index_atD [OF finish(1)] by auto
  then show ?thesis using inv
    by (auto simp: inv_results_def finish wg_at_def nth_list_update split: if_splits)
next
  case (return t p r)
  have p: "p < length (sq_reqs s)" "sq_reqs s ! p = r" using index_atD [OF return(2)] by auto
  then show ?thesis using inv return(3) set_update_subset_insert [of "sq_callers s" t CIdle]
    by (auto simp: inv_results_def return wg_at_def)
qed (use inv in \<open>auto simp: inv_results_def wg_at_def\<close>)

definition sq_inv :: "sendq \<Rightarrow> bool" where
  "sq_inv s \<longleftrightarrow> inv_places s \<and> inv_calls s \<and> inv_results s"

lemma sum_replicate_empty: "f WStart = {#} \<Longrightarrow> (\<Sum>c\<leftarrow>replicate n WStart. f c) = {#}"
  by (induction n) auto

lemma sq_inv_init: "sq_inv (sq_init cfg callers)"
proof -
  have "pending (sq_init cfg callers) = {#}" "answered (sq_init cfg callers) = {#}"
      "finishing (sq_init cfg callers) = {#}"
    by (simp_all add: pending_def answered_def finishing_def sq_init_def sum_replicate_empty del: map_replicate)
  then show ?thesis
    by (auto simp: sq_inv_def inv_places_def inv_calls_def inv_results_def wg_at_def) (auto simp: sq_init_def)
qed

lemma sq_reach_inv: "sq_reach cfg s \<Longrightarrow> sq_inv s"
proof (induction rule: sq_reach.induct)
  case (start callers)
  show ?case by (rule sq_inv_init)
next
  case (step s s')
  from step.hyps(2) obtain a where "sq_act cfg a s = Some (Some s')" by (auto elim: sq_stepE)
  with step.IH show ?case
    using inv_places_act inv_calls_act inv_results_act unfolding sq_inv_def by blast
qed

subsection \<open>Properties\<close>

lemma worker_sum_mem: "c \<in> set xs \<Longrightarrow> p \<in># f c \<Longrightarrow> p \<in># (\<Sum>c\<leftarrow>xs. f c)"
  by (induction xs) auto

lemma worker_sum_empty: "(\<And>c. c \<in> set xs \<Longrightarrow> f c = {#}) \<Longrightarrow> (\<Sum>c\<leftarrow>xs. f c) = {#}"
  by (induction xs) auto

lemma index_at_mem: "index_at xs i = Some x \<Longrightarrow> x \<in> set xs"
  by (auto simp: index_at_def split: if_splits)

lemma mem_index_at: "x \<in> set xs \<Longrightarrow> \<exists>i. index_at xs i = Some x"
  by (metis in_set_conv_nth index_at_def)

lemma in_flight:
  assumes "sq_inv s" and "p \<in># pending s + image_mset fst (answered s) + finishing s"
  shows "wg_at s p = 1" "p < length (sq_reqs s)"
proof -
  have "count (pending s) p + count (image_mset fst (answered s)) p + count (finishing s) p = wg_at s p"
      "wg_at s p \<le> 1"
    using assms(1) by (auto simp: sq_inv_def inv_places_def)
  moreover have "0 < count (pending s + image_mset fst (answered s) + finishing s) p"
    using assms(2) by (simp only: count_greater_zero_iff)
  ultimately show "wg_at s p = 1" by simp
  then show "p < length (sq_reqs s)" by (simp add: wg_at_def split: if_splits)
qed

lemma worker_in_flight:
  assumes "sq_inv s" and "index_at (sq_workers s) w = Some c"
    and "c = WCall p \<or> c = WStore p e \<or> c = WDone p"
  shows "\<exists>r. index_at (sq_reqs s) p = Some r \<and> sr_wg r = 1"
proof -
  note c = index_at_mem [OF assms(2)]
  have "p \<in># pending s + image_mset fst (answered s) + finishing s"
    using assms(3)
  proof (elim disjE)
    assume "c = WCall p"
    then show ?thesis using worker_sum_mem [OF c, of p worker_pending] by (simp add: pending_def)
  next
    assume "c = WStore p e"
    then have "(p, e) \<in># answered s"
      using worker_sum_mem [OF c, of "(p, e)" worker_stored] by (simp add: answered_def)
    then show ?thesis by force
  next
    assume "c = WDone p"
    then show ?thesis using worker_sum_mem [OF c, of p worker_done] by (simp add: finishing_def)
  qed
  from in_flight [OF assms(1) this] show ?thesis by (auto simp: wg_at_def index_at_def)
qed

lemma waiting_request:
  assumes "sq_inv s" and "index_at (sq_callers s) t = Some (CWait p)"
  shows "\<exists>r. index_at (sq_reqs s) p = Some r \<and> sr_wg r = wg_at s p"
  using assms index_at_mem [OF assms(2)] by (auto simp: sq_inv_def inv_results_def index_at_def wg_at_def)

lemma answers_own:
  assumes "sq_reach cfg s" and "(p, err) \<in> set (sq_results s)"
  shows "calls_of s p = [(p, payload s p, err)]"
proof -
  have inv: "sq_inv s" by (rule sq_reach_inv [OF assms(1)])
  then have p: "p < length (sq_reqs s)" "wg_at s p = 0" "err = sr_err (sq_reqs s ! p)"
    using assms(2) by (auto simp: sq_inv_def inv_results_def)
  have "p \<notin># pending s" "p \<notin># image_mset fst (answered s)"
    using in_flight(1) [OF inv, of p] p(2) by auto
  then show ?thesis using inv p(1,3) by (simp add: sq_inv_def inv_calls_def)
qed

text \<open>
  C32. Every answer a caller of \<open>SendL2Transaction\<close> gets is the answer to its own transaction:
  the sequencer was called exactly once for its request, with the encoding of its
  transaction, and the error the caller sees is that call's, whatever the number of workers,
  the size of the queue and the interleaving.
\<close>
theorem send_answers_own:
  assumes "sq_reach cfg s" and "(p, err) \<in> set (sq_results s)"
  shows "calls_of s p = [(p, payload s p, err)]"
  by (rule answers_own [OF assms])

definition ex_sq_cfg :: SenderConfig where
  "ex_sq_cfg = \<lparr>sc_SequencerURL = ''http://localhost:8467'', sc_ResendTxsCheckInterval = 1000000000,
     sc_Workers = 1, sc_QueueSize = 1, sc_RPCReadTimeout = 30000000000\<rparr>"

definition ex_sq_tx :: L2Transaction where
  "ex_sq_tx = mk_tx 7 ''h'' \<lparr>wall = 0, mono = None\<rparr>"

definition ex_sq_steps :: "sq_action list" where
  "ex_sq_steps = [SqSend 0 ex_sq_tx, SqDial 0 None, SqDeliver 0, SqReceive 0, SqCall 0 (Some ''no''),
     SqStore 0, SqDone 0, SqReturn 0]"

definition ex_sq_final :: sendq where
  "ex_sq_final = \<lparr>sq_reqs = [\<lparr>sr_l2Tx = ex_sq_tx, sr_wg = 0, sr_err = Some ''no''\<rparr>], sq_sending = [],
     sq_chan = [], sq_workers = [WIdle], sq_callers = [CIdle], sq_calls = [(0, [], Some ''no'')],
     sq_results = [(0, Some ''no'')]\<rparr>"

lemma ex_sq_run: "sq_run ex_sq_cfg ex_sq_steps (sq_init ex_sq_cfg 1) = Some ex_sq_final"
  by code_simp

lemma ex_sq_reach: "sq_reach ex_sq_cfg ex_sq_final"
  by (rule sq_run_reach [OF sq_reach.start ex_sq_run])

theorem send_answers_own_witness: "calls_of ex_sq_final 0 = [(0, payload ex_sq_final 0, Some ''no'')]"
  by (rule send_answers_own [OF ex_sq_reach]) (simp add: ex_sq_final_def)

text \<open>
  The sender does not panic: no worker calls \<open>Done\<close> on a wait group whose counter is 0,
  whatever the interleaving.
\<close>
lemma send_no_panic:
  assumes "sq_reach cfg s"
  shows "sq_act cfg a s \<noteq> Some None"
proof -
  note inv = sq_reach_inv [OF assms]
  show ?thesis
  proof (cases a)
    case (SqCall w e)
    then show ?thesis using worker_in_flight [OF inv] by (fastforce split: option.splits worker_pc.splits)
  next
    case (SqStore w)
    then show ?thesis using worker_in_flight [OF inv] by (fastforce split: option.splits worker_pc.splits)
  next
    case (SqDone w)
    then show ?thesis using worker_in_flight [OF inv] by (fastforce split: option.splits worker_pc.splits)
  next
    case (SqReturn t)
    show ?thesis
    proof (cases "index_at (sq_callers s) t")
      case (Some c)
      then show ?thesis using waiting_request [OF inv, of t] SqReturn by (cases c) (auto split: if_splits)
    qed (simp add: SqReturn)
  qed (auto simp: Let_def split: list.splits)
qed

lemma send_no_panic_example: "sq_act ex_sq_cfg (SqDone 0) ex_sq_final \<noteq> Some None"
  by (rule send_no_panic [OF ex_sq_reach])

text \<open>
  Sending ends: between two calls of \<open>SendL2Transaction\<close> the senders, the goroutines that
  enqueue and the workers take at most as many steps as the work left counts, five per
  request not yet in the queue, so no schedule keeps them busy for ever.
\<close>
lemma send_terminates:
  assumes "sq_run cfg xs s = Some s'" and "list_all (\<lambda>a. \<not> is_send a) xs"
  shows "length xs \<le> sq_work s"
  using sq_run_bound [OF assms] by simp

lemma send_terminates_example:
  "length [SqDial 0 None] \<le> sq_work (sq_init ex_sq_cfg 1)"
  by (rule send_terminates [of ex_sq_cfg "[SqDial 0 None]" "sq_init ex_sq_cfg 1"
        "(sq_init ex_sq_cfg 1)\<lparr>sq_workers := [WIdle]\<rparr>"])
    code_simp+

text \<open>
  When nothing is left to do but to wait for new calls, and one worker has dialled the
  sequencer, nobody waits: every caller of \<open>SendL2Transaction\<close> has got its answer.
\<close>
lemma send_all_answered:
  assumes "sq_reach cfg s" and "WIdle \<in> set (sq_workers s)"
    and stuck: "\<And>a. \<not> is_send a \<Longrightarrow> sq_act cfg a s = None"
  shows "set (sq_callers s) \<subseteq> {CIdle}"
proof
  fix c assume c: "c \<in> set (sq_callers s)"
  note inv = sq_reach_inv [OF assms(1)]
  obtain w where w: "index_at (sq_workers s) w = Some WIdle" using mem_index_at [OF assms(2)] by blast
  have chan: "sq_chan s = []"
    using stuck [of "SqReceive w"] w by (simp add: is_send_def split: list.splits)
  then have sending: "sq_sending s = []"
    using stuck [of "SqHandoff w 0"] w by (simp add: is_send_def split: if_splits)
  have idle: "worker_pending d = {#} \<and> worker_stored d = {#} \<and> worker_done d = {#}" if "d \<in> set (sq_workers s)" for d
  proof -
    obtain v where v: "index_at (sq_workers s) v = Some d" using mem_index_at [OF \<open>d \<in> set _\<close>] by blast
    show ?thesis
      using stuck [of "SqCall v None"] stuck [of "SqStore v"] stuck [of "SqDone v"] v
      by (cases d) (simp_all add: is_send_def)
  qed
  have "pending s = {#}" "answered s = {#}" "finishing s = {#}"
    using idle by (simp_all add: pending_def answered_def finishing_def chan sending worker_sum_empty)
  then have zero: "wg_at s p = 0" for p
    using inv by (metis add_0 count_empty image_mset_empty inv_places_def sq_inv_def)
  show "c \<in> {CIdle}"
  proof (cases c)
    case (CWait p)
    then obtain t where t: "index_at (sq_callers s) t = Some (CWait p)" using mem_index_at [OF c] by blast
    then obtain r where "index_at (sq_reqs s) p = Some r" "sr_wg r = 0"
      using waiting_request [OF inv t] zero by auto
    then show ?thesis using stuck [of "SqReturn t"] t by (simp add: is_send_def)
  qed simp
qed

lemma send_all_answered_example: "set (sq_callers ex_sq_final) \<subseteq> {CIdle}"
proof (rule send_all_answered [OF ex_sq_reach])
  show "WIdle \<in> set (sq_workers ex_sq_final)" by (simp add: ex_sq_final_def)
  show "sq_act ex_sq_cfg a ex_sq_final = None" if "\<not> is_send a" for a
    using that by (cases a) (auto simp: is_send_def ex_sq_final_def index_at_def)
qed

definition lost_caller :: "sendq \<Rightarrow> nat \<Rightarrow> nat \<Rightarrow> bool" where
  "lost_caller s t p \<longleftrightarrow> set (sq_workers s) \<subseteq> {WDead} \<and> index_at (sq_callers s) t = Some (CWait p) \<and> wg_at s p = 1"

lemma lost_caller_act:
  assumes lost: "lost_caller s t p" and act: "sq_act cfg a s = Some (Some s')"
  shows "lost_caller s' t p"
proof -
  have dead: "c = WDead" if "index_at (sq_workers s) w = Some c" for w c
    using index_at_mem [OF that] lost by (auto simp: lost_caller_def)
  have t: "index_at (sq_callers s) t = Some (CWait p)" and p: "p < length (sq_reqs s)" "sr_wg (sq_reqs s ! p) = 1"
    using lost by (auto simp: lost_caller_def wg_at_def split: if_splits)
  show ?thesis
  proof (cases a)
    case (SqSend u tx)
    then have "u \<noteq> t" "s' = set_caller u (CWait (length (sq_reqs s)))
        (s\<lparr>sq_reqs := sq_reqs s @ [\<lparr>sr_l2Tx = tx, sr_wg = 1, sr_err = None\<rparr>],
           sq_sending := sq_sending s @ [length (sq_reqs s)]\<rparr>)"
      using act t by (auto simp: Let_def split: if_splits)
    then show ?thesis using lost p
      by (auto simp: lost_caller_def set_caller_def wg_at_def nth_append index_at_def split: if_splits)
  next
    case (SqDeliver i)
    then show ?thesis using act lost by (auto simp: lost_caller_def wg_at_def split: if_splits)
  next
    case (SqReturn u)
    then obtain q r where q: "index_at (sq_callers s) u = Some (CWait q)" "index_at (sq_reqs s) q = Some r"
        "sr_wg r = 0" "s' = set_caller u CIdle (s\<lparr>sq_results := sq_results s @ [(q, sr_err r)]\<rparr>)"
      using act by (auto split: option.splits caller_pc.splits if_splits)
    have "u \<noteq> t" using q t p index_atD [OF q(2)] by auto
    then show ?thesis using lost q(4)
      by (auto simp: lost_caller_def set_caller_def wg_at_def index_at_def split: if_splits)
  qed (use act dead in \<open>auto split: if_splits option.splits worker_pc.splits list.splits\<close>)
qed

text \<open>
  C33. When every worker failed to dial the sequencer, and so returned, a caller whose request
  has not been answered waits for ever, whatever happens next: \<open>startSenderWorker\<close> neither
  retries nor reports, and \<open>wg.Wait()\<close> has no time limit.
\<close>
theorem send_dead_workers:
  assumes "set (sq_workers s) \<subseteq> {WDead}" and "index_at (sq_callers s) t = Some (CWait p)" and "wg_at s p = 1"
    and "sq_run cfg xs s = Some s'"
  shows "index_at (sq_callers s') t = Some (CWait p)"
proof -
  have "sq_run cfg xs s = Some s' \<Longrightarrow> lost_caller s t p \<Longrightarrow> lost_caller s' t p"
  proof (induction xs arbitrary: s)
    case (Cons a xs)
    then obtain s1 where s1: "sq_act cfg a s = Some (Some s1)" "sq_run cfg xs s1 = Some s'"
      by (auto split: option.splits)
    show ?case by (rule Cons.IH [OF s1(2) lost_caller_act [OF Cons.prems(2) s1(1)]])
  qed simp
  then show ?thesis using assms by (simp add: lost_caller_def)
qed

definition ex_sq_lost :: sendq where
  "ex_sq_lost = \<lparr>sq_reqs = [\<lparr>sr_l2Tx = ex_sq_tx, sr_wg = 1, sr_err = None\<rparr>], sq_sending = [0],
     sq_chan = [], sq_workers = [WDead], sq_callers = [CWait 0], sq_calls = [], sq_results = []\<rparr>"

lemma ex_sq_lost_reach: "sq_run ex_sq_cfg [SqDial 0 (Some ''no''), SqSend 0 ex_sq_tx] (sq_init ex_sq_cfg 1) = Some ex_sq_lost"
  by code_simp

theorem send_dead_workers_witness:
  "index_at (sq_callers (ex_sq_lost\<lparr>sq_sending := [], sq_chan := [0]\<rparr>)) 0 = Some (CWait 0)"
  by (rule send_dead_workers [of ex_sq_lost 0 0 ex_sq_cfg "[SqDeliver 0]"])
    (simp_all add: ex_sq_lost_def ex_sq_cfg_def index_at_def wg_at_def remove_at_def)

end
