(* ===== verification/Pipeline.thy ===== *)
theory Pipeline
  imports SenderQueue MonitorProps PoolDB
begin

section \<open>Server, sender, monitor and database at the same time\<close>

text \<open>
  The goroutines of \<open>cmd/main.go\<close> together: the interleaved sender of theory \<open>SenderQueue\<close>, the
  interleaved monitor of theory \<open>MonitorSteps\<close> and one database, whose answers are the errors
  that both see. What joins them are the callers: HTTP requests (which insert a row and send
  it), the loop that sends again, and the two start-up passes of \<open>sender.Start\<close> and
  \<open>monitor.Start\<close>. A caller goes through \<open>SendL2Transaction\<close> step by step: it enters the queue,
  waits, updates the status, and hands the transaction to the monitor.

  Each caller is a caller of the sender's queue and a thread of the monitor. \<open>main.go\<close> starts
  all of them with \<open>go\<close>, so any order of their steps is possible.
\<close>

subsection \<open>State\<close>

text \<open>What a caller still has to do; a nil pointer in the result of a query is \<^term>\<open>None\<close>.\<close>

datatype work = SendTx "L2Transaction option" | HandTx "L2Transaction option"

datatype pl_caller =
    Todo "work list"
  | Waiting L2Transaction "work list"
  | Updating L2Transaction goerror "work list"

record pl_env =
  pe_sender :: SenderConfig
  pe_monitor :: MonitorConfig
  pe_enc :: "L2Transaction \<Rightarrow> L2Transaction option"

record pipeline =
  pl_db :: PoolDB
  pl_q :: sendq
  pl_mon :: "unit msys"
  pl_callers :: "pl_caller list"

definition pl_init :: "pl_env \<Rightarrow> nat \<Rightarrow> PoolDB \<Rightarrow> pipeline" where
  "pl_init e n db = \<lparr>pl_db = db, pl_q = sq_init (pe_sender e) n, pl_mon = mon_init (pe_monitor e) n (),
     pl_callers = replicate n (Todo [])\<rparr>"

definition put_caller :: "nat \<Rightarrow> pl_caller \<Rightarrow> pipeline \<Rightarrow> pipeline" where
  "put_caller t c s = s\<lparr>pl_callers := (pl_callers s)[t := c]\<rparr>"

definition monitor_thread :: "pl_env \<Rightarrow> nat \<Rightarrow> nat" where
  "monitor_thread e t = unat (mc_Workers (pe_monitor e)) + t"

text \<open>A caller that is not inside \<open>AddL2Transaction\<close> of the monitor.\<close>

definition caller_at :: "pl_env \<Rightarrow> pipeline \<Rightarrow> nat \<Rightarrow> pl_caller option" where
  "caller_at e s t =
     (if pc_of (pl_mon s) (monitor_thread e t) = Some PcIdle then index_at (pl_callers s) t else None)"

subsection \<open>Actions\<close>

datatype pl_query = ToSend | ToResend | ToMonitor

datatype pl_action =
    PlInsert nat L2Transaction
  | PlQuery nat pl_query query_env
  | PlSend nat | PlReturn nat | PlUpdate nat | PlHand nat gotime
  | PlQueue sq_action
  | PlMonitor action

text \<open>The row the endpoint builds; what is read from the request is arbitrary.\<close>

definition endpoint_tx :: "L2Transaction \<Rightarrow> L2Transaction" where
  "endpoint_tx tx = tx\<lparr>tx_Id := 0, tx_Status := TxStatusPending\<rparr>"

definition run_query ::
  "pl_query \<Rightarrow> query_env \<Rightarrow> PoolDB \<Rightarrow> (gostring + L2Transaction option list) \<times> PoolDB" where
  "run_query k q db =
     (case k of
        ToSend \<Rightarrow> GetL2TransactionsToSend q db
      | ToResend \<Rightarrow> GetL2TransactionsToResend q db
      | ToMonitor \<Rightarrow> GetL2TransactionsToMonitor q db)"

definition query_work :: "pl_query \<Rightarrow> L2Transaction option \<Rightarrow> work" where
  "query_work k tx = (if k = ToMonitor then HandTx tx else SendTx tx)"

definition sq_internal :: "sq_action \<Rightarrow> bool" where
  "sq_internal a = (case a of SqSend t tx \<Rightarrow> False | SqReturn t \<Rightarrow> False | _ \<Rightarrow> True)"

definition mon_internal :: "action \<Rightarrow> bool" where
  "mon_internal a = (case a of ActCall t now tx \<Rightarrow> False | _ \<Rightarrow> True)"

text \<open>The update that an action of the monitor makes, and the action with the database's answer.\<close>

definition mon_effect :: "action \<Rightarrow> 'd msys \<Rightarrow> (uint64 \<times> gostring) option" where
  "mon_effect a m =
     (case a of
        ActUpdate t err \<Rightarrow>
          (case pc_of m t of
             Some (PcUpdate p status) \<Rightarrow> map_option (\<lambda>r. (tx_Id (l2Tx r), status)) (deref (sys_heap m) p)
           | _ \<Rightarrow> None)
      | ActCheck now err \<Rightarrow>
          (case ms_check m of
             CkExpire p \<Rightarrow> map_option (\<lambda>r. (tx_Id (l2Tx r), TxStatusExpired)) (deref (sys_heap m) p)
           | _ \<Rightarrow> None)
      | _ \<Rightarrow> None)"

definition with_answer :: "goerror \<Rightarrow> action \<Rightarrow> action" where
  "with_answer err a =
     (case a of ActUpdate t e \<Rightarrow> ActUpdate t err | ActCheck now e \<Rightarrow> ActCheck now err | _ \<Rightarrow> a)"

definition mon_answer :: "action \<Rightarrow> pipeline \<Rightarrow> goerror \<times> PoolDB" where
  "mon_answer a s =
     (case mon_effect a (pl_mon s) of
        None \<Rightarrow> (None, pl_db s)
      | Some (i, status) \<Rightarrow> UpdateL2TransactionStatus i status [] (pl_db s))"

abbreviation via :: "('a \<Rightarrow> 'b) \<Rightarrow> 'a option option \<Rightarrow> 'b option option" where
  "via f r \<equiv> map_option (map_option f) r"

text \<open>As before: \<^term>\<open>None\<close> when not enabled, \<^term>\<open>Some None\<close> when it panics.\<close>

fun pl_act :: "pl_env \<Rightarrow> pl_action \<Rightarrow> pipeline \<Rightarrow> pipeline option option" where
  "pl_act e (PlInsert t tx) s =
     (case caller_at e s t of
        Some (Todo []) \<Rightarrow>
          (let l2Tx = endpoint_tx tx;
               ((i, err), d) = PoolDB.AddL2Transaction (pe_enc e) l2Tx (pl_db s)
           in Some (Some (put_caller t (Todo [SendTx (Some (l2Tx\<lparr>tx_Id := i\<rparr>))]) (s\<lparr>pl_db := d\<rparr>))))
      | _ \<Rightarrow> None)"
| "pl_act e (PlQuery t k q) s =
     (case caller_at e s t of
        Some (Todo []) \<Rightarrow>
          (let (res, d) = run_query k q (pl_db s)
           in Some (Some (put_caller t
                (Todo (case res of Inl err \<Rightarrow> [] | Inr txs \<Rightarrow> map (query_work k) txs)) (s\<lparr>pl_db := d\<rparr>))))
      | _ \<Rightarrow> None)"
| "pl_act e (PlSend t) s =
     (case caller_at e s t of
        Some (Todo (SendTx None # ws)) \<Rightarrow> Some None
      | Some (Todo (SendTx (Some tx) # ws)) \<Rightarrow>
          via (\<lambda>q. put_caller t (Waiting tx ws) (s\<lparr>pl_q := q\<rparr>)) (sq_act (pe_sender e) (SqSend t tx) (pl_q s))
      | _ \<Rightarrow> None)"
| "pl_act e (PlReturn t) s =
     (case caller_at e s t of
        Some (Waiting tx ws) \<Rightarrow>
          via (\<lambda>q. put_caller t (Updating tx (snd (last (sq_results q))) ws) (s\<lparr>pl_q := q\<rparr>))
            (sq_act (pe_sender e) (SqReturn t) (pl_q s))
      | _ \<Rightarrow> None)"
| "pl_act e (PlUpdate t) s =
     (case caller_at e s t of
        Some (Updating tx err ws) \<Rightarrow>
          (let (res, d) = UpdateL2TransactionStatus (tx_Id tx)
                 (if err \<noteq> None then TxStatusInvalid else TxStatusSent)
                 (case err of None \<Rightarrow> [] | Some msg \<Rightarrow> msg) (pl_db s)
           in Some (Some (put_caller t (Todo (if err \<noteq> None then ws else HandTx (Some tx) # ws)) (s\<lparr>pl_db := d\<rparr>))))
      | _ \<Rightarrow> None)"
| "pl_act e (PlHand t now) s =
     (case caller_at e s t of
        Some (Todo (HandTx None # ws)) \<Rightarrow> Some None
      | Some (Todo (HandTx (Some tx) # ws)) \<Rightarrow>
          via (\<lambda>m. put_caller t (Todo ws) (s\<lparr>pl_mon := m\<rparr>))
            (mon_act (pe_monitor e) (ActCall (monitor_thread e t) now tx) (pl_mon s))
      | _ \<Rightarrow> None)"
| "pl_act e (PlQueue a) s =
     (if sq_internal a then via (\<lambda>q. s\<lparr>pl_q := q\<rparr>) (sq_act (pe_sender e) a (pl_q s)) else None)"
| "pl_act e (PlMonitor a) s =
     (if mon_internal a
      then (let (err, d) = mon_answer a s
            in via (\<lambda>m. s\<lparr>pl_mon := m, pl_db := d\<rparr>)
                 (mon_act (pe_monitor e) (with_answer err a) (pl_mon s)))
      else None)"

text \<open>
  The states reached from \<open>s0\<close> by actions that satisfy a predicate, which says what
  outside the program is assumed.
\<close>

inductive pl_reach ::
  "pl_env \<Rightarrow> (pipeline \<Rightarrow> pl_action \<Rightarrow> bool) \<Rightarrow> pipeline \<Rightarrow> pipeline \<Rightarrow> bool"
  for e ok s0 where
  start: "pl_reach e ok s0 s0"
| step: "pl_reach e ok s0 s \<Longrightarrow> ok s a \<Longrightarrow> pl_act e a s = Some (Some s') \<Longrightarrow> pl_reach e ok s0 s'"

fun pl_run ::
  "pl_env \<Rightarrow> pl_action list \<Rightarrow> pipeline \<Rightarrow> pipeline option" where
  "pl_run e [] s = Some s"
| "pl_run e (a # as) s =
     (case pl_act e a s of Some (Some s') \<Rightarrow> pl_run e as s' | _ \<Rightarrow> None)"

fun run_ok ::
  "pl_env \<Rightarrow> (pipeline \<Rightarrow> pl_action \<Rightarrow> bool) \<Rightarrow> pl_action list \<Rightarrow> pipeline \<Rightarrow> bool" where
  "run_ok e ok [] s = True"
| "run_ok e ok (a # as) s =
     (ok s a \<and> (case pl_act e a s of Some (Some s') \<Rightarrow> run_ok e ok as s' | _ \<Rightarrow> True))"

abbreviation any_action :: "pipeline \<Rightarrow> pl_action \<Rightarrow> bool" where
  "any_action \<equiv> \<lambda>s a. True"

lemma pl_run_reach:
  "pl_run e xs s = Some s' \<Longrightarrow> pl_reach e ok s0 s \<Longrightarrow> run_ok e ok xs s \<Longrightarrow>
   pl_reach e ok s0 s'"
proof (induction xs arbitrary: s)
  case (Cons a xs)
  then obtain s1 where s1: "pl_act e a s = Some (Some s1)" "pl_run e xs s1 = Some s'"
    by (auto split: option.splits)
  have "ok s a" "run_ok e ok xs s1" using Cons.prems(3) s1(1) by auto
  then show ?case by (intro Cons.IH [OF s1(2)] pl_reach.step [OF Cons.prems(2) _ s1(1)])
qed simp

subsection \<open>The cases of an action\<close>

lemma put_caller_fields [simp]:
  "pl_db (put_caller t c s) = pl_db s" "pl_q (put_caller t c s) = pl_q s"
  "pl_mon (put_caller t c s) = pl_mon s" "pl_callers (put_caller t c s) = (pl_callers s)[t := c]"
  by (simp_all add: put_caller_def)

lemma pl_act_cases:
  assumes "pl_act e a s = Some (Some s')"
  obtains
    (insert) t tx i err d where "a = PlInsert t tx" "caller_at e s t = Some (Todo [])"
      "PoolDB.AddL2Transaction (pe_enc e) (endpoint_tx tx) (pl_db s) = ((i, err), d)"
      "s' = put_caller t (Todo [SendTx (Some ((endpoint_tx tx)\<lparr>tx_Id := i\<rparr>))]) (s\<lparr>pl_db := d\<rparr>)"
  | (query) t k q res d where "a = PlQuery t k q" "caller_at e s t = Some (Todo [])"
      "run_query k q (pl_db s) = (res, d)"
      "s' = put_caller t (Todo (case res of Inl err \<Rightarrow> [] | Inr txs \<Rightarrow> map (query_work k) txs)) (s\<lparr>pl_db := d\<rparr>)"
  | (send) t tx ws q where "a = PlSend t" "caller_at e s t = Some (Todo (SendTx (Some tx) # ws))"
      "sq_act (pe_sender e) (SqSend t tx) (pl_q s) = Some (Some q)"
      "s' = put_caller t (Waiting tx ws) (s\<lparr>pl_q := q\<rparr>)"
  | (return) t tx ws q where "a = PlReturn t" "caller_at e s t = Some (Waiting tx ws)"
      "sq_act (pe_sender e) (SqReturn t) (pl_q s) = Some (Some q)"
      "s' = put_caller t (Updating tx (snd (last (sq_results q))) ws) (s\<lparr>pl_q := q\<rparr>)"
  | (update) t tx err ws res d st msg where "a = PlUpdate t" "caller_at e s t = Some (Updating tx err ws)"
      "st = (if err \<noteq> None then TxStatusInvalid else TxStatusSent)"
      "UpdateL2TransactionStatus (tx_Id tx) st msg (pl_db s) = (res, d)"
      "s' = put_caller t (Todo (if err \<noteq> None then ws else HandTx (Some tx) # ws)) (s\<lparr>pl_db := d\<rparr>)"
  | (hand) t now tx ws m where "a = PlHand t now" "caller_at e s t = Some (Todo (HandTx (Some tx) # ws))"
      "mon_act (pe_monitor e) (ActCall (monitor_thread e t) now tx) (pl_mon s) = Some (Some m)"
      "s' = put_caller t (Todo ws) (s\<lparr>pl_mon := m\<rparr>)"
  | (queue) b q where "a = PlQueue b" "sq_internal b" "sq_act (pe_sender e) b (pl_q s) = Some (Some q)"
      "s' = s\<lparr>pl_q := q\<rparr>"
  | (monitor) b err d m where "a = PlMonitor b" "mon_internal b" "mon_answer b s = (err, d)"
      "mon_act (pe_monitor e) (with_answer err b) (pl_mon s) = Some (Some m)"
      "s' = s\<lparr>pl_mon := m, pl_db := d\<rparr>"
proof (cases a)
  case (PlInsert t tx)
  then show ?thesis using assms insert
    by (auto simp: Let_def split: option.splits pl_caller.splits list.splits prod.splits)
next
  case (PlQuery t k q)
  then show ?thesis using assms query
    by (auto simp: Let_def split: option.splits pl_caller.splits list.splits prod.splits)
next
  case (PlSend t)
  then show ?thesis using assms send
    by (auto split: option.splits pl_caller.splits list.splits work.splits)
next
  case (PlReturn t)
  then show ?thesis using assms return
    by (auto split: option.splits pl_caller.splits)
next
  case (PlUpdate t)
  then show ?thesis using assms update [of t]
    by (auto simp: Let_def split: option.splits pl_caller.splits prod.splits)
next
  case (PlHand t now)
  then show ?thesis using assms hand
    by (auto simp del: mon_act.simps split: option.splits pl_caller.splits list.splits work.splits)
next
  case (PlQueue b)
  then show ?thesis using assms queue by (auto split: if_splits)
next
  case (PlMonitor b)
  then show ?thesis using assms monitor by (auto simp: Let_def split: if_splits prod.splits)
qed

end
