(* ===== verification/PipelineInv.thy ===== *)
theory PipelineInv
  imports Pipeline
begin

section \<open>What holds of all parts together\<close>

text \<open>
  First, the two parts in the composition are runs of the parts alone, so that everything
  proved about the sender's queue and about the monitor carries over. Second, the invariant of
  the callers that join them: what the sequencer has accepted is on its way to the monitor, or
  the monitor has it.
\<close>

subsection \<open>The parts alone\<close>

declare sq_act.simps [simp del] mon_act.simps [simp del]

lemma pl_act_queue:
  assumes "pl_act e a s = Some (Some s')"
  shows "pl_q s' = pl_q s \<or> (\<exists>b. sq_act (pe_sender e) b (pl_q s) = Some (Some (pl_q s')))"
  using assms by (cases rule: pl_act_cases) auto

text \<open>What a caller hands over next keeps to a discipline of the monitor's callers.\<close>

definition hands_ok :: "pl_env \<Rightarrow> discipline \<Rightarrow> pipeline \<Rightarrow> pl_action \<Rightarrow> bool" where
  "hands_ok e disc s a \<longleftrightarrow>
     (case a of
        PlHand t now \<Rightarrow>
          (case caller_at e s t of
             Some (Todo (HandTx (Some tx) # ws)) \<Rightarrow> callable disc (pl_mon s) tx
           | _ \<Rightarrow> True)
      | _ \<Rightarrow> True)"

lemma internal_allowed: "mon_internal b \<Longrightarrow> allowed disc (with_answer err b) m"
  by (cases b) (simp_all add: mon_internal_def with_answer_def allowed_def)

lemma pl_act_monitor:
  assumes "pl_act e a s = Some (Some s')" and "hands_ok e disc s a"
  shows "pl_mon s' = pl_mon s \<or> (\<exists>b. act_under (pe_monitor e) disc b (pl_mon s) = Some (Some (pl_mon s')))"
  using assms(1)
proof (cases rule: pl_act_cases)
  case (hand t now tx ws m)
  then have "callable disc (pl_mon s) tx" using assms(2) by (simp add: hands_ok_def)
  then have "act_under (pe_monitor e) disc (ActCall (monitor_thread e t) now tx) (pl_mon s) = Some (Some m)"
    using hand(3) by simp
  moreover have "pl_mon s' = m" using hand(4) by simp
  ultimately show ?thesis by blast
next
  case (monitor b err d m)
  have "pl_mon s' = m" by (simp add: monitor(5))
  then show ?thesis using act_underI [OF monitor(4) internal_allowed [OF monitor(2)]] by blast
qed simp_all

lemma pl_act_mon:
  assumes "pl_act e a s = Some (Some s')"
  shows "pl_mon s' = pl_mon s \<or> (\<exists>b. mon_act (pe_monitor e) b (pl_mon s) = Some (Some (pl_mon s')))"
  using assms by (cases rule: pl_act_cases) auto

lemma pl_reach_queue:
  "pl_reach e ok s0 s \<Longrightarrow> sq_reach (pe_sender e) (pl_q s0) \<Longrightarrow> sq_reach (pe_sender e) (pl_q s)"
proof (induction rule: pl_reach.induct)
  case (step s a s')
  show ?case
    using pl_act_queue [OF step.hyps(3)] step.IH [OF step.prems]
    by (auto intro: sq_reach.step sq_step.act)
qed

lemma pl_reach_monitor:
  "pl_reach e (hands_ok e disc) s0 s \<Longrightarrow> mon_reach (pe_monitor e) disc (pl_mon s0) \<Longrightarrow>
   mon_reach (pe_monitor e) disc (pl_mon s)"
proof (induction rule: pl_reach.induct)
  case (step s a s')
  show ?case
    using pl_act_monitor [OF step.hyps(3,2)] step.IH [OF step.prems]
    by (auto intro: mon_reach.step mon_step.act)
qed

lemma pl_parts:
  "pl_reach e ok (pl_init e n db) s \<Longrightarrow> sq_reach (pe_sender e) (pl_q s)"
  "pl_reach e (hands_ok e disc) (pl_init e n db) s \<Longrightarrow> mon_reach (pe_monitor e) disc (pl_mon s)"
  by (erule pl_reach_queue, simp add: pl_init_def sq_reach.start)
    (erule pl_reach_monitor, simp add: pl_init_def mon_reach.start)

subsection \<open>Requests and callers\<close>

text \<open>An internal step of the queue leaves the callers and the transactions of the requests.\<close>

lemma sq_reqs_keep:
  assumes "sq_act cfg a s = Some (Some s')" and "p < length (sq_reqs s)"
  shows "p < length (sq_reqs s')" "sr_l2Tx (sq_reqs s' ! p) = sr_l2Tx (sq_reqs s ! p)"
proof -
  have "p < length (sq_reqs s') \<and> sr_l2Tx (sq_reqs s' ! p) = sr_l2Tx (sq_reqs s ! p)"
    using assms(1) by (cases rule: sq_act_cases)
      (use assms(2) index_atD in \<open>fastforce simp: nth_append nth_list_update\<close>)+
  then show "p < length (sq_reqs s')" "sr_l2Tx (sq_reqs s' ! p) = sr_l2Tx (sq_reqs s ! p)" by auto
qed

lemma sq_internal_keep:
  assumes "sq_act cfg a s = Some (Some s')" and "sq_internal a"
  shows "sq_callers s' = sq_callers s" "sq_results s' = sq_results s" "length (sq_reqs s') = length (sq_reqs s)"
  using assms
  by (cases a; auto simp: sq_act.simps sq_internal_def set_worker_def split: if_splits list.splits option.splits worker_pc.splits)+

lemma sq_send_step:
  assumes "sq_act cfg (SqSend t tx) s = Some (Some s')"
  shows "index_at (sq_callers s) t = Some CIdle"
    "sq_callers s' = (sq_callers s)[t := CWait (length (sq_reqs s))]" "sq_results s' = sq_results s"
    "sq_reqs s' = sq_reqs s @ [\<lparr>sr_l2Tx = tx, sr_wg = 1, sr_err = None\<rparr>]"
  using assms by (auto simp: sq_act.simps set_caller_def Let_def split: if_splits)

lemma sq_return_step:
  assumes "sq_act cfg (SqReturn t) s = Some (Some s')"
  obtains p err where "index_at (sq_callers s) t = Some (CWait p)" "p < length (sq_reqs s)"
    "sq_callers s' = (sq_callers s)[t := CIdle]" "sq_results s' = sq_results s @ [(p, err)]"
    "sq_reqs s' = sq_reqs s"
  using assms index_atD
  by (fastforce simp: sq_act.simps set_caller_def split: option.splits caller_pc.splits if_splits)

text \<open>What a caller will still hand over or send, whatever the database answers.\<close>

fun caller_todo :: "pl_caller \<Rightarrow> work list" where
  "caller_todo (Todo ws) = ws"
| "caller_todo (Waiting tx ws) = ws"
| "caller_todo (Updating tx err ws) = (if err \<noteq> None then ws else HandTx (Some tx) # ws)"

definition to_hand :: "pipeline \<Rightarrow> uint64 set" where
  "to_hand s = {tx_Id tx |tx c. c \<in> set (pl_callers s) \<and> HandTx (Some tx) \<in> set (caller_todo c)}"

definition kept_ids :: "pipeline \<Rightarrow> uint64 set" where
  "kept_ids s = to_hand s \<union> ms_seen (pl_mon s)"

text \<open>
  A caller waits in the queue exactly when it waits for its transaction; a request is waited
  for or has been answered; and what was answered without an error is kept.
\<close>

fun caller_linked :: "sendq \<Rightarrow> caller_pc \<Rightarrow> pl_caller \<Rightarrow> bool" where
  "caller_linked q d (Waiting tx ws) \<longleftrightarrow>
     (\<exists>p<length (sq_reqs q). d = CWait p \<and> sr_l2Tx (sq_reqs q ! p) = tx)"
| "caller_linked q d c \<longleftrightarrow> d = CIdle"

definition inv_linked :: "pipeline \<Rightarrow> bool" where
  "inv_linked s \<longleftrightarrow> list_all2 (caller_linked (pl_q s)) (sq_callers (pl_q s)) (pl_callers s)"

definition inv_answered :: "sendq \<Rightarrow> bool" where
  "inv_answered q \<longleftrightarrow> (\<forall>p<length (sq_reqs q). CWait p \<in> set (sq_callers q) \<or> (\<exists>err. (p, err) \<in> set (sq_results q)))
     \<and> (\<forall>(p, err)\<in>set (sq_results q). p < length (sq_reqs q))"

definition inv_kept :: "pipeline \<Rightarrow> bool" where
  "inv_kept s \<longleftrightarrow> (\<forall>p. (p, None) \<in> set (sq_results (pl_q s)) \<longrightarrow> tx_Id (sr_l2Tx (sq_reqs (pl_q s) ! p)) \<in> kept_ids s)"

lemma caller_atD:
  "caller_at e s t = Some c \<Longrightarrow> t < length (pl_callers s) \<and> pl_callers s ! t = c"
  by (auto simp: caller_at_def index_at_def split: if_splits)

text \<open>A caller moves: what it had to hand over must still be to do, or be seen.\<close>

lemma kept_put:
  assumes "caller_at e s t = Some b" and "pl_callers s' = (pl_callers s)[t := c]"
    and "ms_seen (pl_mon s) \<subseteq> ms_seen (pl_mon s')"
    and "\<And>tx. HandTx (Some tx) \<in> set (caller_todo b) \<Longrightarrow>
      HandTx (Some tx) \<in> set (caller_todo c) \<or> tx_Id tx \<in> ms_seen (pl_mon s')"
  shows "kept_ids s \<subseteq> kept_ids s'"
proof
  fix i assume "i \<in> kept_ids s"
  then consider "i \<in> ms_seen (pl_mon s)"
    | u tx where "u < length (pl_callers s)" "HandTx (Some tx) \<in> set (caller_todo (pl_callers s ! u))" "i = tx_Id tx"
    by (auto simp: kept_ids_def to_hand_def in_set_conv_nth)
  then show "i \<in> kept_ids s'"
  proof cases
    case 1
    then show ?thesis using assms(3) by (auto simp: kept_ids_def)
  next
    case (2 u tx)
    have "pl_callers s' ! u \<in> set (pl_callers s')" using 2(1) by (intro nth_mem) (simp add: assms(2))
    moreover have "HandTx (Some tx) \<in> set (caller_todo (pl_callers s' ! u)) \<or> tx_Id tx \<in> ms_seen (pl_mon s')"
      using 2 caller_atD [OF assms(1)] assms(4) [of tx] by (cases "u = t") (simp_all add: assms(2))
    ultimately show ?thesis using 2(3) by (auto simp: kept_ids_def to_hand_def)
  qed
qed

lemma mon_seen_act:
  assumes "mon_act cfg a s = Some (Some s')"
  shows "ms_seen s' = (case a of ActCall t now tx \<Rightarrow> insert (tx_Id tx) (ms_seen s) | _ \<Rightarrow> ms_seen s)"
proof (cases a)
  case (ActCheck now err)
  then have "check_act cfg now err s = Some (Some s')" using assms by (simp add: mon_act.simps)
  then show ?thesis by (cases rule: check_act_cases) (auto simp: ActCheck list_update_mon_def)
qed (use assms in \<open>auto simp: mon_act.simps set_pc_def list_update_mon_def Let_def new_request_def
      split: option.splits pc.splits if_splits prod.splits\<close>)

lemma mon_seen_internal:
  assumes "mon_act cfg (with_answer err a) s = Some (Some s')" and "mon_internal a"
  shows "ms_seen s' = ms_seen s"
  using mon_seen_act [OF assms(1)] assms(2) by (cases a) (auto simp: with_answer_def mon_internal_def)

lemma kept_act:
  assumes "pl_act e a s = Some (Some s')"
  shows "kept_ids s \<subseteq> kept_ids s'"
  using assms
proof (cases rule: pl_act_cases)
  case (hand t now tx ws m)
  have "ms_seen m = insert (tx_Id tx) (ms_seen (pl_mon s))" using mon_seen_act [OF hand(3)] by simp
  then show ?thesis using hand(4) by (intro kept_put [OF hand(2), of s' "Todo ws"]) auto
next
  case (queue b q)
  then show ?thesis by (simp add: kept_ids_def to_hand_def)
next
  case (monitor b err d m)
  then show ?thesis using mon_seen_internal [OF monitor(4,2)] by (simp add: kept_ids_def to_hand_def)
next
  case (insert t tx i err d)
  show ?thesis by (rule kept_put [OF insert(2)], simp add: insert(4)) (simp_all add: insert(4))
next
  case (query t k q res d)
  show ?thesis by (rule kept_put [OF query(2)], simp add: query(4)) (simp_all add: query(4))
next
  case (send t tx ws q)
  show ?thesis by (rule kept_put [OF send(2)], simp add: send(4)) (simp_all add: send(4))
next
  case (return t tx ws q)
  show ?thesis by (rule kept_put [OF return(2)], simp add: return(4)) (simp_all add: return(4))
next
  case (update t tx err ws res d st msg)
  show ?thesis by (rule kept_put [OF update(2)], simp add: update(5)) (simp_all add: update(5) split: if_splits)
qed

lemma linked_at:
  assumes "inv_linked s" and "caller_at e s t = Some c"
  shows "t < length (pl_callers s)" "caller_linked (pl_q s) (sq_callers (pl_q s) ! t) c"
    "t < length (sq_callers (pl_q s))"
  using assms caller_atD [OF assms(2)] by (auto simp: inv_linked_def list_all2_conv_all_nth)

lemma linked_put:
  assumes "inv_linked s" and "caller_linked (pl_q s) d c"
  shows "list_all2 (caller_linked (pl_q s)) ((sq_callers (pl_q s))[t := d]) ((pl_callers s)[t := c])"
  using assms by (simp add: inv_linked_def list_all2_update_cong)

lemma linked_mono:
  assumes "caller_linked q d c" and "\<And>p. p < length (sq_reqs q) \<Longrightarrow>
      p < length (sq_reqs q') \<and> sr_l2Tx (sq_reqs q' ! p) = sr_l2Tx (sq_reqs q ! p)"
  shows "caller_linked q' d c"
  using assms by (cases c) auto

lemma linked_same:
  assumes "inv_linked s" and "caller_at e s t = Some b" and "\<And>d. caller_linked (pl_q s) d b = caller_linked (pl_q s) d c"
  shows "list_all2 (caller_linked (pl_q s)) (sq_callers (pl_q s)) ((pl_callers s)[t := c])"
proof -
  let ?d = "sq_callers (pl_q s) ! t"
  have "caller_linked (pl_q s) ?d c" using linked_at [OF assms(1,2)] assms(3) by simp
  from linked_put [OF assms(1) this, of t] show ?thesis by simp
qed

lemma inv_linked_act:
  assumes inv: "inv_linked s" and act: "pl_act e a s = Some (Some s')"
  shows "inv_linked s'"
  using act
proof (cases rule: pl_act_cases)
  case (send t tx ws q)
  note q = sq_send_step [OF send(3)]
  have "caller_linked q (CWait (length (sq_reqs (pl_q s)))) (Waiting tx ws)" by (simp add: q(4))
  moreover have "list_all2 (caller_linked q) (sq_callers (pl_q s)) (pl_callers s)"
    using inv unfolding inv_linked_def
    by (rule list_all2_mono) (auto simp: q(4) nth_append elim!: linked_mono)
  ultimately show ?thesis by (simp add: inv_linked_def send(4) q(2) list_all2_update_cong)
next
  case (return t tx ws q)
  from return(3) obtain p err where q: "sq_callers q = (sq_callers (pl_q s))[t := CIdle]" "sq_reqs q = sq_reqs (pl_q s)"
    by (rule sq_return_step) blast
  have "list_all2 (caller_linked q) (sq_callers (pl_q s)) (pl_callers s)"
    using inv unfolding inv_linked_def by (rule list_all2_mono) (auto simp: q(2) elim!: linked_mono)
  then show ?thesis by (simp add: inv_linked_def return(4) q(1) list_all2_update_cong)
next
  case (queue b q)
  note keep = sq_internal_keep [OF queue(3,2)] sq_reqs_keep [OF queue(3)]
  have "list_all2 (caller_linked q) (sq_callers (pl_q s)) (pl_callers s)"
    using inv unfolding inv_linked_def by (rule list_all2_mono) (use keep in \<open>auto elim!: linked_mono\<close>)
  then show ?thesis by (simp add: inv_linked_def queue(4) keep)
next
  case (insert t tx i err d)
  show ?thesis using linked_same [OF inv insert(2)] by (simp add: inv_linked_def insert(4))
next
  case (query t k qe res d)
  show ?thesis using linked_same [OF inv query(2)] by (simp add: inv_linked_def query(4))
next
  case (update t tx err ws res d st msg)
  show ?thesis using linked_same [OF inv update(2)] by (simp add: inv_linked_def update(5))
next
  case (hand t now tx ws m)
  show ?thesis using linked_same [OF inv hand(2)] by (simp add: inv_linked_def hand(4))
qed (use inv in \<open>simp add: inv_linked_def\<close>)

lemma inv_answered_act:
  assumes inv: "inv_linked s" "inv_answered (pl_q s)" and act: "pl_act e a s = Some (Some s')"
  shows "inv_answered (pl_q s')"
  using act
proof (cases rule: pl_act_cases)
  case (send t tx ws q)
  note q = sq_send_step [OF send(3)]
  have t: "t < length (sq_callers (pl_q s))" "sq_callers (pl_q s) ! t = CIdle" using index_atD [OF q(1)] by auto
  have old: "CWait p \<in> set ((sq_callers (pl_q s))[t := c])" if "CWait p \<in> set (sq_callers (pl_q s))" for p c
    using that t by (metis caller_pc.distinct(1) in_set_conv_nth length_list_update nth_list_update_neq)
  show ?thesis
    using inv(2) old set_update_memI [OF t(1)] by (fastforce simp: inv_answered_def send(4) q less_Suc_eq)
next
  case (return t tx ws q)
  from return(3) obtain p err where q: "index_at (sq_callers (pl_q s)) t = Some (CWait p)" "p < length (sq_reqs (pl_q s))"
      "sq_callers q = (sq_callers (pl_q s))[t := CIdle]" "sq_results q = sq_results (pl_q s) @ [(p, err)]"
      "sq_reqs q = sq_reqs (pl_q s)" by (rule sq_return_step)
  have t: "t < length (sq_callers (pl_q s))" "sq_callers (pl_q s) ! t = CWait p" using index_atD [OF q(1)] by auto
  have old: "CWait r \<in> set ((sq_callers (pl_q s))[t := CIdle])" if "CWait r \<in> set (sq_callers (pl_q s))" "r \<noteq> p" for r
    using that t by (metis caller_pc.inject in_set_conv_nth length_list_update nth_list_update_neq)
  show ?thesis
    using inv(2) old q(2) by (fastforce simp: inv_answered_def return(4) q(3-5))
next
  case (queue b q)
  note keep = sq_internal_keep [OF queue(3,2)]
  then show ?thesis using inv(2) by (simp add: inv_answered_def queue(4))
qed (use inv in simp_all)

lemma inv_kept_act:
  assumes inv: "inv_linked s" "inv_answered (pl_q s)" "inv_kept s" and act: "pl_act e a s = Some (Some s')"
  shows "inv_kept s'"
proof -
  have old: "tx_Id (sr_l2Tx (sq_reqs (pl_q s) ! p)) \<in> kept_ids s' \<and> p < length (sq_reqs (pl_q s))"
    if "(p, None) \<in> set (sq_results (pl_q s))" for p
    using that inv(2,3) kept_act [OF act] by (auto simp: inv_kept_def inv_answered_def)
  from act show ?thesis
  proof (cases rule: pl_act_cases)
    case (send t tx ws q)
    note q = sq_send_step [OF send(3)]
    show ?thesis using old by (auto simp: inv_kept_def send(4) q nth_append)
  next
    case (return t tx ws q)
    from return(3) obtain p err where q: "index_at (sq_callers (pl_q s)) t = Some (CWait p)"
        "sq_results q = sq_results (pl_q s) @ [(p, err)]" "sq_reqs q = sq_reqs (pl_q s)" by (rule sq_return_step)
    have "sr_l2Tx (sq_reqs (pl_q s) ! p) = tx" "t < length (pl_callers s)"
      using linked_at [OF inv(1) return(2)] index_atD [OF q(1)] by auto
    then have "tx_Id (sr_l2Tx (sq_reqs (pl_q s) ! p)) \<in> kept_ids s'" if "err = None"
      using that set_update_memI [of t "pl_callers s" "Updating tx None ws"]
      by (force simp: kept_ids_def to_hand_def return(4) q(2))
    then show ?thesis using old by (auto simp: inv_kept_def return(4) q(2,3))
  next
    case (queue b q)
    note keep = sq_internal_keep [OF queue(3,2)] sq_reqs_keep [OF queue(3)]
    then show ?thesis using old by (auto simp: inv_kept_def queue(4))
  qed (use old in \<open>auto simp: inv_kept_def\<close>)
qed

lemma pl_init_fields [simp]:
  "pl_q (pl_init e n db) = sq_init (pe_sender e) n" "pl_mon (pl_init e n db) = mon_init (pe_monitor e) n ()"
  "pl_callers (pl_init e n db) = replicate n (Todo [])" "pl_db (pl_init e n db) = db"
  by (simp_all add: pl_init_def)

lemma pl_reach_kept:
  assumes "pl_reach e ok (pl_init e n db) s"
  shows "inv_linked s \<and> inv_answered (pl_q s) \<and> inv_kept s"
  using assms
proof (induction rule: pl_reach.induct)
  case start
  show ?case by (simp add: inv_linked_def inv_answered_def inv_kept_def sq_init_def list_all2_conv_all_nth)
next
  case (step s a s')
  then show ?case using inv_linked_act inv_answered_act inv_kept_act by blast
qed

end
