(* ===== verification/PipelineOrder.thy ===== *)
theory PipelineOrder
  imports PipelineInv
begin

section \<open>An orderly start\<close>

text \<open>
  \<open>main.go\<close> starts monitor, sender and server with \<open>go\<close>. Suppose instead that the two queries of
  the start-up passes have run before the server accepts requests, that every insertion
  succeeds, and that nobody marks a row for sending again. Then no identifier is ever with
  two owners, and the statuses of a row only move forward.
\<close>

subsection \<open>Assumptions\<close>

text \<open>What may happen after the start-up queries.\<close>

definition orderly :: "pl_env \<Rightarrow> pipeline \<Rightarrow> pl_action \<Rightarrow> bool" where
  "orderly e s a \<longleftrightarrow>
     (case a of
        PlInsert t tx \<Rightarrow> snd (fst (PoolDB.AddL2Transaction (pe_enc e) (endpoint_tx tx) (pl_db s))) = None
      | PlQuery t k q \<Rightarrow> k = ToResend \<and> faithful_query q
      | _ \<Rightarrow> True)"

definition keeps_status :: "pl_env \<Rightarrow> bool" where
  "keeps_status e \<longleftrightarrow> (\<forall>tx tx'. pe_enc e tx = Some tx' \<longrightarrow> tx_Status tx' = tx_Status tx)"

definition unmarked :: "PoolDB \<Rightarrow> bool" where
  "unmarked db \<longleftrightarrow> (\<forall>i. status_of db i \<noteq> Some TxStatusResend)"

text \<open>The start: what the monitor has to watch, then what has to be sent.\<close>

definition boot_queries :: "query_env \<Rightarrow> query_env \<Rightarrow> pl_action list" where
  "boot_queries q1 q2 = [PlQuery 0 ToMonitor q1, PlQuery 1 ToSend q2]"

definition booted :: "pl_env \<Rightarrow> pipeline \<Rightarrow> bool" where
  "booted e s \<longleftrightarrow> (\<exists>n db q1 q2. db_inv db \<and> unmarked db \<and> keeps_status e
     \<and> faithful_query q1 \<and> faithful_query q2
     \<and> pl_run e (boot_queries q1 q2) (pl_init e n db) = Some s)"

subsection \<open>Statuses\<close>

definition watched :: "gostring set" where
  "watched = {TxStatusPending, TxStatusSent, TxStatusConfirmed, TxStatusFailed, TxStatusExpired}"

text \<open>The moves of a status: the sender's, and the monitor's.\<close>

definition status_next :: "gostring \<Rightarrow> gostring \<Rightarrow> bool" where
  "status_next a b \<longleftrightarrow> a = b
     \<or> a = TxStatusPending \<and> b \<in> {TxStatusSent, TxStatusInvalid}
     \<or> a \<in> watched \<and> b \<in> {TxStatusConfirmed, TxStatusFailed, TxStatusExpired}"

lemma status_next_trans: "status_next a b \<Longrightarrow> status_next b c \<Longrightarrow> status_next a c"
  by (auto simp: status_next_def watched_def TxStatus_defs)

lemma status_of_insert:
  assumes "db_inv db" and "PoolDB.AddL2Transaction enc tx db = ((i, None), d)"
  shows "status_of db i = None" "db_inv d"
    "\<exists>tx'. enc tx = Some tx' \<and> status_of d = (status_of db)(i \<mapsto> tx_Status tx')"
proof -
  from add_tx_ok [OF assms] show none: "status_of db i = None" and "db_inv d" by auto
  from add_tx_ok [OF assms] obtain tx' now where tx': "enc tx = Some tx'"
      "db_rows d = db_rows db @ [\<lparr>row_tx = tx'\<lparr>tx_Id := i\<rparr>, row_updated_at = now, row_error = None\<rparr>]" by auto
  have find_app: "find P (xs @ [r]) = (case find P xs of None \<Rightarrow> if P r then Some r else None | Some x \<Rightarrow> Some x)"
    for P xs and r :: pool_row by (induction xs) auto
  have "status_of d = (status_of db)(i \<mapsto> tx_Status tx')"
    using none by (auto simp: fun_eq_iff status_of_def tx'(2) find_app row_id_def row_status_def split: option.splits)
  with tx'(1) show "\<exists>tx'. enc tx = Some tx' \<and> status_of d = (status_of db)(i \<mapsto> tx_Status tx')" by blast
qed

lemma status_of_row:
  assumes "db_inv db" and "r \<in> set (db_rows db)"
  shows "status_of db (row_id r) = Some (row_status r)"
proof -
  have "distinct (map row_id rs) \<Longrightarrow> r \<in> set rs \<Longrightarrow> find (\<lambda>x. row_id x = row_id r) rs = Some r" for rs
    by (induction rs) auto
  then show ?thesis using assms by (auto simp: status_of_def db_inv_def)
qed

text \<open>An update, whatever the answer: one identifier moves or not.\<close>

lemma status_of_update:
  assumes "UpdateL2TransactionStatus i st msg db = (err, d)"
  shows "j \<noteq> i \<Longrightarrow> status_of d j = status_of db j"
    "status_of d i = status_of db i \<or> status_of d i = map_option (\<lambda>_. st) (status_of db i)"
    "db_inv db \<Longrightarrow> db_inv d"
    "err = None \<Longrightarrow> status_of d i = map_option (\<lambda>_. st) (status_of db i)"
  using pool_store.update_frame [of j i st msg db] pool_store.update_result [of i st msg db]
    pool_store.update_inv [of db i st msg] pool_store.update_ok [of i st msg db d] assms by auto

subsection \<open>Identifiers have one owner\<close>

fun work_id :: "work \<Rightarrow> uint64 option" where
  "work_id (SendTx tx) = map_option tx_Id tx"
| "work_id (HandTx tx) = map_option tx_Id tx"

definition work_ids :: "work list \<Rightarrow> uint64 multiset" where
  "work_ids ws = mset (List.map_filter work_id ws)"

lemma work_ids_simps [simp]:
  "work_ids [] = {#}"
  "work_ids (SendTx (Some tx) # ws) = add_mset (tx_Id tx) (work_ids ws)"
  "work_ids (HandTx (Some tx) # ws) = add_mset (tx_Id tx) (work_ids ws)"
  by (simp_all add: work_ids_def List.map_filter_simps)

fun caller_ids :: "pl_caller \<Rightarrow> uint64 multiset" where
  "caller_ids (Todo ws) = work_ids ws"
| "caller_ids (Waiting tx ws) = add_mset (tx_Id tx) (work_ids ws)"
| "caller_ids (Updating tx err ws) = add_mset (tx_Id tx) (work_ids ws)"

definition all_ids :: "pipeline \<Rightarrow> uint64 multiset" where
  "all_ids s = (\<Sum>c\<leftarrow>pl_callers s. caller_ids c)"

definition watched_at :: "(uint64 \<Rightarrow> gostring option) \<Rightarrow> uint64 \<Rightarrow> bool" where
  "watched_at st i \<longleftrightarrow> (case st i of None \<Rightarrow> False | Some a \<Rightarrow> a \<in> watched)"

lemma watched_at_known: "watched_at st i \<Longrightarrow> st i \<noteq> None"
  by (auto simp: watched_at_def split: option.splits)

fun work_ok :: "(uint64 \<Rightarrow> gostring option) \<Rightarrow> work \<Rightarrow> bool" where
  "work_ok st (SendTx (Some tx)) \<longleftrightarrow> st (tx_Id tx) = Some TxStatusPending"
| "work_ok st (HandTx (Some tx)) \<longleftrightarrow> watched_at st (tx_Id tx)"
| "work_ok st w \<longleftrightarrow> False"

fun caller_ok :: "(uint64 \<Rightarrow> gostring option) \<Rightarrow> pl_caller \<Rightarrow> bool" where
  "caller_ok st (Todo ws) \<longleftrightarrow> list_all (work_ok st) ws"
| "caller_ok st (Waiting tx ws) \<longleftrightarrow> st (tx_Id tx) = Some TxStatusPending \<and> list_all (work_ok st) ws"
| "caller_ok st (Updating tx err ws) \<longleftrightarrow> st (tx_Id tx) = Some TxStatusPending \<and> list_all (work_ok st) ws"

definition inv_fresh :: "pipeline \<Rightarrow> bool" where
  "inv_fresh s \<longleftrightarrow> db_inv (pl_db s) \<and> unmarked (pl_db s)
     \<and> nodup (all_ids s) \<and> set_mset (all_ids s) \<inter> ms_seen (pl_mon s) = {}
     \<and> list_all (caller_ok (status_of (pl_db s))) (pl_callers s)
     \<and> (\<forall>i\<in>ms_seen (pl_mon s). watched_at (status_of (pl_db s)) i)"

lemma work_ok_cong:
  assumes "work_ok st w" and "\<And>i. work_id w = Some i \<Longrightarrow> st' i = st i"
  shows "work_ok st' w"
  using assms by (cases "(st, w)" rule: work_ok.cases) (auto simp: watched_at_def)

lemma works_ok_cong:
  "list_all (work_ok st) ws \<Longrightarrow> (\<And>i. i \<in># work_ids ws \<Longrightarrow> st' i = st i) \<Longrightarrow> list_all (work_ok st') ws"
proof (induction ws)
  case (Cons w ws)
  have "work_ok st' w"
    by (rule work_ok_cong [where st = st]) (use Cons.prems in \<open>auto simp: work_ids_def List.map_filter_simps\<close>)
  moreover have "list_all (work_ok st') ws"
    using Cons by (auto simp: work_ids_def List.map_filter_simps split: option.splits)
  ultimately show ?case by simp
qed simp

lemma caller_ok_cong:
  "caller_ok st c \<Longrightarrow> (\<And>i. i \<in># caller_ids c \<Longrightarrow> st' i = st i) \<Longrightarrow> caller_ok st' c"
  by (cases c) (auto intro: works_ok_cong)

text \<open>The identifiers of a caller are known to the database.\<close>

lemma works_ok_known: "list_all (work_ok st) ws \<Longrightarrow> i \<in># work_ids ws \<Longrightarrow> st i \<noteq> None"
proof (induction ws)
  case (Cons w ws)
  then show ?case
    by (cases "(st, w)" rule: work_ok.cases) (auto simp: watched_at_def split: option.splits)
qed simp

lemma caller_ok_known: "caller_ok st c \<Longrightarrow> i \<in># caller_ids c \<Longrightarrow> st i \<noteq> None"
  by (cases c) (auto dest: works_ok_known)

lemma all_ids_known:
  assumes "list_all (caller_ok st) cs" and "i \<in># (\<Sum>c\<leftarrow>cs. caller_ids c)"
  shows "st i \<noteq> None"
  using assms by (induction cs) (auto dest: caller_ok_known)

lemma other_callers:
  assumes "nodup (\<Sum>c\<leftarrow>cs. caller_ids c)" and "t < length cs" "u < length cs" "u \<noteq> t"
    and "i \<in># caller_ids (cs ! u)"
  shows "i \<notin># caller_ids (cs ! t)"
proof
  assume t: "i \<in># caller_ids (cs ! t)"
  have "(\<Sum>c\<leftarrow>cs[t := Todo []]. caller_ids c) + caller_ids (cs ! t) = (\<Sum>c\<leftarrow>cs. caller_ids c)"
    using sum_mset_list_update [OF assms(2), of caller_ids "Todo []"] by simp
  moreover have "i \<in># (\<Sum>c\<leftarrow>cs[t := Todo []]. caller_ids c)"
    using assms(3-5) by (intro worker_sum_mem [of "cs ! u"]) (auto simp: set_conv_nth intro!: exI [of _ u])
  ultimately have "count (\<Sum>c\<leftarrow>cs. caller_ids c) i \<ge> 2"
    using t by (metis Suc_1 add_mono_thms_linordered_semiring(1) count_greater_eq_one_iff count_union one_add_one)
  then show False using assms(1) by (metis Suc_1 nodup_def not_less_eq_eq)
qed

lemma fresh_put:
  assumes inv: "inv_fresh s" and t: "caller_at e s t = Some b" and cs: "pl_callers s' = (pl_callers s)[t := c]"
    and db: "db_inv (pl_db s')" "unmarked (pl_db s')"
    and frame: "\<And>j. j \<notin># caller_ids b \<Longrightarrow> status_of (pl_db s) j \<noteq> None \<Longrightarrow>
        status_of (pl_db s') j = status_of (pl_db s) j"
    and ok: "caller_ok (status_of (pl_db s')) c"
    and ids: "caller_ids c \<subseteq># caller_ids b \<or>
        (\<exists>i. caller_ids c = {#i#} \<and> caller_ids b = {#} \<and> status_of (pl_db s) i = None)"
    and seen: "ms_seen (pl_mon s') = ms_seen (pl_mon s) \<or>
        (\<exists>i. ms_seen (pl_mon s') = insert i (ms_seen (pl_mon s)) \<and> caller_ids b = add_mset i (caller_ids c)
           \<and> watched_at (status_of (pl_db s')) i)"
  shows "inv_fresh s'"
proof -
  let ?st = "status_of (pl_db s)" and ?st' = "status_of (pl_db s')"
  note t = caller_atD [OF t]
  have oks: "list_all (caller_ok ?st) (pl_callers s)" and nd: "nodup (all_ids s)"
    and dis: "set_mset (all_ids s) \<inter> ms_seen (pl_mon s) = {}" and wat: "\<And>i. i \<in> ms_seen (pl_mon s) \<Longrightarrow> watched_at ?st i"
    using inv by (auto simp: inv_fresh_def)
  have known: "?st i \<noteq> None" if "i \<in># all_ids s \<or> i \<in> ms_seen (pl_mon s)" for i
    using that all_ids_known [OF oks, of i] watched_at_known [OF wat, of i] by (auto simp: all_ids_def)
  have sum: "all_ids s' + caller_ids b = all_ids s + caller_ids c"
    using sum_mset_list_update [of t "pl_callers s" caller_ids c] t by (simp add: all_ids_def cs)
  have bsub: "i \<in># all_ids s" if "i \<in># caller_ids b" for i
    unfolding all_ids_def using t that by (intro worker_sum_mem [of b]) auto
  have nd': "nodup (all_ids s') \<and> set_mset (all_ids s') \<inter> ms_seen (pl_mon s) = {}"
    using ids
  proof (elim disjE exE conjE)
    assume sub: "caller_ids c \<subseteq># caller_ids b"
    then have le: "all_ids s' \<subseteq># all_ids s"
      using sum by (metis add.commute mset_subset_eq_add_left mset_subset_eq_mono_add_right_cancel subset_mset.add_right_mono)
    then have "count (all_ids s') i \<le> 1" for i
      using nd mset_subset_eq_count [OF le, of i] by (auto simp: nodup_def intro: le_trans)
    then show ?thesis using dis set_mset_mono [OF le] by (auto simp: nodup_def)
  next
    fix i assume i: "caller_ids c = {#i#}" "caller_ids b = {#}" "?st i = None"
    then have "all_ids s' = add_mset i (all_ids s)" using sum by simp
    then show ?thesis using known [of i] i(3) nd dis by auto
  qed
  have seen': "set_mset (all_ids s') \<inter> ms_seen (pl_mon s') = {}"
    using seen
  proof (elim disjE exE conjE)
    fix i assume i: "ms_seen (pl_mon s') = insert i (ms_seen (pl_mon s))" "caller_ids b = add_mset i (caller_ids c)"
    then have "all_ids s = add_mset i (all_ids s')" using sum by simp
    then show ?thesis using nd nd' i(1) by auto
  qed (use nd' in simp)
  have "caller_ok ?st' (pl_callers s' ! u)" if u: "u < length (pl_callers s)" for u
  proof (cases "u = t")
    case False
    have old: "caller_ok ?st (pl_callers s ! u)" using oks u by (simp add: list_all_length)
    have "?st' i = ?st i" if i: "i \<in># caller_ids (pl_callers s ! u)" for i
      using other_callers [OF nd [unfolded all_ids_def] _ u False i] t caller_ok_known [OF old i] frame by auto
    with caller_ok_cong [OF old] show ?thesis using False by (simp add: cs)
  qed (use ok t in \<open>simp add: cs\<close>)
  then have "list_all (caller_ok ?st') (pl_callers s')" by (simp add: list_all_length cs)
  moreover have "watched_at ?st' i" if i: "i \<in> ms_seen (pl_mon s)" for i
  proof -
    have "?st' i = ?st i" using known [of i] i bsub [of i] dis by (intro frame) auto
    then show ?thesis using wat [OF i] by (simp add: watched_at_def)
  qed
  ultimately show ?thesis
    using db nd' seen' seen by (auto simp: inv_fresh_def)
qed

subsection \<open>What the monitor updates\<close>

lemma mon_effect_live:
  assumes "mon_reach cfg FreshIds m" and "mon_effect a m = Some (i, st)"
  shows "i \<in> ms_seen m" "i \<notin> set (final_ids m)" "st \<in> {TxStatusConfirmed, TxStatusFailed, TxStatusExpired}"
proof -
  have inv: "inv_ids FreshIds m" "inv_refs m" "inv_check m" "inv_status m"
    using mon_reach_safe [OF assms(1)] by (auto simp: mon_safe_def mon_inv_def)
  note once = mon_reach_once [OF assms(1)]
  from assms(2) consider
      (upd) t p r where "pc_of m t = Some (PcUpdate p st)" "deref (sys_heap m) p = Some r" "i = tx_Id (l2Tx r)"
    | (exp) p r where "ms_check m = CkExpire p" "deref (sys_heap m) p = Some r" "i = tx_Id (l2Tx r)" "st = TxStatusExpired"
    by (auto simp: mon_effect_def split: action.splits option.splits pc.splits cpc.splits)
  then have "\<exists>p r. p \<in> live_refs m \<and> ms_check m \<noteq> CkDelExpired p \<and> deref (sys_heap m) p = Some r \<and> i = tx_Id (l2Tx r)
      \<and> st \<in> {TxStatusConfirmed, TxStatusFailed, TxStatusExpired}"
  proof cases
    case (upd t p r)
    have "p \<in># held m" using threads_member [OF upd(1), of p pc_held] by (simp add: held_def)
    then have "p \<in> live_refs m" "p \<in># owned m" by (simp_all add: live_refs_def owned_def)
    moreover have "ms_check m \<noteq> CkDelExpired p"
      using inv(3) \<open>p \<in># owned m\<close> by (auto simp: inv_check_def borrow_ok_def)
    moreover have "st = TxStatusConfirmed \<or> st = TxStatusFailed"
      using final_status_pc_of [OF _ upd(1)] inv(4) by (simp add: inv_status_def)
    ultimately show ?thesis using upd by blast
  next
    case (exp p r)
    then have "p \<in> live_refs m" using inv_onceD(3) [OF once, of p] by (simp add: live_refs_def)
    then show ?thesis using exp by auto
  qed
  then obtain p r where p: "p \<in> live_refs m" "ms_check m \<noteq> CkDelExpired p" "deref (sys_heap m) p = Some r" "i = tx_Id (l2Tx r)"
      "st \<in> {TxStatusConfirmed, TxStatusFailed, TxStatusExpired}" by blast
  have h: "sys_heap m p = Some r" by (rule deref_heap [OF p(3)])
  then have i: "i = req_id (sys_heap m) p" using p(4) by (simp add: req_id_def)
  show "i \<in> ms_seen m" using inv(1) h i by (auto simp: inv_ids_def)
  show "i \<notin> set (final_ids m)" using inv_onceD(4) [OF once p(1,2)] i by simp
  show "st \<in> {TxStatusConfirmed, TxStatusFailed, TxStatusExpired}" by (rule p(5))
qed

lemma mon_effect_log:
  assumes "mon_act cfg (with_answer err a) m = Some (Some m')" and "mon_internal a"
  shows "ms_log m' = ms_log m @ (case mon_effect a m of None \<Rightarrow> [] | Some (i, st) \<Rightarrow> [(i, st, err)])"
proof (cases a)
  case (ActCheck now e)
  then have "check_act cfg now err m = Some (Some m')" using assms by (simp add: mon_act.simps with_answer_def)
  then show ?thesis
    by (cases "ms_check m") (auto simp: ActCheck mon_effect_def check_act_def Let_def list_update_mon_def enqueueMonitorRequest_def split: if_splits)
next
  case (ActUpdate t e)
  then show ?thesis using assms
    by (auto simp: mon_act.simps with_answer_def mon_effect_def set_pc_def split: option.splits pc.splits)
qed (use assms in \<open>auto simp: mon_act.simps with_answer_def mon_internal_def mon_effect_def set_pc_def list_update_mon_def
      split: option.splits pc.splits if_splits receipt_result.splits\<close>)

subsection \<open>Every action keeps to one owner\<close>

definition query_status :: "pl_query \<Rightarrow> gostring" where
  "query_status k = (case k of ToSend \<Rightarrow> TxStatusPending | ToResend \<Rightarrow> TxStatusResend | ToMonitor \<Rightarrow> TxStatusSent)"

lemma run_query_status: "run_query k q db = GetL2TransactionsByStatus q (query_status k) db"
  by (simp add: run_query_def query_status_def GetL2TransactionsToSend_def GetL2TransactionsToResend_def
      GetL2TransactionsToMonitor_def split: pl_query.split)

text \<open>The work a query gives: transactions of the status asked for, each once.\<close>

lemma query_works:
  assumes inv: "db_inv db" and q: "faithful_query q" and res: "run_query k q db = (res, d)"
  obtains txs where "(case res of Inl err \<Rightarrow> [] | Inr txs \<Rightarrow> map (query_work k) txs) = map (query_work k \<circ> Some) txs"
    "distinct (map tx_Id txs)" "\<And>tx. tx \<in> set txs \<Longrightarrow> status_of db (tx_Id tx) = Some (query_status k)"
    "status_of d = status_of db" "db_inv d"
proof -
  define rows where "rows = (let rs = q_order q (filter (\<lambda>r. row_status r = query_status k) (db_rows db))
      in case q_cut q of None \<Rightarrow> rs | Some n \<Rightarrow> take n rs)"
  have perm: "mset (q_order q rs) = mset rs" and scan: "\<forall>r. q_scan q r = Inr (row_tx r)" and raw: "q_raw_len q = 0" for rs
    using q by (auto simp: faithful_query_def)
  have d: "status_of d = status_of db" "db_inv d"
    using inv res by (auto simp: run_query_status GetL2TransactionsByStatus_def Let_def split: stmt_outcome.splits)
  have res': "res = Inr (map (Some \<circ> row_tx) rows) \<or> (\<exists>err. res = Inl err)"
    using res by (auto simp: run_query_status GetL2TransactionsByStatus_def Let_def rows_def raw scan_rows_all [OF scan]
        split: stmt_outcome.splits option.splits)
  have "distinct (map row_id (filter (\<lambda>r. row_status r = query_status k) (db_rows db)))"
    using inv by (simp add: db_inv_def distinct_map_filter)
  then have "distinct (map row_id (q_order q (filter (\<lambda>r. row_status r = query_status k) (db_rows db))))"
    by (metis mset_eq_imp_distinct_iff mset_map perm)
  then have dist: "distinct (map row_id rows)"
    by (auto simp: rows_def Let_def take_map [symmetric] split: option.splits)
  have "set rows \<subseteq> set (q_order q (filter (\<lambda>r. row_status r = query_status k) (db_rows db)))"
    by (auto simp: rows_def Let_def split: option.splits dest: in_set_takeD)
  then have sub: "r \<in> set (db_rows db) \<and> row_status r = query_status k" if "r \<in> set rows" for r
    using that mset_eq_setD [OF perm] by fastforce
  have ids: "row_id = tx_Id \<circ> row_tx" by (rule ext) (simp add: row_id_def)
  show ?thesis
  proof (cases "\<exists>err. res = Inl err")
    case True
    then show ?thesis using d by (intro that [of "[]"]) auto
  next
    case False
    then show ?thesis
      using res' d dist sub status_of_row [OF inv]
      by (intro that [of "map row_tx rows"]) (auto simp: ids comp_def row_id_def)
  qed
qed

lemma empty_resend:
  assumes "unmarked db" and "db_inv db" and "faithful_query q" and "run_query ToResend q db = (res, d)"
  shows "(case res of Inl err \<Rightarrow> [] | Inr txs \<Rightarrow> map (query_work ToResend) txs) = []"
    "status_of d = status_of db" "db_inv d"
proof -
  from query_works [OF assms(2-4)] obtain txs where txs:
      "(case res of Inl err \<Rightarrow> [] | Inr txs \<Rightarrow> map (query_work ToResend) txs) = map (query_work ToResend \<circ> Some) txs"
      "\<And>tx. tx \<in> set txs \<Longrightarrow> status_of db (tx_Id tx) = Some TxStatusResend"
      "status_of d = status_of db" "db_inv d"
    by (metis query_status_def pl_query.simps(8))
  have "txs = []" using txs(2) assms(1) by (metis unmarked_def list.set_intros(1) neq_Nil_conv)
  then show "(case res of Inl err \<Rightarrow> [] | Inr txs \<Rightarrow> map (query_work ToResend) txs) = []" using txs(1) by simp
  show "status_of d = status_of db" "db_inv d" by (fact txs(3), fact txs(4))
qed

lemma unmarked_update:
  assumes "unmarked db" and "UpdateL2TransactionStatus i st msg db = (err, d)" and "st \<noteq> TxStatusResend"
  shows "unmarked d"
  unfolding unmarked_def
proof
  fix j show "status_of d j \<noteq> Some TxStatusResend"
    using assms status_of_update(1,2) [OF assms(2)] by (cases "j = i") (auto simp: unmarked_def)
qed

lemma fresh_act:
  assumes inv: "inv_fresh s" and mon: "mon_reach (pe_monitor e) FreshIds (pl_mon s)" and enc: "keeps_status e"
    and ok: "orderly e s a" and act: "pl_act e a s = Some (Some s')"
  shows "inv_fresh s'"
proof -
  let ?st = "status_of (pl_db s)"
  have db: "db_inv (pl_db s)" "unmarked (pl_db s)" using inv by (auto simp: inv_fresh_def)
  have cok: "caller_ok ?st c" if "caller_at e s t = Some c" for t c
    using caller_atD [OF that] inv by (auto simp: inv_fresh_def list_all_length)
  from act show ?thesis
  proof (cases rule: pl_act_cases)
    case (insert t tx i err d)
    have "err = None" using ok insert(1,3) by (simp add: orderly_def)
    with status_of_insert [OF db(1)] insert(3) obtain tx' where new: "?st i = None" "db_inv d"
        "pe_enc e (endpoint_tx tx) = Some tx'" "status_of d = ?st(i \<mapsto> tx_Status tx')" by blast
    have st: "tx_Status tx' = TxStatusPending" using enc new(3) by (auto simp: keeps_status_def endpoint_tx_def)
    show ?thesis
      by (rule fresh_put [OF inv insert(2)], simp add: insert(4))
        (use new st db in \<open>auto simp: insert(4) unmarked_def TxStatus_defs split: if_splits\<close>)
  next
    case (query t k q res d)
    have k: "k = ToResend" "faithful_query q" using ok query(1) by (auto simp: orderly_def)
    note r = empty_resend [OF db(2,1) k(2) query(3) [unfolded k(1)]]
    have "s' = put_caller t (Todo []) (s\<lparr>pl_db := d\<rparr>)" using query(4) by (simp only: k(1) r(1))
    then show ?thesis
      by (intro fresh_put [OF inv query(2), of s' "Todo []"]) (use r db in \<open>auto simp: unmarked_def\<close>)
  next
    case (send t tx ws q)
    show ?thesis
      by (rule fresh_put [OF inv send(2)], simp add: send(4)) (use db cok [OF send(2)] in \<open>auto simp: send(4)\<close>)
  next
    case (return t tx ws q)
    show ?thesis
      by (rule fresh_put [OF inv return(2)], simp add: return(4)) (use db cok [OF return(2)] in \<open>auto simp: return(4)\<close>)
  next
    case (update t tx err ws res d st msg)
    note u = status_of_update [OF update(4)]
    have c: "?st (tx_Id tx) = Some TxStatusPending" "list_all (work_ok ?st) ws" using cok [OF update(2)] by auto
    have nd: "nodup (all_ids s)" using inv by (simp add: inv_fresh_def)
    have "caller_ids (Updating tx err ws) \<subseteq># all_ids s"
    proof -
      have "all_ids s = (\<Sum>c\<leftarrow>(pl_callers s)[t := Todo []]. caller_ids c) + caller_ids (Updating tx err ws)"
        using sum_mset_list_update [of t "pl_callers s" caller_ids "Todo []"] caller_atD [OF update(2)]
        by (simp add: all_ids_def)
      then show ?thesis by simp
    qed
    then have "count (caller_ids (Updating tx err ws)) (tx_Id tx) \<le> 1"
      using nd mset_subset_eq_count [of "caller_ids (Updating tx err ws)" "all_ids s" "tx_Id tx"]
      unfolding nodup_def by (meson le_trans)
    then have notin: "tx_Id tx \<notin># work_ids ws" by (simp add: not_in_iff)
    have ws: "list_all (work_ok (status_of d)) ws"
      using c(2) by (rule works_ok_cong) (metis u(1) notin)
    have w: "watched_at (status_of d) (tx_Id tx)" if "err = None"
      using u(2) c(1) that update(3) by (auto simp: watched_at_def watched_def)
    have "st \<noteq> TxStatusResend" using update(3) by (auto simp: TxStatus_defs)
    note un = unmarked_update [OF db(2) update(4) this]
    show ?thesis
      by (rule fresh_put [OF inv update(2)], simp add: update(5))
        (use db un u ws w in \<open>auto simp: update(5) split: if_splits\<close>)
  next
    case (hand t now tx ws m)
    have seen: "ms_seen m = insert (tx_Id tx) (ms_seen (pl_mon s))" using mon_seen_act [OF hand(3)] by simp
    show ?thesis
      by (rule fresh_put [OF inv hand(2)], simp add: hand(4))
        (use db cok [OF hand(2)] seen in \<open>auto simp: hand(4)\<close>)
  next
    case (queue b q)
    then show ?thesis using inv by (simp add: inv_fresh_def all_ids_def)
  next
    case (monitor b err d m)
    have seen: "ms_seen m = ms_seen (pl_mon s)" by (rule mon_seen_internal [OF monitor(4,2)])
    show ?thesis
    proof (cases "mon_effect b (pl_mon s)")
      case None
      then have "d = pl_db s" using monitor(3) by (simp add: mon_answer_def)
      then show ?thesis using inv seen by (simp add: inv_fresh_def all_ids_def monitor(5))
    next
      case (Some x)
      then obtain i st where x: "mon_effect b (pl_mon s) = Some (i, st)" by (cases x) auto
      note live = mon_effect_live [OF mon x]
      have upd: "UpdateL2TransactionStatus i st [] (pl_db s) = (err, d)" using monitor(3) x by (simp add: mon_answer_def)
      note u = status_of_update [OF upd]
      have out: "i \<notin># all_ids s" using live(1) inv by (auto simp: inv_fresh_def)
      have other: "status_of d j = ?st j" if "j \<in># all_ids s" for j using u(1) out that by metis
      have "caller_ok (status_of d) c" if c: "c \<in> set (pl_callers s)" for c
      proof -
        have "caller_ok ?st c" using inv c by (simp add: inv_fresh_def list_all_iff)
        moreover have "j \<in># all_ids s" if "j \<in># caller_ids c" for j
          unfolding all_ids_def by (rule worker_sum_mem [where f = caller_ids, OF c that])
        ultimately show ?thesis using other by (intro caller_ok_cong [of ?st c "status_of d"]) auto
      qed
      moreover have "watched_at (status_of d) j" if "j \<in> ms_seen (pl_mon s)" for j
      proof (cases "j = i")
        case True
        have "watched_at ?st i" using inv live(1) by (simp add: inv_fresh_def)
        then show ?thesis using u(2) live(3) True by (auto simp: watched_at_def watched_def split: option.splits)
      next
        case False
        have "watched_at ?st j" using inv that by (simp add: inv_fresh_def)
        then show ?thesis using u(1) [OF False] by (simp add: watched_at_def)
      qed
      moreover have "st \<noteq> TxStatusResend" using live(3) by (auto simp: TxStatus_defs)
      ultimately show ?thesis
        using inv seen u(3) unmarked_update [OF db(2) upd]
        by (simp add: inv_fresh_def all_ids_def monitor(5) list_all_iff)
    qed
  qed
qed

lemma works_ids:
  "work_ids (map (query_work k \<circ> Some) txs) = mset (map tx_Id txs)"
  by (cases k) (induction txs; simp add: query_work_def)+

lemma booted_state:
  assumes "booted e s"
  shows "inv_fresh s" "mon_reach (pe_monitor e) FreshIds (pl_mon s)" "sq_reach (pe_sender e) (pl_q s)" "keeps_status e"
    "ms_log (pl_mon s) = []"
proof -
  obtain n db q1 q2 where b: "db_inv db" "unmarked db" "keeps_status e" "faithful_query q1" "faithful_query q2"
      "pl_run e (boot_queries q1 q2) (pl_init e n db) = Some s"
    using assms by (auto simp: booted_def)
  obtain s1 where s1: "pl_act e (PlQuery 0 ToMonitor q1) (pl_init e n db) = Some (Some s1)"
      "pl_act e (PlQuery 1 ToSend q2) s1 = Some (Some s)"
    using b(6) by (auto simp del: pl_act.simps simp: boot_queries_def split: option.splits)
  from s1(1) obtain res1 d1 where r1: "caller_at e (pl_init e n db) 0 = Some (Todo [])" "run_query ToMonitor q1 db = (res1, d1)"
      "s1 = put_caller 0 (Todo (case res1 of Inl err \<Rightarrow> [] | Inr txs \<Rightarrow> map (query_work ToMonitor) txs))
        ((pl_init e n db)\<lparr>pl_db := d1\<rparr>)"
    by (cases rule: pl_act_cases) simp_all
  from query_works [OF b(1,4) r1(2)] obtain m where m: "s1 = put_caller 0 (Todo (map (query_work ToMonitor \<circ> Some) m)) ((pl_init e n db)\<lparr>pl_db := d1\<rparr>)"
      "distinct (map tx_Id m)" "\<And>tx. tx \<in> set m \<Longrightarrow> status_of db (tx_Id tx) = Some TxStatusSent"
      "status_of d1 = status_of db" "db_inv d1"
    using r1(3) by (metis (lifting) query_status_def pl_query.simps(9))
  from s1(2) obtain res2 d2 where r2: "caller_at e s1 1 = Some (Todo [])" "run_query ToSend q2 d1 = (res2, d2)"
      "s = put_caller 1 (Todo (case res2 of Inl err \<Rightarrow> [] | Inr txs \<Rightarrow> map (query_work ToSend) txs)) (s1\<lparr>pl_db := d2\<rparr>)"
    by (cases rule: pl_act_cases) (simp_all add: m(1))
  from query_works [OF m(5) b(5) r2(2)] obtain w where w: "s = put_caller 1 (Todo (map (query_work ToSend \<circ> Some) w)) (s1\<lparr>pl_db := d2\<rparr>)"
      "distinct (map tx_Id w)" "\<And>tx. tx \<in> set w \<Longrightarrow> status_of db (tx_Id tx) = Some TxStatusPending"
      "status_of d2 = status_of db" "db_inv d2"
    using r2(3) m(4) by (metis (lifting) query_status_def pl_query.simps(7))
  have n: "1 < n" using caller_atD [OF r2(1)] by (simp add: m(1))
  then obtain k where k: "n = Suc (Suc k)" by (metis Suc_lessE gr0_implies_Suc One_nat_def)
  have cs: "pl_callers s = Todo (map (query_work ToMonitor \<circ> Some) m) # Todo (map (query_work ToSend \<circ> Some) w) # replicate k (Todo [])"
    by (simp add: w(1) m(1) k)
  have parts: "pl_mon s = mon_init (pe_monitor e) n ()" "pl_q s = sq_init (pe_sender e) n" "pl_db s = d2" by (simp_all add: w(1) m(1))
  have idle: "(\<Sum>c\<leftarrow>replicate k (Todo []). caller_ids c) = {#}" by (induction k) auto
  have all: "all_ids s = mset (map tx_Id m @ map tx_Id w)"
    unfolding all_ids_def cs by (simp add: idle works_ids del: map_replicate mset_map)
  have "set (map tx_Id m) \<inter> set (map tx_Id w) = {}" using m(3) w(3) by (force simp: TxStatus_defs)
  then have "nodup (all_ids s)"
    using m(2) w(2) unfolding all nodup_def by (simp only: distinct_count_atmost_1 distinct_append) auto
  moreover have "ms_seen (pl_mon s) = {}" by (simp add: parts mon_init_def)
  moreover have "unmarked d2" using b(2) w(4) by (simp add: unmarked_def)
  moreover have "list_all (caller_ok (status_of d2)) (pl_callers s)"
    using m(3) w(3) by (auto simp: cs list_all_iff query_work_def watched_at_def watched_def w(4))
  ultimately show "inv_fresh s" using w(5) by (simp add: inv_fresh_def parts)
  show "mon_reach (pe_monitor e) FreshIds (pl_mon s)" "sq_reach (pe_sender e) (pl_q s)" "keeps_status e"
    "ms_log (pl_mon s) = []"
    by (simp_all add: parts mon_reach.start sq_reach.start b(3)) (simp add: mon_init_def)
qed

text \<open>
  In such a state a caller hands over new identifiers only: the discipline of the monitor's
  callers is kept.
\<close>

lemma fresh_hands:
  assumes "inv_fresh s"
  shows "hands_ok e FreshIds s a"
proof -
  have "tx_Id tx \<notin> ms_seen (pl_mon s)" if t: "caller_at e s t = Some (Todo (HandTx (Some tx) # ws))" for t tx ws
  proof -
    have "Todo (HandTx (Some tx) # ws) \<in> set (pl_callers s)" using caller_atD [OF t] nth_mem by metis
    then have "tx_Id tx \<in># all_ids s"
      unfolding all_ids_def by (rule worker_sum_mem) simp
    then show ?thesis using assms by (auto simp: inv_fresh_def)
  qed
  then show ?thesis
    by (auto simp: hands_ok_def callable_def split: pl_action.split option.split pl_caller.split list.split work.split)
qed

lemma orderly_reach:
  assumes "booted e s0" and "pl_reach e (orderly e) s0 s"
  shows "inv_fresh s" "mon_reach (pe_monitor e) FreshIds (pl_mon s)" "sq_reach (pe_sender e) (pl_q s)"
    "pl_reach e (hands_ok e FreshIds) s0 s"
proof -
  note boot = booted_state [OF assms(1)]
  show "sq_reach (pe_sender e) (pl_q s)" by (rule pl_reach_queue [OF assms(2) boot(3)])
  from assms(2) have both: "inv_fresh s \<and> pl_reach e (hands_ok e FreshIds) s0 s"
  proof (induction rule: pl_reach.induct)
    case start
    show ?case using boot(1) by (simp add: pl_reach.start)
  next
    case (step s a s')
    have mon: "mon_reach (pe_monitor e) FreshIds (pl_mon s)"
      using pl_reach_monitor [OF _ boot(2)] step.IH by blast
    have "inv_fresh s'" using fresh_act [OF _ mon boot(4) step.hyps(2,3)] step.IH by blast
    moreover have "hands_ok e FreshIds s a" using fresh_hands step.IH by blast
    ultimately show ?case using pl_reach.step [OF _ _ step.hyps(3)] step.IH by blast
  qed
  then show "inv_fresh s" "pl_reach e (hands_ok e FreshIds) s0 s" by auto
  from pl_reach_monitor [OF this(2) boot(2)] show "mon_reach (pe_monitor e) FreshIds (pl_mon s)" .
qed

end
