(* ===== verification/PipelineProps.thy ===== *)
theory PipelineProps
  imports PipelineOrder
begin

section \<open>Properties of the whole\<close>

text \<open>
  What the composition guarantees for every interleaving in which the hand-overs keep a
  discipline, what it guarantees after an orderly start, the one panic there is and two schedules
  that lead to it, and how the monitor can stop working for ever without one.
\<close>

subsection \<open>Statuses in the database\<close>

lemma caller_status:
  assumes "inv_fresh s" and "caller_at e s t = Some c"
  shows "caller_ok (status_of (pl_db s)) c"
  using assms caller_atD [OF assms(2)] by (auto simp: inv_fresh_def list_all_length)

lemma caller_at_mem: "caller_at e s t = Some c \<Longrightarrow> c \<in> set (pl_callers s)"
  using caller_atD nth_mem by fastforce

lemma status_forward_act:
  assumes inv: "inv_fresh s" and mon: "mon_reach (pe_monitor e) FreshIds (pl_mon s)"
    and ok: "orderly e s a" and act: "pl_act e a s = Some (Some s')"
    and st: "status_of (pl_db s) i = Some x"
  shows "\<exists>y. status_of (pl_db s') i = Some y \<and> status_next x y"
proof -
  have db: "db_inv (pl_db s)" "unmarked (pl_db s)" using inv by (auto simp: inv_fresh_def)
  have refl: "status_next x x" by (simp add: status_next_def)
  have upd: "\<exists>y. status_of d i = Some y \<and> status_next x y"
    if "UpdateL2TransactionStatus j st' msg (pl_db s) = (res, d)" "i = j \<Longrightarrow> status_next x st'" for j st' msg res d
    using status_of_update(1,2) [OF that(1)] that(2) st refl by (cases "i = j") auto
  from act show ?thesis
  proof (cases rule: pl_act_cases)
    case (insert t tx j err d)
    have "err = None" using ok insert(1,3) by (simp add: orderly_def)
    then show ?thesis using status_of_insert [OF db(1)] insert(3,4) st refl by fastforce
  next
    case (query t k q res d)
    have k: "k = ToResend" "faithful_query q" using ok query(1) by (auto simp: orderly_def)
    show ?thesis using empty_resend(2) [OF db(2,1) k(2) query(3) [unfolded k(1)]] query(4) st refl by simp
  next
    case (update t tx err ws res d st' msg)
    have "status_of (pl_db s) (tx_Id tx) = Some TxStatusPending" using caller_status [OF inv update(2)] by simp
    then have "status_next x st'" if "i = tx_Id tx" using that st update(3) by (auto simp: status_next_def)
    then show ?thesis using upd [OF update(4)] update(5) by simp
  next
    case (monitor b err d m)
    show ?thesis
    proof (cases "mon_effect b (pl_mon s)")
      case None
      then have "d = pl_db s" using monitor(3) by (simp add: mon_answer_def)
      then show ?thesis using st refl by (simp add: monitor(5))
    next
      case (Some y)
      then obtain j st' where y: "mon_effect b (pl_mon s) = Some (j, st')" by (cases y) auto
      note live = mon_effect_live [OF mon y]
      have "status_next x st'" if "i = j"
        using inv live(1,3) that st by (auto simp: inv_fresh_def watched_at_def status_next_def)
      then show ?thesis using upd [of j st' "[]" err d] monitor(3) y by (simp add: mon_answer_def monitor(5))
    qed
  qed (use st refl in simp_all)
qed

text \<open>What the monitor has stored is in the database.\<close>

definition inv_stored :: "pipeline \<Rightarrow> bool" where
  "inv_stored s \<longleftrightarrow> (\<forall>(i, st, err)\<in>set (ms_log (pl_mon s)). err = None \<longrightarrow> status_of (pl_db s) i = Some st)"

lemma log_same:
  assumes "pl_act e a s = Some (Some s')" and "\<And>b. a \<noteq> PlMonitor b"
  shows "ms_log (pl_mon s') = ms_log (pl_mon s)"
  using assms(1)
proof (cases rule: pl_act_cases)
  case (hand t now tx ws m)
  then show ?thesis by (auto simp: mon_act.simps Let_def new_request_def set_pc_def split: if_splits)
qed (use assms(2) in auto)

text \<open>The status of a transaction that the monitor has seen changes by an update of the monitor only.\<close>

lemma seen_status:
  assumes inv: "inv_fresh s" and ok: "orderly e s a" and act: "pl_act e a s = Some (Some s')"
    and i: "i \<in> ms_seen (pl_mon s)" and other: "\<And>b st. a = PlMonitor b \<Longrightarrow> mon_effect b (pl_mon s) \<noteq> Some (i, st)"
  shows "status_of (pl_db s') i = status_of (pl_db s) i"
proof -
  have db: "db_inv (pl_db s)" "unmarked (pl_db s)" using inv by (auto simp: inv_fresh_def)
  from act show ?thesis
  proof (cases rule: pl_act_cases)
    case (insert t tx j err d)
    have "PoolDB.AddL2Transaction (pe_enc e) (endpoint_tx tx) (pl_db s) = ((j, None), d)"
      using ok insert(1,3) by (simp add: orderly_def)
    from status_of_insert(1,3) [OF db(1) this]
    obtain x where new: "status_of (pl_db s) j = None" "status_of d = (status_of (pl_db s))(j \<mapsto> x)"
      by blast
    have "i \<noteq> j" using inv i new(1) watched_at_known unfolding inv_fresh_def by metis
    then show ?thesis by (simp add: insert(4) new(2))
  next
    case (query t k q res d)
    have k: "k = ToResend" "faithful_query q" using ok query(1) by (auto simp: orderly_def)
    show ?thesis using empty_resend(2) [OF db(2,1) k(2) query(3) [unfolded k(1)]] by (simp add: query(4))
  next
    case (update t tx err ws res d st msg)
    have "tx_Id tx \<in># all_ids s"
      unfolding all_ids_def by (intro worker_sum_mem [OF caller_at_mem [OF update(2)]]) simp
    then have "i \<noteq> tx_Id tx" using inv i by (auto simp: inv_fresh_def)
    then show ?thesis using status_of_update(1) [OF update(4)] by (simp add: update(5))
  next
    case (monitor b err d m)
    show ?thesis
    proof (cases "mon_effect b (pl_mon s)")
      case None
      then show ?thesis using monitor(3) by (simp add: mon_answer_def monitor(5))
    next
      case (Some y)
      then obtain j st where y: "mon_effect b (pl_mon s) = Some (j, st)" by (cases y) auto
      then have "UpdateL2TransactionStatus j st [] (pl_db s) = (err, d)" using monitor(3) by (simp add: mon_answer_def)
      moreover have "i \<noteq> j" using other [OF monitor(1)] y by auto
      ultimately show ?thesis using status_of_update(1) by (simp add: monitor(5))
    qed
  qed simp_all
qed

lemma inv_stored_act:
  assumes inv: "inv_fresh s" and mon: "mon_reach (pe_monitor e) FreshIds (pl_mon s)" and stored: "inv_stored s"
    and ok: "orderly e s a" and act: "pl_act e a s = Some (Some s')"
  shows "inv_stored s'"
proof -
  have seen: "i \<in> ms_seen (pl_mon s)" if "(i, st, err) \<in> set (ms_log (pl_mon s))" for i st err
    using inv_onceD(2) [OF mon_reach_once [OF mon]] that by force
  show ?thesis
  proof (cases "\<exists>b j st. a = PlMonitor b \<and> mon_effect b (pl_mon s) = Some (j, st)")
    case False
    have "ms_log (pl_mon s') = ms_log (pl_mon s)"
    proof (cases "\<exists>b. a = PlMonitor b")
      case True
      then obtain b where b: "a = PlMonitor b" by blast
      have none: "mon_effect b (pl_mon s) = None" using False b by (cases "mon_effect b (pl_mon s)") auto
      obtain err m where m: "mon_internal b" "mon_act (pe_monitor e) (with_answer err b) (pl_mon s) = Some (Some m)" "pl_mon s' = m"
        using act b by (cases rule: pl_act_cases) auto
      show ?thesis using mon_effect_log [OF m(2,1)] none m(3) by simp
    qed (use log_same [OF act] in blast)
    then show ?thesis using stored seen seen_status [OF inv ok act] False by (fastforce simp: inv_stored_def)
  next
    case True
    then obtain b j st' where y: "a = PlMonitor b" "mon_effect b (pl_mon s) = Some (j, st')" by blast
    from act y(1) obtain err d m where m: "mon_answer b s = (err, d)" "mon_internal b"
        "mon_act (pe_monitor e) (with_answer err b) (pl_mon s) = Some (Some m)" "s' = s\<lparr>pl_mon := m, pl_db := d\<rparr>"
      by (cases rule: pl_act_cases) auto
    note log = mon_effect_log [OF m(3,2)] and live = mon_effect_live [OF mon y(2)]
    have upd: "UpdateL2TransactionStatus j st' [] (pl_db s) = (err, d)" using m(1) y by (simp add: mon_answer_def)
    have "status_of (pl_db s) j \<noteq> None" using inv live(1) watched_at_known by (auto simp: inv_fresh_def)
    then have new: "status_of d j = Some st'" if "err = None" using status_of_update(4) [OF upd that] by auto
    have "status_of d i = Some st" if i: "(i, st, None) \<in> set (ms_log (pl_mon s))" for i st
    proof -
      have "i \<in> set (final_ids (pl_mon s))" using i by (force simp: final_ids_def final_entry_def)
      then have "i \<noteq> j" using live(2) by auto
      then show ?thesis using status_of_update(1) [OF upd] stored i by (fastforce simp: inv_stored_def)
    qed
    then show ?thesis using new by (auto simp: inv_stored_def m(4) log y)
  qed
qed

lemma orderly_stored:
  assumes "booted e s0" and "pl_reach e (orderly e) s0 s"
  shows "inv_stored s"
  using assms(2)
proof (induction rule: pl_reach.induct)
  case start
  show ?case using booted_state(5) [OF assms(1)] by (simp add: inv_stored_def)
next
  case (step s a s')
  note here = orderly_reach [OF assms(1) step.hyps(1)]
  show ?case by (rule inv_stored_act [OF here(1,2) step.IH step.hyps(2,3)])
qed

subsection \<open>Nothing panics\<close>

lemma orderly_no_panic:
  assumes "booted e s0" and "pl_reach e (orderly e) s0 s"
  shows "pl_act e a s \<noteq> Some None"
proof
  assume bad: "pl_act e a s = Some None"
  note here = orderly_reach [OF assms]
  note mon = monitor_safe [OF here(2)] and q = send_no_panic [OF here(3)]
  have ok: "work_ok (status_of (pl_db s)) w" if "caller_at e s t = Some (Todo (w # ws))" for t w ws
    using caller_status [OF here(1) that] by simp
  show False
  proof (cases a)
    case (PlSend t)
    with bad obtain ws where "caller_at e s t = Some (Todo (SendTx None # ws))"
      using q by (auto split: option.splits pl_caller.splits list.splits work.splits)
    from ok [OF this] show False by simp
  next
    case (PlHand t now)
    with bad obtain ws where "caller_at e s t = Some (Todo (HandTx None # ws))"
      using mon by (auto split: option.splits pl_caller.splits list.splits work.splits)
    from ok [OF this] show False by simp
  qed (use bad q mon in \<open>auto simp: Let_def split: option.splits pl_caller.splits list.splits if_splits prod.splits\<close>)
qed

text \<open>A caller that has a transaction to hand over can do so.\<close>

lemma orderly_hand:
  assumes "booted e s0" and "pl_reach e (orderly e) s0 s"
    and t: "caller_at e s t = Some (Todo (HandTx tx # ws))"
  shows "\<exists>s'. pl_act e (PlHand t now) s = Some (Some s')"
proof -
  note here = orderly_reach [OF assms(1,2)]
  obtain x where x: "tx = Some x" using caller_status [OF here(1) t] by (cases tx) auto
  have "tx_Id x \<in># all_ids s"
    unfolding all_ids_def using x by (intro worker_sum_mem [OF caller_at_mem [OF t]]) simp
  then have "callable FreshIds (pl_mon s) x" using here(1) by (auto simp: inv_fresh_def callable_def)
  moreover have "pc_of (pl_mon s) (monitor_thread e t) = Some PcIdle"
    using t by (auto simp: caller_at_def split: if_splits)
  moreover have "\<not> is_worker (pe_monitor e) (monitor_thread e t)" by (simp add: is_worker_def monitor_thread_def)
  ultimately show ?thesis using t x by (simp add: mon_act.simps Let_def new_request_def split: prod.splits)
qed

text \<open>
  Without an orderly start, the only assumptions left are a discipline of the hand-overs and
  what the driver documents about queries. Then no caller ever has a nil pointer.
\<close>

definition disciplined :: "pl_env \<Rightarrow> discipline \<Rightarrow> pipeline \<Rightarrow> pl_action \<Rightarrow> bool" where
  "disciplined e disc s a \<longleftrightarrow> hands_ok e disc s a
     \<and> (case a of PlQuery t k q \<Rightarrow> faithful_query q | _ \<Rightarrow> True)"

definition no_nil :: "pl_caller \<Rightarrow> bool" where
  "no_nil c \<longleftrightarrow> SendTx None \<notin> set (caller_todo c) \<and> HandTx None \<notin> set (caller_todo c)"

lemma query_no_nil:
  assumes "faithful_query q" and "run_query k q db = (res, d)"
  shows "no_nil (Todo (case res of Inl err \<Rightarrow> [] | Inr txs \<Rightarrow> map (query_work k) txs))"
proof -
  have scan: "\<forall>r. q_scan q r = Inr (row_tx r)" "q_raw_len q = 0" using assms(1) by (auto simp: faithful_query_def)
  then show ?thesis using assms(2)
    by (auto simp: run_query_status GetL2TransactionsByStatus_def Let_def scan_rows_all [OF scan(1)] no_nil_def query_work_def
        split: stmt_outcome.splits option.splits if_splits)
qed

lemma no_nil_act:
  assumes "pl_act e a s = Some (Some s')" and "disciplined e disc s a" and "list_all no_nil (pl_callers s)"
  shows "list_all no_nil (pl_callers s')"
proof -
  have put: "list_all no_nil ((pl_callers s)[t := c])" if "no_nil c" for t c
    by (rule list_all_update [OF assms(3) that])
  have old: "no_nil c" if "caller_at e s t = Some c" for t c
    using caller_at_mem [OF that] assms(3) by (simp add: list_all_iff)
  from assms(1) show ?thesis
  proof (cases rule: pl_act_cases)
    case (insert t tx i err d)
    then show ?thesis using put by (simp add: no_nil_def)
  next
    case (query t k q res d)
    have "faithful_query q" using assms(2) query(1) by (simp add: disciplined_def)
    then show ?thesis using put query_no_nil [OF _ query(3)] query(4) by simp
  next
    case (send t tx ws q)
    then show ?thesis using put old [OF send(2)] by (simp add: no_nil_def)
  next
    case (return t tx ws q)
    then show ?thesis using put old [OF return(2)] by (simp add: no_nil_def)
  next
    case (update t tx err ws res d st msg)
    then show ?thesis using put old [OF update(2)] by (auto simp: no_nil_def split: if_splits)
  next
    case (hand t now tx ws m)
    then show ?thesis using put old [OF hand(2)] by (simp add: no_nil_def)
  qed (use assms(3) in simp_all)
qed

lemma disciplined_reach:
  assumes "pl_reach e (disciplined e disc) (pl_init e n db) s"
  shows "pl_reach e (hands_ok e disc) (pl_init e n db) s" "list_all no_nil (pl_callers s)"
proof -
  have "pl_reach e (hands_ok e disc) (pl_init e n db) s \<and> list_all no_nil (pl_callers s)"
    using assms
  proof (induction rule: pl_reach.induct)
    case start
    show ?case by (simp add: pl_reach.start no_nil_def list_all_iff)
  next
    case (step s a s')
    have "hands_ok e disc s a" using step.hyps(2) by (simp add: disciplined_def)
    then show ?case using no_nil_act [OF step.hyps(3,2)] pl_reach.step [OF _ _ step.hyps(3)] step.IH by blast
  qed
  then show "pl_reach e (hands_ok e disc) (pl_init e n db) s" "list_all no_nil (pl_callers s)" by auto
qed

lemma ok_queries:
  "run_ok e (hands_ok e disc) xs s \<Longrightarrow> (\<And>t k q. PlQuery t k q \<in> set xs \<Longrightarrow> faithful_query q) \<Longrightarrow>
   run_ok e (disciplined e disc) xs s"
proof (induction xs arbitrary: s)
  case (Cons a xs)
  have "disciplined e disc s a" using Cons.prems by (auto simp: disciplined_def split: pl_action.split)
  moreover have "run_ok e (disciplined e disc) xs s'" if "pl_act e a s = Some (Some s')" for s'
    using Cons.prems that by (intro Cons.IH) auto
  ultimately show ?case by (simp split: option.split)
qed simp

subsection \<open>Accepted transactions\<close>

lemma accepted_kept:
  assumes "pl_reach e ok (pl_init e n db) s" and "(p, body, None) \<in> set (sq_calls (pl_q s))"
  shows "CWait p \<in> set (sq_callers (pl_q s)) \<or> tx_Id (sr_l2Tx (sq_reqs (pl_q s) ! p)) \<in> kept_ids s"
proof -
  note q = pl_parts(1) [OF assms(1)] and inv = pl_reach_kept [OF assms(1)]
  have "p < length (sq_reqs (pl_q s))"
    using sq_reach_inv [OF q] assms(2) by (force simp: sq_inv_def inv_calls_def)
  then consider "CWait p \<in> set (sq_callers (pl_q s))" | err where "(p, err) \<in> set (sq_results (pl_q s))"
    using inv by (auto simp: inv_answered_def)
  then show ?thesis
  proof cases
    case (2 err)
    have "(p, body, None) \<in> set (calls_of (pl_q s) p)" using assms(2) by (simp add: calls_of_def)
    then have "err = None" using answers_own [OF q 2] by simp
    then show ?thesis using inv 2 by (simp add: inv_kept_def)
  qed simp
qed

subsection \<open>The retry loop asleep\<close>

lemma asleep_pl_act:
  assumes inv: "inv_fresh s" and mon: "mon_reach (pe_monitor e) FreshIds (pl_mon s)" and ok: "orderly e s a"
    and act: "pl_act e a s = Some (Some s')" and sl: "asleep (pl_mon s)"
    and p: "p \<in> set (sys_sorted (pl_mon s))" and i: "i = req_id (sys_heap (pl_mon s)) p"
  shows "asleep (pl_mon s')" "p \<in> set (sys_sorted (pl_mon s'))" "req_id (sys_heap (pl_mon s')) p = i"
    "status_of (pl_db s') i = status_of (pl_db s) i"
proof -
  have minv: "mon_inv FreshIds (pl_mon s)" using mon_reach_safe [OF mon] by (simp add: mon_safe_def)
  then have parts: "inv_heap (pl_mon s)" "inv_refs (pl_mon s)" "inv_ids FreshIds (pl_mon s)" by (auto simp: mon_inv_def)
  have dom: "p \<in> dom (sys_heap (pl_mon s))" using inv_refs_list [OF parts(2)] p by (auto simp: rl_inv_def)
  consider "pl_mon s' = pl_mon s" | b where "act_under (pe_monitor e) FreshIds b (pl_mon s) = Some (Some (pl_mon s'))"
    using pl_act_monitor [OF act fresh_hands [OF inv]] by blast
  then have "asleep (pl_mon s') \<and> p \<in> set (sys_sorted (pl_mon s')) \<and> req_id (sys_heap (pl_mon s')) p = i"
  proof cases
    case (2 b)
    show ?thesis using asleep_act [OF minv sl 2] req_id_act [OF parts(1) 2] dom p i by (auto simp: domIff)
  qed (use sl p i in simp)
  then show "asleep (pl_mon s')" "p \<in> set (sys_sorted (pl_mon s'))" "req_id (sys_heap (pl_mon s')) p = i" by auto
  have "i \<in> ms_seen (pl_mon s)" using parts(3) dom i by (auto simp: inv_ids_def)
  then show "status_of (pl_db s') i = status_of (pl_db s) i"
  proof (rule seen_status [OF inv ok act])
    fix b st
    have "req_id (sys_heap (pl_mon s)) q \<noteq> i" if "pc_of (pl_mon s) t = Some (PcUpdate q st)" for t q
      using asleep_effect [OF minv sl that p] i by metis
    then show "mon_effect b (pl_mon s) \<noteq> Some (i, st)"
      using sl by (fastforce simp: mon_effect_def asleep_def req_id_def deref_def
          split: action.splits option.splits pc.splits if_splits)
  qed
qed

subsection \<open>Requests that no worker receives\<close>

text \<open>No action stores a status of a request that is in the channel.\<close>

lemma channel_effect:
  assumes mon: "mon_reach cfg FreshIds m" and p: "p \<in> channel_refs m" and y: "mon_effect b m = Some (i, st)"
  shows "i \<noteq> req_id (sys_heap m) p"
proof -
  have inv: "inv_ids FreshIds m" "inv_refs m" "inv_check m"
    using mon_reach_safe [OF mon] by (auto simp: mon_safe_def mon_inv_def)
  have own: "p \<in># owned m" using p by (auto simp: channel_refs_def owned_def held_def)
  have heap: "sys_heap m p \<noteq> None" using inv(2) own by (auto simp: inv_refs_def)
  have once: "count (mset (m_sending (ms_mon m)) + mset (m_chan (ms_mon m)) + (\<Sum>c\<leftarrow>ms_threads m. pc_held c)) p \<le> 1"
  proof -
    have "count (owned m) p \<le> 1" using inv(2) by (simp add: inv_refs_def nodup_def)
    then show ?thesis by (simp add: owned_def held_def)
  qed
  have "1 \<le> count (mset (m_sending (ms_mon m)) + mset (m_chan (ms_mon m))) p"
    using p by (auto simp: channel_refs_def Suc_le_eq)
  then have free: "p \<notin># (\<Sum>c\<leftarrow>ms_threads m. pc_held c)" using once unfolding not_in_iff count_union by linarith
  obtain q where q: "sys_heap m q \<noteq> None" "i = req_id (sys_heap m) q" "q \<noteq> p"
  proof -
    from y consider
        (upd) t q r where "pc_of m t = Some (PcUpdate q st)" "deref (sys_heap m) q = Some r" "i = tx_Id (l2Tx r)"
      | (exp) q r where "ms_check m = CkExpire q" "deref (sys_heap m) q = Some r" "i = tx_Id (l2Tx r)"
      by (auto simp: mon_effect_def split: action.splits option.splits pc.splits cpc.splits)
    then show ?thesis
    proof cases
      case (upd t q r)
      have "q \<noteq> p" using free threads_member [OF upd(1), of q pc_held] by auto
      then show ?thesis using deref_heap [OF upd(2)] upd(3) by (intro that [of q]) (simp_all add: req_id_def)
    next
      case (exp q r)
      have "q \<noteq> p" using own inv(3) exp(1) by (auto simp: inv_check_def borrow_ok_def)
      then show ?thesis using deref_heap [OF exp(2)] exp(3) by (intro that [of q]) (simp_all add: req_id_def)
    qed
  qed
  then show "i \<noteq> req_id (sys_heap m) p" using inv(1) heap by (auto simp: inv_ids_def dest: inj_onD)
qed

lemma unreceived_pl_act:
  assumes inv: "inv_fresh s" and mon: "mon_reach (pe_monitor e) FreshIds (pl_mon s)" and ok: "orderly e s a"
    and act: "pl_act e a s = Some (Some s')" and dead: "dead_workers (pe_monitor e) (pl_mon s)"
    and p: "p \<in> channel_refs (pl_mon s)" and i: "i = req_id (sys_heap (pl_mon s)) p"
  shows "dead_workers (pe_monitor e) (pl_mon s')" "p \<in> channel_refs (pl_mon s')" "req_id (sys_heap (pl_mon s')) p = i"
    "status_of (pl_db s') i = status_of (pl_db s) i"
proof -
  have parts: "inv_heap (pl_mon s)" "inv_refs (pl_mon s)" "inv_ids FreshIds (pl_mon s)"
    using mon_reach_safe [OF mon] by (auto simp: mon_safe_def mon_inv_def)
  have "p \<in># owned (pl_mon s)" using p by (auto simp: channel_refs_def owned_def held_def)
  then have heap: "sys_heap (pl_mon s) p \<noteq> None" using parts(2) by (auto simp: inv_refs_def)
  consider "pl_mon s' = pl_mon s" | b where "act_under (pe_monitor e) FreshIds b (pl_mon s) = Some (Some (pl_mon s'))"
    using pl_act_monitor [OF act fresh_hands [OF inv]] by blast
  then have "dead_workers (pe_monitor e) (pl_mon s') \<and> p \<in> channel_refs (pl_mon s') \<and> req_id (sys_heap (pl_mon s')) p = i"
  proof cases
    case (2 b)
    show ?thesis using dead_workers_act [OF dead 2] req_id_act [OF parts(1) 2 heap] p i by auto
  qed (use dead p i in simp)
  then show "dead_workers (pe_monitor e) (pl_mon s')" "p \<in> channel_refs (pl_mon s')" "req_id (sys_heap (pl_mon s')) p = i" by auto
  have seen: "i \<in> ms_seen (pl_mon s)" using parts(3) heap i by (auto simp: inv_ids_def)
  have "mon_effect b (pl_mon s) \<noteq> Some (i, st)" for b st
    using channel_effect [OF mon p, of b i st] i by blast
  then show "status_of (pl_db s') i = status_of (pl_db s) i" by (intro seen_status [OF inv ok act seen])
qed

subsection \<open>Examples\<close>

text \<open>One worker of the sender, two of the monitor, two callers, one transaction confirmed.\<close>

definition ex_pl_env :: pl_env where
  "ex_pl_env = \<lparr>pe_sender = ex_sq_cfg, pe_monitor = ex_cfg, pe_enc = Some\<rparr>"

definition ex_pl_tx :: L2Transaction where
  "ex_pl_tx = mk_tx 0 ''0xab'' (clock 0)"

definition ex_send :: "nat \<Rightarrow> pl_action list" where
  "ex_send t = [PlSend t, PlQueue (SqHandoff 0 0), PlQueue (SqCall 0 None), PlQueue (SqStore 0),
     PlQueue (SqDone 0), PlReturn t, PlUpdate t]"

definition ex_boot :: "pl_action list" where
  "ex_boot = boot_queries (in_order_query None) (in_order_query None)"

definition ex_pl_run :: "pl_action list" where
  "ex_pl_run = [PlInsert 0 ex_pl_tx, PlQueue (SqDial 0 None)] @ ex_send 0
     @ [PlHand 0 (clock 0), PlMonitor (ActDial 0 None), PlMonitor (ActDial 1 None),
        PlMonitor (ActHandoff 0 0), PlMonitor (ActReceipt 0 (Receipt 1)),
        PlMonitor (ActUpdate 0 None), PlMonitor (ActDelete 0)]"

definition ex_pl_start :: "pipeline" where
  "ex_pl_start = pl_init ex_pl_env 2 (NewPoolDB calm)"

text \<open>The bound of the serial key, as a comparison of binary numbers.\<close>

lemma serial_bound [code_unfold]: "max_serial < n \<longleftrightarrow> (2147483647 :: int) < int n"
  by (simp add: max_serial_def)

definition plain_action :: "pl_env \<Rightarrow> pipeline \<Rightarrow> pl_action \<Rightarrow> bool" where
  "plain_action e s a \<longleftrightarrow>
     (case a of
        PlInsert t tx \<Rightarrow> snd (fst (PoolDB.AddL2Transaction (pe_enc e) (endpoint_tx tx) (pl_db s))) = None
      | PlQuery t k q \<Rightarrow> False
      | _ \<Rightarrow> True)"

lemma plain_orderly: "run_ok e (plain_action e) xs s \<Longrightarrow> run_ok e (orderly e) xs s"
proof (induction xs arbitrary: s)
  case (Cons a xs)
  have "orderly e s a" using Cons.prems by (cases a) (auto simp: plain_action_def orderly_def)
  then show ?case using Cons by (auto split: option.splits)
qed simp

lemma booted_run:
  assumes "pl_run e (boot_queries q1 q2) (pl_init e n db) = Some s0"
    and "db_inv db" "unmarked db" "keeps_status e" "faithful_query q1" "faithful_query q2"
  shows "booted e s0"
  using assms unfolding booted_def by blast

lemma ex_booted:
  assumes "case pl_run ex_pl_env ex_boot ex_pl_start of
       None \<Rightarrow> False
     | Some s0 \<Rightarrow> (case pl_run ex_pl_env xs s0 of None \<Rightarrow> False | Some s \<Rightarrow> P s)
         \<and> run_ok ex_pl_env (plain_action ex_pl_env) xs s0"
  obtains s0 s where "booted ex_pl_env s0" "pl_run ex_pl_env xs s0 = Some s"
    "pl_reach ex_pl_env (orderly ex_pl_env) s0 s" "P s"
proof -
  from assms obtain s0 s where s: "pl_run ex_pl_env ex_boot ex_pl_start = Some s0"
      "pl_run ex_pl_env xs s0 = Some s" "P s" "run_ok ex_pl_env (plain_action ex_pl_env) xs s0"
    by (auto split: option.splits)
  have "unmarked (NewPoolDB calm)" by (simp add: unmarked_def status_of_def NewPoolDB_def)
  moreover have "keeps_status ex_pl_env" by (simp add: keeps_status_def ex_pl_env_def)
  ultimately have "booted ex_pl_env s0"
    using s(1) unfolding ex_boot_def ex_pl_start_def by (intro booted_run) (auto simp: db_inv_new faithful_in_order)
  then show ?thesis using s pl_run_reach [OF s(2) pl_reach.start plain_orderly [OF s(4)]] that by blast
qed

lemma ex_pl_run:
  "case pl_run ex_pl_env ex_boot ex_pl_start of
     None \<Rightarrow> False
   | Some s0 \<Rightarrow> (case pl_run ex_pl_env ex_pl_run s0 of None \<Rightarrow> False
       | Some s \<Rightarrow> status_of (pl_db s) 1 = Some TxStatusConfirmed \<and> ms_log (pl_mon s) = [(1, TxStatusConfirmed, None)]
           \<and> sq_calls (pl_q s) = [(0, [], None)])
     \<and> run_ok ex_pl_env (plain_action ex_pl_env) ex_pl_run s0"
  by code_simp

lemma ex_pl_states:
  obtains s0 s where "booted ex_pl_env s0" "pl_run ex_pl_env ex_pl_run s0 = Some s"
    "pl_reach ex_pl_env (orderly ex_pl_env) s0 s" "status_of (pl_db s) 1 = Some TxStatusConfirmed"
    "ms_log (pl_mon s) = [(1, TxStatusConfirmed, None)]" "sq_calls (pl_q s) = [(0, [], None)]"
  by (rule ex_booted [OF ex_pl_run]) blast

lemma pl_reach_trans:
  "pl_reach e ok s s' \<Longrightarrow> pl_reach e ok s0 s \<Longrightarrow> pl_reach e ok s0 s'"
  by (induction rule: pl_reach.induct) (auto intro: pl_reach.step)

lemma pl_reach_mono: "pl_reach e ok s0 s \<Longrightarrow> pl_reach e any_action s0 s"
  by (induction rule: pl_reach.induct) (auto intro: pl_reach.intros)

text \<open>A run after an orderly start is a run of the program that keeps the discipline.\<close>

lemma booted_reach:
  assumes "booted e s0" and "pl_reach e (orderly e) s0 s"
  obtains n db where "pl_reach e (hands_ok e FreshIds) (pl_init e n db) s"
proof -
  from assms(1) obtain n db q1 q2 where boot: "pl_run e (boot_queries q1 q2) (pl_init e n db) = Some s0"
    by (auto simp: booted_def)
  have "run_ok e (hands_ok e FreshIds) (boot_queries q1 q2) (pl_init e n db)"
    by (auto simp: boot_queries_def hands_ok_def simp del: pl_act.simps split: option.split)
  from pl_reach_trans [OF orderly_reach(4) [OF assms] pl_run_reach [OF boot pl_reach.start this]] that
  show ?thesis by blast
qed

subsection \<open>Properties\<close>

text \<open>
  C3. As long as what the callers hand over keeps a discipline (only new identifiers, or only
  transactions of which one hash always has one identifier), a transaction the sequencer has
  accepted is never lost between the parts: its caller is still to be woken, or some caller has
  it to hand over, or the monitor works on it, or the monitor is done with it. This holds in
  every state such runs reach, whatever the database answers and in whatever order the parts
  start. Every run after an orderly start keeps the first discipline (lemma \<open>booted_reach\<close>); the
  second allows a transaction to be sent twice. The program itself checks neither: without
  them an accepted transaction can be lost (lemma \<open>undisciplined_callers\<close> of theory
  \<open>MonitorProps\<close>).
\<close>
theorem accepted_never_lost:
  assumes "pl_reach e (hands_ok e disc) (pl_init e n db) s" and "(p, body, None) \<in> set (sq_calls (pl_q s))"
    and "i = tx_Id (sr_l2Tx (sq_reqs (pl_q s) ! p))"
  shows "CWait p \<in> set (sq_callers (pl_q s))
    \<or> (\<exists>c tx. c \<in> set (pl_callers s) \<and> HandTx (Some tx) \<in> set (caller_todo c) \<and> tx_Id tx = i)
    \<or> i \<in> done_ids (pl_mon s)
    \<or> (\<exists>q r. (q \<in> set (sys_sorted (pl_mon s)) \<or> q \<in># held (pl_mon s)) \<and> sys_heap (pl_mon s) q = Some r \<and> tx_Id (l2Tx r) = i)"
proof -
  consider "CWait p \<in> set (sq_callers (pl_q s))" | "i \<in> to_hand s" | "i \<in> ms_seen (pl_mon s)"
    using accepted_kept [OF assms(1,2)] assms(3) by (auto simp: kept_ids_def)
  then show ?thesis
  proof cases
    case 2
    then show ?thesis unfolding to_hand_def by blast
  next
    case 3
    from never_forgets [OF pl_parts(2) [OF assms(1)] this] show ?thesis by blast
  qed blast
qed

theorem accepted_never_lost_witness:
  "\<exists>s. pl_run ex_pl_env (take 8 ex_pl_run) ex_pl_start = Some s \<and> sq_calls (pl_q s) = [(0, [], None)]
     \<and> (\<exists>c tx. c \<in> set (pl_callers s) \<and> HandTx (Some tx) \<in> set (caller_todo c) \<and> tx_Id tx = 1)"
proof -
  have "case pl_run ex_pl_env (take 8 ex_pl_run) ex_pl_start of None \<Rightarrow> False
    | Some s \<Rightarrow> sq_calls (pl_q s) = [(0, [], None)] \<and> sq_callers (pl_q s) = [CIdle, CIdle] \<and> ms_seen (pl_mon s) = {}
        \<and> tx_Id (sr_l2Tx (sq_reqs (pl_q s) ! 0)) = 1 \<and> ms_log (pl_mon s) = [] \<and> sys_sorted (pl_mon s) = []
        \<and> held (pl_mon s) = {#}"
    by code_simp
  then obtain s where s: "pl_run ex_pl_env (take 8 ex_pl_run) ex_pl_start = Some s"
      "sq_calls (pl_q s) = [(0, [], None)]" "sq_callers (pl_q s) = [CIdle, CIdle]"
      "1 = tx_Id (sr_l2Tx (sq_reqs (pl_q s) ! 0))" "ms_log (pl_mon s) = []" "sys_sorted (pl_mon s) = []" "held (pl_mon s) = {#}"
    by (auto split: option.splits)
  have "run_ok ex_pl_env (hands_ok ex_pl_env FreshIds) (take 8 ex_pl_run) ex_pl_start" by code_simp
  note r = pl_run_reach [OF s(1) pl_reach.start this]
  have call: "(0, [], None) \<in> set (sq_calls (pl_q s))" by (simp add: s(2))
  from accepted_never_lost [OF r [unfolded ex_pl_start_def] call s(4)] s show ?thesis
    by (auto simp: done_ids_def)
qed

text \<open>
  C4. After an orderly start, in which insertions succeed, and whatever other statements fail, the
  status of a row only moves forward: from \<open>pending\<close> to \<open>sent\<close>
  or \<open>invalid\<close>, or to what the monitor decides; never back, and never on from \<open>invalid\<close>. In
  particular the sender's late update never overwrites what the monitor stored.
\<close>
theorem status_only_forward:
  assumes "booted e s0" and "pl_reach e (orderly e) s0 s" and "pl_reach e (orderly e) s s'"
    and "status_of (pl_db s) i = Some x"
  shows "\<exists>y. status_of (pl_db s') i = Some y \<and> status_next x y"
  using assms(3)
proof (induction rule: pl_reach.induct)
  case start
  show ?case using assms(4) by (simp add: status_next_def)
next
  case (step s1 a s2)
  then obtain y where y: "status_of (pl_db s1) i = Some y" "status_next x y" by blast
  note here = orderly_reach [OF assms(1) pl_reach_trans [OF step.hyps(1) assms(2)]]
  from status_forward_act [OF here(1,2) step.hyps(2,3) y(1)] y(2) show ?case by (blast intro: status_next_trans)
qed

theorem status_only_forward_witness:
  "\<exists>s0 s s'. pl_run ex_pl_env [PlInsert 0 ex_pl_tx] s0 = Some s \<and> pl_run ex_pl_env (tl ex_pl_run) s = Some s'
     \<and> status_of (pl_db s) 1 = Some TxStatusPending
     \<and> (\<exists>y. status_of (pl_db s') 1 = Some y \<and> status_next TxStatusPending y)"
proof -
  have "case pl_run ex_pl_env ex_boot ex_pl_start of None \<Rightarrow> False
    | Some s0 \<Rightarrow> (case pl_run ex_pl_env [PlInsert 0 ex_pl_tx] s0 of None \<Rightarrow> False
        | Some s \<Rightarrow> status_of (pl_db s) 1 = Some TxStatusPending \<and> run_ok ex_pl_env (plain_action ex_pl_env) (tl ex_pl_run) s
            \<and> (case pl_run ex_pl_env (tl ex_pl_run) s of None \<Rightarrow> False | Some s' \<Rightarrow> True))
      \<and> run_ok ex_pl_env (plain_action ex_pl_env) [PlInsert 0 ex_pl_tx] s0"
    by code_simp
  then obtain s0 s where s: "booted ex_pl_env s0" "pl_run ex_pl_env [PlInsert 0 ex_pl_tx] s0 = Some s"
      "pl_reach ex_pl_env (orderly ex_pl_env) s0 s" "status_of (pl_db s) 1 = Some TxStatusPending"
      "run_ok ex_pl_env (plain_action ex_pl_env) (tl ex_pl_run) s"
      "case pl_run ex_pl_env (tl ex_pl_run) s of None \<Rightarrow> False | Some s' \<Rightarrow> True"
    by (rule ex_booted) blast
  then obtain s' where s': "pl_run ex_pl_env (tl ex_pl_run) s = Some s'" by (auto split: option.splits)
  note r = pl_run_reach [OF s' pl_reach.start plain_orderly [OF s(5)]]
  from status_only_forward [OF s(1,3) r s(4)] s(2,4) s' show ?thesis by blast
qed

text \<open>
  C5. After an orderly start the monitor's word is final: the status that it has stored for a
  transaction without an error is the status of the row, in every later state.
\<close>
theorem stored_status_stays:
  assumes "booted e s0" and "pl_reach e (orderly e) s0 s" and "(i, st, None) \<in> set (ms_log (pl_mon s))"
  shows "status_of (pl_db s) i = Some st"
  using orderly_stored [OF assms(1,2)] assms(3) by (auto simp: inv_stored_def)

theorem stored_status_stays_witness:
  "\<exists>s0 s. booted ex_pl_env s0 \<and> pl_run ex_pl_env ex_pl_run s0 = Some s \<and> status_of (pl_db s) 1 = Some TxStatusConfirmed"
proof -
  obtain s0 s where s: "booted ex_pl_env s0" "pl_run ex_pl_env ex_pl_run s0 = Some s"
      "pl_reach ex_pl_env (orderly ex_pl_env) s0 s" "ms_log (pl_mon s) = [(1, TxStatusConfirmed, None)]"
    by (rule ex_pl_states)
  then have "(1, TxStatusConfirmed, None) \<in> set (ms_log (pl_mon s))" by simp
  from stored_status_stays [OF s(1,3) this] s show ?thesis by blast
qed

text \<open>
  C6. After an orderly start, in which insertions succeed, no goroutine of the sender, the monitor or the callers can panic,
  in any interleaving.
\<close>
theorem orderly_never_panics:
  assumes "booted e s0" and "pl_reach e (orderly e) s0 s"
  shows "pl_act e a s \<noteq> Some None"
  by (rule orderly_no_panic [OF assms])

theorem orderly_never_panics_witness:
  "\<exists>s0 s. pl_run ex_pl_env ex_pl_run s0 = Some s \<and> pl_act ex_pl_env (PlMonitor (ActCheck (clock 0) None)) s \<noteq> Some None"
proof -
  obtain s0 s where s: "booted ex_pl_env s0" "pl_run ex_pl_env ex_pl_run s0 = Some s"
      "pl_reach ex_pl_env (orderly ex_pl_env) s0 s"
    by (rule ex_pl_states)
  from orderly_never_panics [OF s(1,3)] s(2) show ?thesis by blast
qed

definition ex_race_tail :: "pl_action list" where
  "ex_race_tail =
     [PlSend 0, PlSend 1, PlQueue (SqDial 0 None), PlMonitor (ActDial 0 None), PlMonitor (ActDial 1 None),
      PlQueue (SqHandoff 0 0), PlQueue (SqCall 0 None), PlQueue (SqStore 0), PlQueue (SqDone 0),
      PlQueue (SqHandoff 0 0), PlQueue (SqCall 0 None), PlQueue (SqStore 0), PlQueue (SqDone 0),
      PlReturn 0, PlReturn 1, PlUpdate 0, PlUpdate 1,
      PlHand 0 (clock 0), PlMonitor (ActHandoff 0 0), PlMonitor (ActReceipt 0 ReceiptNotFound),
      PlMonitor (ActRetry 0 (clock 10)), PlMonitor (ActAdd 0), PlMonitor (ActLen 0), PlMonitor (ActSignal 0),
      PlHand 1 (clock 20), PlMonitor (ActHandoff 1 0), PlMonitor (ActReceipt 1 (Receipt 1)),
      PlMonitor (ActUpdate 1 None), PlMonitor (ActCheck (clock 30) None), PlMonitor (ActDelete 1)]"

text \<open>
  When a request arrives before the query of \<open>sender.Start\<close>, the query returns its row as well.
  The transaction is sent to the sequencer twice, handed to the monitor twice, and then the
  retry loop can read index 0 of a list that a worker has just emptied. All statements succeed
  in this run, and one hash has one identifier.
\<close>

definition ex_race_run :: "pl_action list" where
  "ex_race_run = [PlInsert 0 ex_pl_tx, PlQuery 1 ToSend (in_order_query None)] @ ex_race_tail"

lemma start_race_panics:
  "case pl_run ex_pl_env ex_race_run ex_pl_start of
     None \<Rightarrow> False
   | Some s \<Rightarrow> map (snd \<circ> snd) (sq_calls (pl_q s)) = [None, None]
       \<and> (case pl_act ex_pl_env (PlMonitor (ActCheck (clock 40) None)) s of Some None \<Rightarrow> True | _ \<Rightarrow> False)"
  by code_simp

text \<open>
  C11. The one panic. However the parts start, and whatever statements fail, as long as one hash
  has one identifier in what is handed over (or only new identifiers are) and queries behave as
  the driver documents: when a goroutine of the callers, the sender or the monitor panics, it is
  the retry loop, between its test of the length and \<open>getByIndex(0)\<close>, on a list that has been
  emptied meanwhile. The witness reaches it: a request that arrives before the query of
  \<open>sender.Start\<close> is sent and handed over twice.
\<close>
theorem only_panic_of_pipeline:
  assumes "pl_reach e (disciplined e disc) (pl_init e n db) s" and "pl_act e a s = Some None"
  shows "\<exists>now err t. a = PlMonitor (ActCheck now err) \<and> ms_check (pl_mon s) = CkFirst t
    \<and> GetSorted (sys_list (pl_mon s)) = []"
proof -
  note here = disciplined_reach [OF assms(1)]
  have inv: "mon_inv disc (pl_mon s)" using mon_reach_safe [OF pl_parts(2) [OF here(1)]] by (simp add: mon_safe_def)
  have q: "sq_act (pe_sender e) b (pl_q s) \<noteq> Some None" for b by (rule send_no_panic [OF pl_parts(1) [OF here(1)]])
  have nil: "SendTx None \<notin> set ws \<and> HandTx None \<notin> set ws" if "caller_at e s t = Some (Todo ws)" for t ws
    using here(2) caller_at_mem [OF that] by (auto simp: list_all_iff no_nil_def)
  have hand: "mon_act (pe_monitor e) (ActCall t now tx) (pl_mon s) \<noteq> Some None" for t now tx
    using only_panic [OF inv] by blast
  obtain b err where b: "a = PlMonitor b" "mon_act (pe_monitor e) (with_answer err b) (pl_mon s) = Some None"
    using assms(2) q hand nil
    by (cases a; fastforce simp: Let_def split: option.splits pl_caller.splits list.splits work.splits if_splits prod.splits)
  from only_panic [OF inv b(2)] obtain now x t where "with_answer err b = ActCheck now x"
      "ms_check (pl_mon s) = CkFirst t" "sys_sorted (pl_mon s) = []" by blast
  then show ?thesis using b(1) by (cases b) (auto simp: with_answer_def GetSorted_def)
qed

theorem only_panic_of_pipeline_witness:
  "\<exists>s. pl_run ex_pl_env ex_race_run ex_pl_start = Some s
     \<and> pl_act ex_pl_env (PlMonitor (ActCheck (clock 40) None)) s = Some None
     \<and> (\<exists>t. ms_check (pl_mon s) = CkFirst t) \<and> GetSorted (sys_list (pl_mon s)) = []"
proof -
  have ok: "run_ok ex_pl_env (hands_ok ex_pl_env HashIds) ex_race_run ex_pl_start" by code_simp
  obtain s where s: "pl_run ex_pl_env ex_race_run ex_pl_start = Some s"
      "pl_act ex_pl_env (PlMonitor (ActCheck (clock 40) None)) s = Some None"
    using start_race_panics by (auto split: option.splits)
  have "run_ok ex_pl_env (disciplined ex_pl_env HashIds) ex_race_run ex_pl_start"
    by (rule ok_queries [OF ok]) (auto simp: ex_race_run_def ex_race_tail_def faithful_in_order)
  from only_panic_of_pipeline [OF pl_run_reach [OF s(1) pl_reach.start this, unfolded ex_pl_start_def] s(2)] s
  show ?thesis by blast
qed

text \<open>
  C16. The wake-up of the retry loop can be lost. \<open>addRequestToRetryList\<close> signals only when it
  reads the length 1, and the loop decides to wait without holding the lock of the condition
  variable. Once, after an orderly start, the loop waits on a list that is not empty and no
  goroutine is about to signal, it waits for ever, in every continuation with whatever new
  requests: a listed request stays listed, it is neither retried nor expired, and the status
  of its row never changes again. That the program gets there is shown by the witness: the
  loop reads the length 0, a request is listed and signalled, the loop waits.
\<close>
theorem wakeup_lost_forever:
  assumes "booted e s0" and "pl_reach e (orderly e) s0 s" and "asleep (pl_mon s)"
    and "pl_reach e (orderly e) s s'"
    and "p \<in> set (GetSorted (sys_list (pl_mon s)))" and "sys_heap (pl_mon s) p = Some r"
  shows "asleep (pl_mon s') \<and> p \<in> set (GetSorted (sys_list (pl_mon s')))
    \<and> status_of (pl_db s') (tx_Id (l2Tx r)) = status_of (pl_db s) (tx_Id (l2Tx r))"
proof -
  define i where "i = req_id (sys_heap (pl_mon s)) p"
  have id: "tx_Id (l2Tx r) = i" by (simp add: i_def req_id_def assms(6))
  have "asleep (pl_mon s') \<and> p \<in> set (sys_sorted (pl_mon s')) \<and> req_id (sys_heap (pl_mon s')) p = i
      \<and> status_of (pl_db s') i = status_of (pl_db s) i"
    using assms(4)
  proof (induction rule: pl_reach.induct)
    case start
    show ?case using assms(3,5) by (simp add: GetSorted_def i_def)
  next
    case (step s1 a s2)
    note here = orderly_reach [OF assms(1) pl_reach_trans [OF step.hyps(1) assms(2)]]
    from asleep_pl_act [OF here(1,2) step.hyps(2,3)] step.IH show ?case by metis
  qed
  then show ?thesis by (simp add: id GetSorted_def)
qed

text \<open>One request goes through sender, monitor and a failed receipt while the loop decides to wait.\<close>

definition ex_asleep_run :: "pl_action list" where
  "ex_asleep_run = [PlMonitor (ActCheck (clock 0) None), PlInsert 0 ex_pl_tx, PlQueue (SqDial 0 None)] @ ex_send 0
     @ [PlMonitor (ActDial 0 None), PlHand 0 (clock 0), PlMonitor (ActHandoff 0 0),
        PlMonitor (ActReceipt 0 ReceiptNotFound), PlMonitor (ActRetry 0 (clock 10)), PlMonitor (ActAdd 0),
        PlMonitor (ActLen 0), PlMonitor (ActSignal 0), PlMonitor (ActCheck (clock 20) None)]"

text \<open>What the clients and the workers do next does not help: a second request is confirmed.\<close>

definition ex_after_run :: "pl_action list" where
  "ex_after_run = [PlInsert 1 (ex_pl_tx\<lparr>tx_Hash := ''0xcd''\<rparr>)] @ ex_send 1
     @ [PlHand 1 (clock 30), PlMonitor (ActHandoff 0 0), PlMonitor (ActReceipt 0 (Receipt 1)),
        PlMonitor (ActUpdate 0 None), PlMonitor (ActDelete 0)]"

lemma ex_asleep:
  "case pl_run ex_pl_env ex_boot ex_pl_start of
     None \<Rightarrow> False
   | Some s0 \<Rightarrow> (case pl_run ex_pl_env ex_asleep_run s0 of None \<Rightarrow> False
       | Some s \<Rightarrow> asleep (pl_mon s) \<and> GetSorted (sys_list (pl_mon s)) = [1]
           \<and> map_option (tx_Id \<circ> l2Tx) (sys_heap (pl_mon s) 1) = Some 1 \<and> status_of (pl_db s) 1 = Some TxStatusSent
           \<and> run_ok ex_pl_env (plain_action ex_pl_env) ex_after_run s
           \<and> (case pl_run ex_pl_env ex_after_run s of None \<Rightarrow> False | Some s' \<Rightarrow> True))
     \<and> run_ok ex_pl_env (plain_action ex_pl_env) ex_asleep_run s0"
  by code_simp

theorem wakeup_lost_forever_witness:
  "\<exists>s0 s s'. booted ex_pl_env s0 \<and> pl_run ex_pl_env ex_asleep_run s0 = Some s \<and> asleep (pl_mon s)
     \<and> pl_run ex_pl_env ex_after_run s = Some s'
     \<and> asleep (pl_mon s') \<and> status_of (pl_db s') 1 = Some TxStatusSent"
proof -
  obtain s0 s where s: "booted ex_pl_env s0" "pl_run ex_pl_env ex_asleep_run s0 = Some s"
      "pl_reach ex_pl_env (orderly ex_pl_env) s0 s" "asleep (pl_mon s)" "GetSorted (sys_list (pl_mon s)) = [1]"
      "map_option (tx_Id \<circ> l2Tx) (sys_heap (pl_mon s) 1) = Some 1" "status_of (pl_db s) 1 = Some TxStatusSent"
      "run_ok ex_pl_env (plain_action ex_pl_env) ex_after_run s"
      "case pl_run ex_pl_env ex_after_run s of None \<Rightarrow> False | Some s' \<Rightarrow> True"
    by (rule ex_booted [OF ex_asleep]) blast
  then obtain s' r where s': "pl_run ex_pl_env ex_after_run s = Some s'" "sys_heap (pl_mon s) 1 = Some r" "tx_Id (l2Tx r) = 1"
    by (auto split: option.splits)
  note r = pl_run_reach [OF s'(1) pl_reach.start plain_orderly [OF s(8)]]
  have one: "1 \<in> set (GetSorted (sys_list (pl_mon s)))" by (simp add: s(5))
  from wakeup_lost_forever [OF s(1,3,4) r one s'(2)] s(1,2,4,7) s'(1,3) show ?thesis by auto
qed

text \<open>
  C12. When, after an orderly start, every worker of the monitor has failed to dial the node and so
  returned, a request in the channel or on its way into it stays there in every continuation, and
  the status of its row never changes again: the transaction is not even marked as expired,
  because only requests in the retry list can be.
\<close>
theorem unreceived_for_ever:
  assumes "booted e s0" and "pl_reach e (orderly e) s0 s" and "dead_workers (pe_monitor e) (pl_mon s)"
    and "pl_reach e (orderly e) s s'"
    and "p \<in> channel_refs (pl_mon s)" and "sys_heap (pl_mon s) p = Some r"
  shows "p \<in> channel_refs (pl_mon s')
    \<and> status_of (pl_db s') (tx_Id (l2Tx r)) = status_of (pl_db s) (tx_Id (l2Tx r))"
proof -
  define i where "i = req_id (sys_heap (pl_mon s)) p"
  have id: "tx_Id (l2Tx r) = i" by (simp add: i_def req_id_def assms(6))
  have "dead_workers (pe_monitor e) (pl_mon s') \<and> p \<in> channel_refs (pl_mon s') \<and> req_id (sys_heap (pl_mon s')) p = i
      \<and> status_of (pl_db s') i = status_of (pl_db s) i"
    using assms(4)
  proof (induction rule: pl_reach.induct)
    case start
    show ?case using assms(3,5) by (simp add: i_def)
  next
    case (step s1 a s2)
    note here = orderly_reach [OF assms(1) pl_reach_trans [OF step.hyps(1) assms(2)]]
    from unreceived_pl_act [OF here(1,2) step.hyps(2,3)] step.IH show ?case by metis
  qed
  then show ?thesis by (simp add: id)
qed

definition ex_dead_run :: "pl_action list" where
  "ex_dead_run = [PlMonitor (ActDial 0 (Some ''refused'')), PlMonitor (ActDial 1 (Some ''refused'')),
     PlInsert 0 ex_pl_tx, PlQueue (SqDial 0 None)] @ ex_send 0 @ [PlHand 0 (clock 0)]"

lemma ex_dead:
  "case pl_run ex_pl_env ex_boot ex_pl_start of
     None \<Rightarrow> False
   | Some s0 \<Rightarrow> (case pl_run ex_pl_env ex_dead_run s0 of None \<Rightarrow> False
       | Some s \<Rightarrow> dead_workers (pe_monitor ex_pl_env) (pl_mon s) \<and> m_sending (ms_mon (pl_mon s)) = [1]
           \<and> map_option (tx_Id \<circ> l2Tx) (sys_heap (pl_mon s) 1) = Some 1 \<and> status_of (pl_db s) 1 = Some TxStatusSent
           \<and> run_ok ex_pl_env (plain_action ex_pl_env) [PlMonitor (ActDeliver 0), PlMonitor (ActCheck (clock 99) None)] s
           \<and> (case pl_run ex_pl_env [PlMonitor (ActDeliver 0), PlMonitor (ActCheck (clock 99) None)] s of
                None \<Rightarrow> False | Some s' \<Rightarrow> True))
     \<and> run_ok ex_pl_env (plain_action ex_pl_env) ex_dead_run s0"
  by code_simp

theorem unreceived_for_ever_witness:
  "\<exists>s0 s s'. booted ex_pl_env s0 \<and> pl_run ex_pl_env ex_dead_run s0 = Some s
     \<and> pl_run ex_pl_env [PlMonitor (ActDeliver 0), PlMonitor (ActCheck (clock 99) None)] s = Some s'
     \<and> 1 \<in> channel_refs (pl_mon s') \<and> status_of (pl_db s') 1 = Some TxStatusSent"
proof -
  obtain s0 s where s: "booted ex_pl_env s0" "pl_run ex_pl_env ex_dead_run s0 = Some s"
      "pl_reach ex_pl_env (orderly ex_pl_env) s0 s" "dead_workers (pe_monitor ex_pl_env) (pl_mon s)"
      "m_sending (ms_mon (pl_mon s)) = [1]" "map_option (tx_Id \<circ> l2Tx) (sys_heap (pl_mon s) 1) = Some 1"
      "status_of (pl_db s) 1 = Some TxStatusSent"
      "run_ok ex_pl_env (plain_action ex_pl_env) [PlMonitor (ActDeliver 0), PlMonitor (ActCheck (clock 99) None)] s"
      "case pl_run ex_pl_env [PlMonitor (ActDeliver 0), PlMonitor (ActCheck (clock 99) None)] s of None \<Rightarrow> False | Some s' \<Rightarrow> True"
    by (rule ex_booted [OF ex_dead]) blast
  then obtain s' r where s': "pl_run ex_pl_env [PlMonitor (ActDeliver 0), PlMonitor (ActCheck (clock 99) None)] s = Some s'"
      "sys_heap (pl_mon s) 1 = Some r" "tx_Id (l2Tx r) = 1"
    by (auto simp del: pl_run.simps split: option.splits)
  note r = pl_run_reach [OF s'(1) pl_reach.start plain_orderly [OF s(8)]]
  have one: "1 \<in> channel_refs (pl_mon s)" by (simp add: channel_refs_def s(5))
  from unreceived_for_ever [OF s(1,3,4) r one s'(2)] s(1,2,7) s'(1,3) show ?thesis
    by (intro exI [of _ s0] exI [of _ s] exI [of _ s']) (simp del: pl_run.simps)
qed

definition failing :: "nat \<Rightarrow> stmt_event" where
  "failing n = \<lparr>st_now = clock 0, st_out = (if n < 2 then StFail ''conn closed'' else StOk)\<rparr>"

text \<open>
  Two failed insertions can bring the program down too: the endpoint sends both transactions
  with identifier 0, the monitor takes the second for the first, and the retry loop can panic
  as before, although no transaction was sent twice.
\<close>
lemma failed_inserts_panic:
  "case pl_run ex_pl_env
       ([PlInsert 0 ex_pl_tx, PlInsert 1 (ex_pl_tx\<lparr>tx_Hash := ''0xcd''\<rparr>)] @ ex_race_tail) (pl_init ex_pl_env 2 (NewPoolDB failing)) of
     None \<Rightarrow> False
   | Some s \<Rightarrow> db_rows (pl_db s) = [] \<and> map (tx_Hash \<circ> sr_l2Tx) (sq_reqs (pl_q s)) = [''0xab'', ''0xcd'']
       \<and> (case pl_act ex_pl_env (PlMonitor (ActCheck (clock 40) None)) s of Some None \<Rightarrow> True | _ \<Rightarrow> False)"
  by code_simp

end
