(* ===== verification/PipelineSettle.thy ===== *)
theory PipelineSettle
  imports PipelineProps
begin

section \<open>Work that is left\<close>

text \<open>
  What happens when no new request arrives: the goroutines of server, sender and monitor come
  to rest after a number of steps that is known beforehand, the retry loop aside, and then
  every request has its answer and every accepted transaction is decided or in the hands of
  the retry loop.
\<close>

subsection \<open>A measure\<close>

fun pc_work :: "pc \<Rightarrow> nat" where
  "pc_work PcIdle = 0"
| "pc_work PcStart = 1"
| "pc_work PcDead = 0"
| "pc_work PcSignal = 1"
| "pc_work PcLen = 2"
| "pc_work (PcAdd p) = 3"
| "pc_work (PcRetry p) = 4"
| "pc_work (PcDelete p) = 1"
| "pc_work (PcUpdate p st) = 5"
| "pc_work (PcRequest p) = 6"

definition mon_work :: "'d msys \<Rightarrow> nat" where
  "mon_work m = 8 * length (m_sending (ms_mon m)) + 7 * length (m_chan (ms_mon m))
     + sum_list (map pc_work (ms_threads m))"

fun work_weight :: "work \<Rightarrow> nat" where
  "work_weight (SendTx tx) = 17"
| "work_weight (HandTx tx) = 9"

abbreviation todo_weight :: "work list \<Rightarrow> nat" where
  "todo_weight ws \<equiv> sum_list (map work_weight ws)"

fun caller_weight :: "pl_caller \<Rightarrow> nat" where
  "caller_weight (Todo ws) = todo_weight ws"
| "caller_weight (Waiting tx ws) = 10 + todo_weight ws"
| "caller_weight (Updating tx err ws) = 10 + todo_weight ws"

definition pl_work :: "pipeline \<Rightarrow> nat" where
  "pl_work s = sq_work (pl_q s) + mon_work (pl_mon s) + sum_list (map caller_weight (pl_callers s))"

text \<open>The steps of everything but the clients and the retry loop.\<close>

definition pl_internal :: "pl_action \<Rightarrow> bool" where
  "pl_internal a = (case a of
     PlInsert t tx \<Rightarrow> False
   | PlQuery t k q \<Rightarrow> False
   | PlMonitor b \<Rightarrow> (case b of ActCheck now err \<Rightarrow> False | _ \<Rightarrow> True)
   | _ \<Rightarrow> True)"

lemma set_pc_work:
  "pc_of m t = Some a \<Longrightarrow>
   mon_work (set_pc t b m) + pc_work a = mon_work m + pc_work b"
  using sum_list_update_nat [of "ms_threads m" t a pc_work b]
  by (simp add: mon_work_def set_pc_def pc_of_def)

lemma mon_work_mon: "mon_work (m\<lparr>ms_mon := x\<rparr>) + 8 * length (m_sending (ms_mon m)) + 7 * length (m_chan (ms_mon m))
    = mon_work m + 8 * length (m_sending x) + 7 * length (m_chan x)"
  by (simp add: mon_work_def)

lemma mon_work_simps [simp]:
  "mon_work (m\<lparr>ms_log := k\<rparr>) = mon_work m" "mon_work (m\<lparr>ms_seen := i\<rparr>) = mon_work m"
  "mon_work (list_update_mon l m) = mon_work m" "pc_of (list_update_mon l m) t = pc_of m t"
  "pc_of (m\<lparr>ms_log := k\<rparr>) t = pc_of m t" "pc_of (m\<lparr>ms_mon := x\<rparr>) t = pc_of m t" "pc_of (m\<lparr>ms_seen := i\<rparr>) t = pc_of m t"
  by (simp_all add: mon_work_def list_update_mon_def pc_of_def)

lemma mon_work_decreases:
  assumes act: "mon_act cfg a m = Some (Some m')"
    and a: "mon_internal a" "\<And>now err. a \<noteq> ActCheck now err"
  shows "mon_work m' < mon_work m"
proof (cases a)
  case (ActDial t err)
  then show ?thesis using act set_pc_work [of m t PcStart PcDead] set_pc_work [of m t PcStart PcIdle]
    by (auto simp: mon_act.simps split: if_splits)
next
  case (ActCall t now tx)
  then show ?thesis using a by (simp add: mon_internal_def)
next
  case (ActAdd t)
  then obtain p b l where "pc_of m t = Some (PcAdd p)" "m' = set_pc t PcLen (list_update_mon l m)"
    using act by (auto simp: mon_act.simps split: option.splits pc.splits)
  then show ?thesis using set_pc_work [of "list_update_mon l m" t "PcAdd p" PcLen] by simp
next
  case (ActLen t)
  then show ?thesis using act set_pc_work [of m t PcLen PcSignal] set_pc_work [of m t PcLen PcIdle]
    by (auto simp: mon_act.simps split: if_splits)
next
  case (ActSignal t)
  let ?m = "m\<lparr>ms_mon := cond_signal (ms_mon m)\<rparr>"
  have "mon_work ?m = mon_work m" using mon_work_mon [where m = m and x = "cond_signal (ms_mon m)"] by (simp add: cond_signal_def)
  then show ?thesis using act ActSignal set_pc_work [of ?m t PcSignal PcIdle]
    by (auto simp: mon_act.simps split: if_splits)
next
  case (ActDeliver i)
  then show ?thesis using act by (auto simp: mon_act.simps chan_deliver_def mon_work_def split: if_splits)
next
  case (ActReceive t)
  then obtain p ps where p: "pc_of m t = Some PcIdle" "m_chan (ms_mon m) = p # ps"
      "m' = set_pc t (PcRequest p) (m\<lparr>ms_mon := (ms_mon m)\<lparr>m_chan := ps\<rparr>\<rparr>)"
    using act by (auto simp: mon_act.simps chan_receive_def split: if_splits list.splits)
  then show ?thesis using set_pc_work [of "m\<lparr>ms_mon := (ms_mon m)\<lparr>m_chan := ps\<rparr>\<rparr>" t PcIdle "PcRequest p"]
      mon_work_mon [where m = m and x = "(ms_mon m)\<lparr>m_chan := ps\<rparr>"] by simp
next
  case (ActHandoff t i)
  let ?x = "(ms_mon m)\<lparr>m_sending := take i (m_sending (ms_mon m)) @ drop (i + 1) (m_sending (ms_mon m))\<rparr>"
  have p: "pc_of m t = Some PcIdle" "i < length (m_sending (ms_mon m))"
      "m' = set_pc t (PcRequest (m_sending (ms_mon m) ! i)) (m\<lparr>ms_mon := ?x\<rparr>)"
    using act ActHandoff by (auto simp: mon_act.simps chan_handoff_def split: if_splits)
  then show ?thesis using set_pc_work [of "m\<lparr>ms_mon := ?x\<rparr>" t PcIdle "PcRequest (m_sending (ms_mon m) ! i)"]
      mon_work_mon [where m = m and x = ?x] by simp
next
  case (ActReceipt t res)
  then obtain p c where "pc_of m t = Some (PcRequest p)" "m' = set_pc t c m" "pc_work c \<le> 5"
    using act by (fastforce simp: mon_act.simps split: option.splits pc.splits receipt_result.splits)
  then show ?thesis using set_pc_work [of m t "PcRequest p" c] by simp
next
  case (ActUpdate t err)
  then obtain p st c l where "pc_of m t = Some (PcUpdate p st)" "m' = set_pc t c (m\<lparr>ms_log := l\<rparr>)" "pc_work c \<le> 4"
    using act by (fastforce simp: mon_act.simps split: option.splits pc.splits if_splits)
  then show ?thesis using set_pc_work [of "m\<lparr>ms_log := l\<rparr>" t "PcUpdate p st" c] by simp
next
  case (ActRetry t now)
  then obtain p x where p: "pc_of m t = Some (PcRetry p)" "m' = set_pc t (PcAdd p) (m\<lparr>ms_mon := x\<rparr>)"
      "m_sending x = m_sending (ms_mon m)" "m_chan x = m_chan (ms_mon m)"
    using act by (fastforce simp: mon_act.simps set_nextRetry_def split: option.splits pc.splits bind_splits)
  then show ?thesis using set_pc_work [of "m\<lparr>ms_mon := x\<rparr>" t "PcRetry p" "PcAdd p"] mon_work_mon [where m = m and x = x] by simp
next
  case (ActDelete t)
  then obtain p b l where "pc_of m t = Some (PcDelete p)" "m' = set_pc t PcIdle (list_update_mon l m)"
    using act by (auto simp: mon_act.simps split: option.splits pc.splits)
  then show ?thesis using set_pc_work [of "list_update_mon l m" t "PcDelete p" PcIdle] by simp
next
  case (ActCheck now err)
  then show ?thesis using a by simp
qed

lemma hand_work:
  assumes "mon_act cfg (ActCall t now tx) m = Some (Some m')"
  shows "mon_work m' \<le> mon_work m + 8"
proof (cases "mc_InitialWaitInterval cfg > 0")
  case True
  let ?r = "\<lparr>l2Tx = tx, nextRetry = time_add now (mc_InitialWaitInterval cfg)\<rparr>"
  let ?m = "m\<lparr>ms_seen := insert (tx_Id tx) (ms_seen m), ms_mon := snd (new_request ?r (ms_mon m))\<rparr>"
  have p: "pc_of m t = Some PcIdle" "m' = set_pc t (PcAdd (fst (new_request ?r (ms_mon m)))) ?m"
    using assms True by (auto simp: mon_act.simps Let_def split: if_splits prod.splits)
  have "mon_work ?m = mon_work m" by (simp add: mon_work_def new_request_def)
  then show ?thesis using p set_pc_work [of ?m t PcIdle "PcAdd (fst (new_request ?r (ms_mon m)))"] by simp
next
  case False
  then show ?thesis using assms
    by (auto simp: mon_act.simps Let_def new_request_def enqueueMonitorRequest_def mon_work_def split: if_splits)
qed

lemma send_work:
  assumes "sq_act cfg (SqSend t tx) q = Some (Some q')"
  shows "sq_work q' = sq_work q + 6"
proof -
  have t: "index_at (sq_callers q) t = Some CIdle" using sq_send_step(1) [OF assms] .
  then show ?thesis using assms sum_list_update_nat [OF t, of caller_work "CWait (length (sq_reqs q))"]
    by (auto simp: sq_act.simps set_caller_def sq_work_def Let_def)
qed

lemma put_weight:
  assumes "caller_at e s t = Some a"
  shows "sum_list (map caller_weight ((pl_callers s)[t := b])) + caller_weight a
    = sum_list (map caller_weight (pl_callers s)) + caller_weight b"
  using sum_list_update_nat [of "pl_callers s" t a caller_weight b] assms by (auto simp: caller_at_def split: if_splits)

lemma pl_work_decreases:
  assumes act: "pl_act e a s = Some (Some s')" and "pl_internal a"
  shows "pl_work s' < pl_work s"
  using act
proof (cases rule: pl_act_cases)
  case (send t tx ws q)
  then show ?thesis using send_work [OF send(3)] put_weight [OF send(2), of "Waiting tx ws"] by (simp add: pl_work_def)
next
  case (return t tx ws q)
  have "sq_work q < sq_work (pl_q s)" by (rule sq_work_decreases [OF return(3)]) (simp add: is_send_def)
  then show ?thesis using put_weight [OF return(2), of "Updating tx (snd (last (sq_results q))) ws"] return(4)
    by (simp add: pl_work_def)
next
  case (update t tx err ws res d st msg)
  then show ?thesis using put_weight [OF update(2), of "Todo (if err \<noteq> None then ws else HandTx (Some tx) # ws)"]
    by (auto simp: pl_work_def)
next
  case (hand t now tx ws m)
  then show ?thesis using hand_work [OF hand(3)] put_weight [OF hand(2), of "Todo ws"] by (simp add: pl_work_def)
next
  case (queue b q)
  have "sq_work q < sq_work (pl_q s)"
    by (rule sq_work_decreases [OF queue(3)]) (use queue(2) in \<open>auto simp: is_send_def sq_internal_def split: sq_action.splits\<close>)
  then show ?thesis using queue(4) by (simp add: pl_work_def)
next
  case (monitor b err d m)
  have "mon_internal (with_answer err b)" "with_answer err b \<noteq> ActCheck now x" for now x
    using monitor(1,2) assms(2) by (cases b; simp add: with_answer_def mon_internal_def pl_internal_def)+
  from mon_work_decreases [OF monitor(4) this] show ?thesis using monitor(5) by (simp add: pl_work_def)
qed (use assms(2) in \<open>simp_all add: pl_internal_def\<close>)

lemma pl_run_bound:
  "pl_run e xs s = Some s' \<Longrightarrow> list_all pl_internal xs \<Longrightarrow> length xs + pl_work s' \<le> pl_work s"
proof (induction xs arbitrary: s)
  case (Cons a xs)
  then obtain s1 where s1: "pl_act e a s = Some (Some s1)" "pl_run e xs s1 = Some s'"
    by (auto split: option.splits)
  have "pl_work s1 < pl_work s" using pl_work_decreases [OF s1(1)] Cons.prems(2) by simp
  then show ?case using Cons.IH [OF s1(2)] Cons.prems(2) by simp
qed simp

subsection \<open>At rest\<close>

definition thread_moves :: "'d msys \<Rightarrow> 'd msys \<Rightarrow> bool" where
  "thread_moves m m' \<longleftrightarrow> ms_threads m' = ms_threads m \<or>
    (\<exists>t c. ms_threads m' = (ms_threads m)[t := c] \<and> (c \<notin> {PcStart, PcDead} \<or> pc_of m t = Some PcStart))"

lemma thread_movesI:
  "ms_threads m' = (ms_threads m)[t := c] \<Longrightarrow> c \<notin> {PcStart, PcDead} \<or> pc_of m t = Some PcStart \<Longrightarrow> thread_moves m m'"
  by (auto simp: thread_moves_def)

lemma mon_act_threads:
  assumes "mon_act cfg a m = Some (Some m')"
  shows "thread_moves m m'"
proof (cases a)
  case (ActCheck now err)
  then have "check_act cfg now err m = Some (Some m')" using assms by (simp add: mon_act.simps)
  from check_act_threads [OF this] show ?thesis by (simp add: thread_moves_def)
next
  case (ActDeliver i)
  then show ?thesis using assms by (auto simp: mon_act.simps thread_moves_def)
next
  case (ActCall t now tx)
  then show ?thesis using assms
    by (auto simp: mon_act.simps set_pc_def Let_def new_request_def split: if_splits prod.splits
        intro: thread_movesI [of _ _ t]) (simp add: thread_moves_def)
qed (use assms in \<open>auto simp: mon_act.simps set_pc_def list_update_mon_def
      split: if_splits option.splits pc.splits receipt_result.splits intro: thread_movesI\<close>)

text \<open>Each caller has its thread of the monitor, which is not that of a worker.\<close>

abbreviation running :: "pc \<Rightarrow> bool" where
  "running c \<equiv> c \<notin> {PcStart, PcDead}"

definition threads_match :: "pl_env \<Rightarrow> pipeline \<Rightarrow> bool" where
  "threads_match e s \<longleftrightarrow>
     length (ms_threads (pl_mon s)) = unat (mc_Workers (pe_monitor e)) + length (pl_callers s)
     \<and> (\<forall>t\<ge>unat (mc_Workers (pe_monitor e)). \<forall>c. pc_of (pl_mon s) t = Some c \<longrightarrow> running c)"

lemma threads_match_mon:
  assumes match: "threads_match e s" and act: "mon_act (pe_monitor e) b (pl_mon s) = Some (Some m)"
    and s': "pl_mon s' = m" "length (pl_callers s') = length (pl_callers s)"
  shows "threads_match e s'"
  using mon_act_threads [OF act] unfolding thread_moves_def
proof (elim disjE exE conjE)
  fix t c assume t: "ms_threads m = (ms_threads (pl_mon s))[t := c]" "c \<notin> {PcStart, PcDead}"
  have "running d" if "u \<ge> unat (mc_Workers (pe_monitor e))" "pc_of m u = Some d" for u d
    using match t that by (cases "u = t") (auto simp: threads_match_def pc_of_def index_at_def split: if_splits)
  then show ?thesis using match t(1) s' by (simp add: threads_match_def)
next
  fix t c assume t: "ms_threads m = (ms_threads (pl_mon s))[t := c]" "pc_of (pl_mon s) t = Some PcStart"
  have "t < unat (mc_Workers (pe_monitor e))" using match t(2) unfolding threads_match_def by (meson insertI1 not_le)
  then have "running d" if "u \<ge> unat (mc_Workers (pe_monitor e))" "pc_of m u = Some d" for u d
    using match t(1) that by (auto simp: threads_match_def pc_of_def index_at_def split: if_splits)
  then show ?thesis using match t(1) s' by (simp add: threads_match_def)
qed (use match s' in \<open>simp add: threads_match_def pc_of_def\<close>)

lemma threads_match_act:
  assumes "pl_act e a s = Some (Some s')" and "threads_match e s"
  shows "threads_match e s'"
  using assms(1)
proof (cases rule: pl_act_cases)
  case (hand t now tx ws m)
  then show ?thesis using threads_match_mon [OF assms(2) hand(3)] by simp
next
  case (monitor b err d m)
  then show ?thesis using threads_match_mon [OF assms(2) monitor(4)] by simp
qed (use assms(2) in \<open>simp_all add: threads_match_def\<close>)

lemma threads_match_reach:
  "pl_reach e ok (pl_init e n db) s \<Longrightarrow> threads_match e s"
proof (induction rule: pl_reach.induct)
  case start
  show ?case by (auto simp: threads_match_def pl_init_def mon_init_def pc_of_def index_at_def nth_append split: if_splits)
qed (rule threads_match_act)

lemma rest_queue:
  assumes "\<And>a. pl_internal a \<Longrightarrow> pl_act e a s = None" and "sq_internal a"
  shows "sq_act (pe_sender e) a (pl_q s) = None"
  using assms(1) [of "PlQueue a"] assms(2) by (simp add: pl_internal_def)

lemma rest_monitor:
  assumes "\<And>a. pl_internal a \<Longrightarrow> pl_act e a s = None" and "pl_internal (PlMonitor b)" and "mon_internal b"
  shows "mon_act (pe_monitor e) (with_answer (fst (mon_answer b s)) b) (pl_mon s) = None"
  using assms(1) [OF assms(2)] assms(3) by (simp split: prod.splits)

lemma rest_threads:
  assumes rest: "\<And>a. pl_internal a \<Longrightarrow> pl_act e a s = None" and t: "pc_of (pl_mon s) t = Some c"
  shows "c = PcIdle \<or> c = PcDead"
proof -
  have off: "mon_act (pe_monitor e) (with_answer (fst (mon_answer b s)) b) (pl_mon s) = None"
    if "b \<in> {ActDial t None, ActAdd t, ActLen t, ActSignal t, ActReceipt t ReceiptNotFound, ActUpdate t None, ActRetry t (clock 0), ActDelete t}" for b
    by (rule rest_monitor [OF rest]) (use that in \<open>auto simp: pl_internal_def mon_internal_def\<close>)
  show ?thesis
    using off [of "ActDial t None"] off [of "ActAdd t"] off [of "ActLen t"] off [of "ActSignal t"] off [of "ActReceipt t ReceiptNotFound"]
      off [of "ActUpdate t None"] off [of "ActRetry t (clock 0)"] off [of "ActDelete t"] t
    by (cases c) (simp_all add: mon_act.simps with_answer_def)
qed

lemma rest_channel:
  assumes rest: "\<And>a. pl_internal a \<Longrightarrow> pl_act e a s = None" and "\<not> dead_workers (pe_monitor e) (pl_mon s)"
  shows "m_chan (ms_mon (pl_mon s)) = []" "m_sending (ms_mon (pl_mon s)) = []"
proof -
  obtain t c where t: "is_worker (pe_monitor e) t" "pc_of (pl_mon s) t = Some c" "c \<noteq> PcDead"
    using assms(2) by (auto simp: dead_workers_def list_all_length is_worker_def pc_of_def index_at_def)
  then have pc: "pc_of (pl_mon s) t = Some PcIdle" using rest_threads [OF rest] by blast
  have off: "mon_act (pe_monitor e) b (pl_mon s) = None" if "b \<in> {ActReceive t, ActHandoff t 0}" for b
    using rest_monitor [OF rest, of b] that by (auto simp: pl_internal_def mon_internal_def with_answer_def)
  show chan: "m_chan (ms_mon (pl_mon s)) = []"
    using off [of "ActReceive t"] pc t(1) by (simp add: mon_act.simps chan_receive_def split: list.splits)
  show "m_sending (ms_mon (pl_mon s)) = []"
    using off [of "ActHandoff t 0"] pc t(1) chan by (simp add: mon_act.simps chan_handoff_def split: if_splits)
qed

text \<open>With all monitor threads idle, the retry loop holds at most the request it sends back.\<close>

lemma rest_held:
  assumes "\<And>a. pl_internal a \<Longrightarrow> pl_act e a s = None" and "\<not> dead_workers (pe_monitor e) (pl_mon s)"
  shows "held (pl_mon s) = ck_refs (ms_check (pl_mon s))"
proof -
  have "pc_held c = {#}" if "c \<in> set (ms_threads (pl_mon s))" for c
  proof -
    obtain t where "index_at (ms_threads (pl_mon s)) t = Some c" using mem_index_at [OF \<open>c \<in> _\<close>] by blast
    then have "c = PcIdle \<or> c = PcDead" using rest_threads [OF assms(1), of t c] by (simp add: pc_of_def)
    then show ?thesis by auto
  qed
  then have "(\<Sum>c\<leftarrow>ms_threads (pl_mon s). pc_held c) = {#}" by (rule worker_sum_empty)
  then show ?thesis by (simp add: held_def rest_channel [OF assms])
qed

lemma rest_caller_at:
  assumes "\<And>a. pl_internal a \<Longrightarrow> pl_act e a s = None" and "threads_match e s" and "t < length (pl_callers s)"
  shows "caller_at e s t = Some (pl_callers s ! t)"
proof -
  have "monitor_thread e t < length (ms_threads (pl_mon s))"
    using assms(2,3) by (simp add: threads_match_def monitor_thread_def)
  then obtain c where "pc_of (pl_mon s) (monitor_thread e t) = Some c" by (auto simp: pc_of_def index_at_def)
  moreover from this have "running c" using assms(2) unfolding threads_match_def monitor_thread_def by (metis le_add1)
  ultimately show ?thesis using rest_threads [OF assms(1)] assms(3) by (fastforce simp: caller_at_def index_at_def)
qed

lemma rest_return:
  assumes rest: "\<And>a. pl_internal a \<Longrightarrow> pl_act e a s = None" and "threads_match e s" and "inv_linked s"
  shows "sq_act (pe_sender e) (SqReturn t) (pl_q s) = None"
proof (cases "index_at (sq_callers (pl_q s)) t")
  case (Some d)
  then have "t < length (pl_callers s)" using assms(3) index_atD [OF Some] by (simp add: inv_linked_def list_all2_lengthD)
  note at = rest_caller_at [OF rest assms(2) this]
  show ?thesis
  proof (cases d)
    case (CWait p)
    then obtain tx ws where "pl_callers s ! t = Waiting tx ws"
      using linked_at(2) [OF assms(3) at] index_atD [OF Some] by (cases "pl_callers s ! t") auto
    then show ?thesis using rest [of "PlReturn t"] at by (simp add: pl_internal_def)
  qed (simp add: sq_act.simps Some)
qed (simp add: sq_act.simps)

lemma rest_answered:
  assumes rest: "\<And>a. pl_internal a \<Longrightarrow> pl_act e a s = None" and "threads_match e s" and "inv_linked s"
    and "sq_reach (pe_sender e) (pl_q s)" and "\<not> set (sq_workers (pl_q s)) \<subseteq> {WDead}"
  shows "set (sq_callers (pl_q s)) \<subseteq> {CIdle}"
proof -
  have stuck: "sq_act (pe_sender e) a (pl_q s) = None" if "\<not> is_send a" for a
    using that rest_queue [OF rest] rest_return [OF rest assms(2,3)]
    by (cases a) (auto simp: is_send_def sq_internal_def)
  obtain c where c: "c \<in> set (sq_workers (pl_q s))" "c \<noteq> WDead" using assms(5) by blast
  then obtain w where "index_at (sq_workers (pl_q s)) w = Some c" using mem_index_at by metis
  then have "c = WIdle" using c(2) stuck [of "SqDial w None"] stuck [of "SqCall w None"] stuck [of "SqStore w"] stuck [of "SqDone w"]
    by (cases c) (simp_all add: is_send_def sq_act.simps)
  then show ?thesis using send_all_answered [OF assms(4) _ stuck] c(1) by blast
qed

lemma rest_callers:
  assumes "booted e s0" and "pl_reach e (orderly e) s0 s"
    and rest: "\<And>a. pl_internal a \<Longrightarrow> pl_act e a s = None"
    and "threads_match e s" and "inv_linked s" and idle: "set (sq_callers (pl_q s)) \<subseteq> {CIdle}"
  shows "set (pl_callers s) \<subseteq> {Todo []}"
proof
  fix c assume "c \<in> set (pl_callers s)"
  then obtain t where t: "t < length (pl_callers s)" "pl_callers s ! t = c" by (auto simp: in_set_conv_nth)
  note at = rest_caller_at [OF rest assms(4) t(1), unfolded t(2)]
  note link = linked_at(2,3) [OF assms(5) at]
  have pc: "index_at (sq_callers (pl_q s)) t = Some CIdle"
    using subsetD [OF idle nth_mem [OF link(2)]] link(2) by (simp add: index_at_def)
  have hand: "c \<noteq> Todo (HandTx (Some tx) # ws)" for tx ws
    using orderly_hand [OF assms(1,2), of t "Some tx" ws "clock 0"] at rest [of "PlHand t (clock 0)"]
    by (auto simp: pl_internal_def simp del: pl_act.simps)
  have send: "c \<noteq> Todo (SendTx tx # ws)" for tx ws
    using rest [of "PlSend t"] at pc by (cases tx) (auto simp: pl_internal_def sq_act.simps Let_def)
  have nil: "c \<noteq> Todo (HandTx None # ws)" for ws
    using rest [of "PlHand t (clock 0)"] at by (auto simp: pl_internal_def)
  show "c \<in> {Todo []}"
  proof (cases c)
    case (Todo ws)
    then show ?thesis using hand send nil by (cases ws; cases "hd ws") (auto, metis option.exhaust)
  next
    case (Waiting tx ws)
    then show ?thesis using link pc by (auto simp: index_at_def)
  next
    case (Updating tx err ws)
    then show ?thesis using rest [of "PlUpdate t"] at by (simp add: pl_internal_def split: prod.splits)
  qed
qed

subsection \<open>Properties\<close>

text \<open>
  C9. From any state, and however the steps of the goroutines are ordered, server, sender and
  monitor take at most as many steps as \<open>pl_work\<close> counts, until a new request or query comes or
  the retry loop makes a step.
\<close>
theorem pipeline_terminates:
  assumes "pl_run e xs s = Some s'" and "list_all pl_internal xs"
  shows "length xs \<le> pl_work s"
  using pl_run_bound [OF assms] by simp

theorem pipeline_terminates_witness:
  "case pl_run ex_pl_env [PlInsert 0 ex_pl_tx, PlQueue (SqDial 0 None)] ex_pl_start of
     None \<Rightarrow> False | Some s \<Rightarrow> length (ex_send 0) \<le> pl_work s"
proof -
  have "case pl_run ex_pl_env [PlInsert 0 ex_pl_tx, PlQueue (SqDial 0 None)] ex_pl_start of None \<Rightarrow> False
    | Some s \<Rightarrow> (case pl_run ex_pl_env (ex_send 0) s of None \<Rightarrow> False | Some s' \<Rightarrow> list_all pl_internal (ex_send 0))"
    by code_simp
  then obtain s s' where s: "pl_run ex_pl_env [PlInsert 0 ex_pl_tx, PlQueue (SqDial 0 None)] ex_pl_start = Some s"
      "pl_run ex_pl_env (ex_send 0) s = Some s'" "list_all pl_internal (ex_send 0)"
    by (auto split: option.splits)
  from pipeline_terminates [OF s(2,3)] show ?thesis unfolding s(1) by simp
qed

text \<open>
  C8. When nothing more can happen after an orderly start, except that new requests or queries
  come and the retry loop runs, then, if not every worker of the sender and not every worker of
  the monitor failed to dial: every caller is done, every request in the queue has its answer, and
  every transaction that the sequencer accepted is decided or waits in the retry list, but for
  the one the retry loop is about to send back to the workers.
\<close>
theorem rest_is_settled:
  assumes "booted e s0" and "pl_reach e (orderly e) s0 s"
    and rest: "\<And>a. pl_internal a \<Longrightarrow> pl_act e a s = None"
    and dialled: "\<not> set (sq_workers (pl_q s)) \<subseteq> {WDead}" and workers: "\<not> dead_workers (pe_monitor e) (pl_mon s)"
  shows "set (pl_callers s) \<subseteq> {Todo []}
    \<and> (\<forall>p<length (sq_reqs (pl_q s)). \<exists>err. (p, err) \<in> set (sq_results (pl_q s)))
    \<and> (\<forall>(p, body, err)\<in>set (sq_calls (pl_q s)). err = None \<longrightarrow>
         tx_Id (sr_l2Tx (sq_reqs (pl_q s) ! p)) \<in> done_ids (pl_mon s)
       \<or> (\<exists>q r. (q \<in> set (sys_sorted (pl_mon s)) \<or> ms_check (pl_mon s) = CkEnqueue q)
            \<and> sys_heap (pl_mon s) q = Some r \<and> tx_Id (l2Tx r) = tx_Id (sr_l2Tx (sq_reqs (pl_q s) ! p))))"
proof -
  obtain n db where run: "pl_reach e (hands_ok e FreshIds) (pl_init e n db) s" by (rule booted_reach [OF assms(1,2)])
  note threads = threads_match_reach [OF run] and parts = pl_parts(1) [OF run] pl_parts(2) [OF run]
  have inv: "inv_linked s" "inv_answered (pl_q s)" using pl_reach_kept [OF run] by auto
  note idle = rest_answered [OF rest threads inv(1) parts(1) dialled]
  note callers = rest_callers [OF assms(1,2) rest threads inv(1) idle]
  have "\<exists>err. (p, err) \<in> set (sq_results (pl_q s))" if "p < length (sq_reqs (pl_q s))" for p
    using inv(2) idle that by (auto simp: inv_answered_def)
  moreover have "tx_Id (sr_l2Tx (sq_reqs (pl_q s) ! p)) \<in> done_ids (pl_mon s)
       \<or> (\<exists>q r. (q \<in> set (sys_sorted (pl_mon s)) \<or> ms_check (pl_mon s) = CkEnqueue q)
            \<and> sys_heap (pl_mon s) q = Some r \<and> tx_Id (l2Tx r) = tx_Id (sr_l2Tx (sq_reqs (pl_q s) ! p)))"
    if call: "(p, body, None) \<in> set (sq_calls (pl_q s))" for p body
  proof -
    have "to_hand s = {}" using callers by (fastforce simp: to_hand_def)
    then have "tx_Id (sr_l2Tx (sq_reqs (pl_q s) ! p)) \<in> ms_seen (pl_mon s)"
      using accepted_kept [OF run call] idle by (auto simp: kept_ids_def)
    moreover have "ms_check (pl_mon s) = CkEnqueue q" if "q \<in># held (pl_mon s)" for q
      using that by (cases "ms_check (pl_mon s)") (simp_all add: rest_held [OF rest workers])
    ultimately show ?thesis using never_forgets [OF parts(2)] by blast
  qed
  ultimately show ?thesis using callers by auto
qed

text \<open>Where everything is idle, nothing internal can happen.\<close>

definition all_idle :: "pipeline \<Rightarrow> bool" where
  "all_idle s \<longleftrightarrow> list_all (\<lambda>c. case c of Todo [] \<Rightarrow> True | _ \<Rightarrow> False) (pl_callers s)
     \<and> list_all (\<lambda>c. case c of CIdle \<Rightarrow> True | _ \<Rightarrow> False) (sq_callers (pl_q s))
     \<and> list_all (\<lambda>c. case c of WIdle \<Rightarrow> True | _ \<Rightarrow> False) (sq_workers (pl_q s))
     \<and> list_all (\<lambda>c. case c of PcIdle \<Rightarrow> True | _ \<Rightarrow> False) (ms_threads (pl_mon s))
     \<and> sq_sending (pl_q s) = [] \<and> sq_chan (pl_q s) = []
     \<and> m_sending (ms_mon (pl_mon s)) = [] \<and> m_chan (ms_mon (pl_mon s)) = []"

lemma all_idle_rest:
  assumes "all_idle s" and "pl_internal a"
  shows "pl_act e a s = None"
proof -
  have callers: "c = Todo []" if "index_at (pl_callers s) t = Some c" for t c
    using assms(1) index_at_mem [OF that] by (cases c; cases "caller_todo c") (auto simp: all_idle_def list_all_iff)
  have at: "c = Todo []" if "caller_at e s t = Some c" for t c
    using that callers by (auto simp: caller_at_def split: if_splits)
  have sc: "c = CIdle" if "index_at (sq_callers (pl_q s)) t = Some c" for t c
    using assms(1) index_at_mem [OF that] by (cases c) (auto simp: all_idle_def list_all_iff)
  have sw: "c = WIdle" if "index_at (sq_workers (pl_q s)) t = Some c" for t c
    using assms(1) index_at_mem [OF that] by (cases c) (auto simp: all_idle_def list_all_iff)
  have pc: "c = PcIdle" if "pc_of (pl_mon s) t = Some c" for t c
    using assms(1) index_at_mem [OF that [unfolded pc_of_def]] by (cases c) (auto simp: all_idle_def list_all_iff)
  have queue: "sq_sending (pl_q s) = []" "sq_chan (pl_q s) = []"
    "m_sending (ms_mon (pl_mon s)) = []" "m_chan (ms_mon (pl_mon s)) = []"
    using assms(1) by (auto simp: all_idle_def)
  show ?thesis
  proof (cases a)
    case (PlQueue b)
    then show ?thesis
      by (cases b) (auto simp: sq_internal_def sq_act.simps queue dest: sw split: option.splits worker_pc.splits)
  next
    case (PlMonitor b)
    then show ?thesis using assms(2)
      by (cases b) (auto simp: pl_internal_def mon_internal_def mon_act.simps with_answer_def queue chan_deliver_def
          chan_receive_def chan_handoff_def dest: pc split: option.splits pc.splits prod.splits)
  qed (use assms(2) in \<open>auto simp: pl_internal_def dest: at split: option.splits pl_caller.splits list.splits work.splits\<close>)
qed

theorem rest_is_settled_witness:
  "\<exists>s0 s. pl_run ex_pl_env ex_pl_run s0 = Some s \<and> sq_calls (pl_q s) = [(0, [], None)]
     \<and> (\<exists>err. (0, err) \<in> set (sq_results (pl_q s)))
     \<and> (1 \<in> done_ids (pl_mon s) \<or> (\<exists>q r. (q \<in> set (sys_sorted (pl_mon s)) \<or> ms_check (pl_mon s) = CkEnqueue q)
          \<and> sys_heap (pl_mon s) q = Some r \<and> tx_Id (l2Tx r) = 1))"
proof -
  have "case pl_run ex_pl_env ex_boot ex_pl_start of
     None \<Rightarrow> False
   | Some s0 \<Rightarrow> (case pl_run ex_pl_env ex_pl_run s0 of None \<Rightarrow> False
       | Some s \<Rightarrow> all_idle s \<and> sq_calls (pl_q s) = [(0, [], None)] \<and> length (sq_workers (pl_q s)) = 1 \<and> length (ms_threads (pl_mon s)) = 4
           \<and> length (sq_reqs (pl_q s)) = 1 \<and> tx_Id (sr_l2Tx (sq_reqs (pl_q s) ! 0)) = 1)
     \<and> run_ok ex_pl_env (plain_action ex_pl_env) ex_pl_run s0"
    by code_simp
  then obtain s0 s where s: "booted ex_pl_env s0" "pl_run ex_pl_env ex_pl_run s0 = Some s"
      "pl_reach ex_pl_env (orderly ex_pl_env) s0 s" "all_idle s" "sq_calls (pl_q s) = [(0, [], None)]"
      "length (sq_workers (pl_q s)) = 1" "length (ms_threads (pl_mon s)) = 4" "length (sq_reqs (pl_q s)) = 1" "tx_Id (sr_l2Tx (sq_reqs (pl_q s) ! 0)) = 1"
    by (rule ex_booted) blast
  obtain w where "sq_workers (pl_q s) = [w]" using s(6) by (cases "sq_workers (pl_q s)") auto
  then have "\<not> set (sq_workers (pl_q s)) \<subseteq> {WDead}" using s(4) by (auto simp: all_idle_def split: worker_pc.splits)
  moreover have "\<not> dead_workers (pe_monitor ex_pl_env) (pl_mon s)"
    using s(4,7) by (cases "ms_threads (pl_mon s)")
      (auto simp: dead_workers_def all_idle_def ex_pl_env_def ex_cfg_def split: pc.splits)
  ultimately show ?thesis using rest_is_settled [OF s(1,3) all_idle_rest [OF s(4)]] s(2,5,8,9) by fastforce
qed

end
