(* ===== verification/Hex.thy ===== *)
theory Hex
  imports GoText
begin

section \<open>Package hex\<close>

text \<open>
  Model of \<open>hex/hex.go\<close>. A result with an error is a pair, since \<open>DecodeHex\<close> hands on
  what the library decoded before the error; \<open>MustDecodeHex\<close> panics.
\<close>

subsection \<open>Operations\<close>

definition EncodeToHex :: "gobytes \<Rightarrow> gostring" where
  "EncodeToHex bs = ''0x'' @ hex_EncodeToString bs"

definition EncodeToString :: "gobytes \<Rightarrow> gostring" where
  "EncodeToString bs = hex_EncodeToString bs"

definition DecodeString :: "gostring \<Rightarrow> gobytes \<times> hex_error option" where
  "DecodeString s = hex_DecodeString s"

definition DecodeHex :: "gostring \<Rightarrow> gobytes \<times> hex_error option" where
  "DecodeHex s0 =
     (let s = TrimPrefix s0 ''0x'';
          s' = (if length s mod 2 \<noteq> 0 then CHR ''0'' # s else s)
      in hex_DecodeString s')"

definition MustDecodeHex :: "gostring \<Rightarrow> gobytes option" where
  "MustDecodeHex s = (case DecodeHex s of (buf, None) \<Rightarrow> Some buf | (buf, Some err) \<Rightarrow> None)"

definition DecodeBig :: "gostring \<Rightarrow> int" where
  "DecodeBig s = fst (SetString (TrimPrefix s ''0x'') 16)"

definition DecodeUint64 :: "gostring \<Rightarrow> uint64" where
  "DecodeUint64 s = word_of_int (DecodeBig s)"

definition EncodeUint64 :: "uint64 \<Rightarrow> gostring" where
  "EncodeUint64 i = ''0x'' @ format_nat 16 (unat i)"

text \<open>\<open>Sprintf("%#x")\<close> of a negative number puts the sign before the prefix.\<close>

definition EncodeBig :: "int \<Rightarrow> gostring" where
  "EncodeBig n =
     (if n = 0 then ''0x0''
      else (if n < 0 then ''-'' else []) @ ''0x'' @ format_nat 16 (nat \<bar>n\<bar>))"

definition BadNibble :: uint64 where
  "BadNibble = - 1"

definition DecodeNibble :: "8 word \<Rightarrow> uint64" where
  "DecodeNibble b =
     (if b \<ge> 48 \<and> b \<le> 57 then ucast (b - 48)
      else if b \<ge> 65 \<and> b \<le> 70 then ucast (b - 65 + 10)
      else if b \<ge> 97 \<and> b \<le> 102 then ucast (b - 97 + 10)
      else BadNibble)"

definition is_hex_char :: "char \<Rightarrow> bool" where
  "is_hex_char c = (let n = of_char c :: nat in
     48 \<le> n \<and> n \<le> 57 \<or> 97 \<le> n \<and> n \<le> 102 \<or> 65 \<le> n \<and> n \<le> 70)"

definition IsValid :: "gostring \<Rightarrow> bool" where
  "IsValid s = list_all is_hex_char (TrimPrefix s ''0x'')"

subsection \<open>Lemmas\<close>

lemma is_hex_char_digit: "is_hex_char = is_digit 16"
  by (rule ext) (auto simp: is_hex_char_def is_digit_def digit_val_def Let_def)

lemma trim_0x [simp]: "TrimPrefix (CHR ''0'' # CHR ''x'' # s) ''0x'' = s"
  by (simp add: TrimPrefix_def)

lemma DecodeHex_status: "snd (DecodeHex s) = None \<longleftrightarrow> list_all (is_digit 16) (TrimPrefix s ''0x'')"
proof -
  have "is_digit 16 (CHR ''0'')" by (simp add: is_digit_def digit_val_def)
  then show ?thesis by (auto simp: DecodeHex_def Let_def hex_decode_ok mod2_eq_if)
qed

lemma DecodeHex_encoded: "DecodeHex (EncodeToHex bs) = (bs, None)"
  by (simp add: DecodeHex_def EncodeToHex_def hex_encode_length hex_roundtrip)

lemma hex16: "list_all (is_digit 16) (format_nat 16 n)" "format_nat 16 n \<noteq> []"
    "digits_value 16 (format_nat 16 n) = n"
  using format_nat_digits [of 16 n] format_nat_value [of 16 n] by simp_all

lemma DecodeBig_format: "DecodeBig (''0x'' @ format_nat 16 n) = int n"
  using SetString_digits [OF hex16(1,2), of n] by (simp add: DecodeBig_def hex16)

lemma DecodeBig_signed: "DecodeBig (''-0x'' @ s) = 0"
  by (simp add: DecodeBig_def TrimPrefix_def SetString_def is_digit_def digit_val_def digits_value_def)

subsection \<open>Properties\<close>

text \<open>
  Decoding what \<open>EncodeToHex\<close> wrote gives the bytes back without an error, and
  \<open>MustDecodeHex\<close> does not panic on it.
\<close>

lemma hex_bytes_roundtrip:
  "DecodeHex (EncodeToHex bs) = (bs, None) \<and> MustDecodeHex (EncodeToHex bs) = Some bs"
  by (simp add: DecodeHex_encoded MustDecodeHex_def)

text \<open>
  \<open>IsValid\<close> accepts exactly the strings that \<open>DecodeHex\<close> decodes without an error, of odd
  length and without a prefix included: \<open>MustDecodeHex\<close> panics exactly on the others.
\<close>

lemma hex_valid_iff_decodes:
  "IsValid s = (snd (DecodeHex s) = None) \<and> (MustDecodeHex s = None) = (\<not> IsValid s)"
proof -
  have "IsValid s = (snd (DecodeHex s) = None)"
    by (simp add: IsValid_def is_hex_char_digit DecodeHex_status)
  then show ?thesis
    by (auto simp: MustDecodeHex_def split: prod.split option.split)
qed

text \<open>Every \<open>uint64\<close> survives \<open>EncodeUint64\<close> and \<open>DecodeUint64\<close>, in at most 18 bytes.\<close>

lemma hex_uint64_roundtrip:
  "DecodeUint64 (EncodeUint64 i) = i \<and> length (EncodeUint64 i) \<le> 18"
proof -
  have "unat i < 16 ^ 16" using unsigned_less [of i] by simp
  then have "length (format_nat 16 (unat i)) \<le> 16" by (intro format_nat_length) simp_all
  moreover have "DecodeUint64 (EncodeUint64 i) = i"
    unfolding DecodeUint64_def EncodeUint64_def DecodeBig_format by simp
  ultimately show ?thesis by (simp add: EncodeUint64_def)
qed

text \<open>
  \<open>EncodeBig\<close> and \<open>DecodeBig\<close> are inverse on the integers that are not negative. On a
  negative one \<open>EncodeBig\<close> writes the sign, which its comment says is ignored, and
  \<open>DecodeBig\<close> reads the result as 0.
\<close>

lemma hex_big_roundtrip:
  "DecodeBig (EncodeBig n) = (if 0 \<le> n then n else 0)
   \<and> (n < 0) = (hd (EncodeBig n) = CHR ''-'')"
proof (cases "n = 0")
  case True
  have "DecodeBig ''0x0'' = 0"
    by (simp add: DecodeBig_def SetString_def is_digit_def digit_val_def digits_value_def)
  with True show ?thesis by (simp add: EncodeBig_def)
next
  case False
  then show ?thesis
    using DecodeBig_format [of "nat n"] DecodeBig_signed [of "format_nat 16 (nat (- n))"]
    by (auto simp: EncodeBig_def)
qed

text \<open>
  \<open>DecodeNibble\<close> gives the value of a hexadecimal digit of either case, below 16, and
  \<open>BadNibble\<close> for every other byte.
\<close>

lemma decode_nibble:
  "DecodeNibble b = (if is_digit 16 (byte_char b) then of_nat (the (digit_val (byte_char b))) else BadNibble)"
proof -
  have "unat b < 256" by (rule unat_byte)
  then have n: "of_char (byte_char b) = unat b" by (simp add: byte_char_def)
  have sub: "ucast (b - w) = (of_nat (unat b - unat w) :: uint64)" if "w \<le> b" for w
    unfolding unat_sub [OF that, symmetric] by simp
  consider "48 \<le> b" "b \<le> 57" | "65 \<le> b" "b \<le> 70" | "97 \<le> b" "b \<le> 102"
    | "\<not> (48 \<le> b \<and> b \<le> 57)" "\<not> (65 \<le> b \<and> b \<le> 70)" "\<not> (97 \<le> b \<and> b \<le> 102)" by blast
  then show ?thesis
  proof cases
    case 1
    then have "unat b - 48 < 16" by (simp add: word_le_nat_alt less_diff_conv2)
    with 1 show ?thesis using sub [of 48]
      by (simp add: DecodeNibble_def is_digit_def digit_val_def n word_le_nat_alt)
  next
    case 2
    then have "55 \<le> b" "b - 65 + 10 = b - 55" by (simp_all add: word_le_nat_alt)
    moreover have "unat b - 55 < 16" using 2 by (simp add: word_le_nat_alt less_diff_conv2)
    ultimately show ?thesis using 2 sub [of 55]
      by (simp add: DecodeNibble_def is_digit_def digit_val_def n word_le_nat_alt)
  next
    case 3
    then have "87 \<le> b" "b - 97 + 10 = b - 87" by (simp_all add: word_le_nat_alt)
    moreover have "unat b - 87 < 16" using 3 by (simp add: word_le_nat_alt less_diff_conv2)
    ultimately show ?thesis using 3 sub [of 87]
      by (simp add: DecodeNibble_def is_digit_def digit_val_def n word_le_nat_alt)
  next
    case 4
    then show ?thesis
      by (auto simp: DecodeNibble_def is_digit_def digit_val_def n word_le_nat_alt Let_def)
  qed
qed

end
