(* ===== verification/GoFmt.thy ===== *)
theory GoFmt
  imports GoText
begin

section \<open>Formatted text\<close>

text \<open>
  \<open>fmt.Sprintf\<close> for the templates of the program: verbs for integers and texts, with flags and a
  width for integers, and the marks it writes for an argument that is missing, is too many, or
  does not fit the verb. What is outside (precisions, argument indexes, \<open>#\<close>, other verbs, the
  width of a text) is \<^const>\<open>None\<close>, never a guess.
\<close>

text \<open>Arguments: an integer with its type, a string, an error with its type and message, nil.\<close>

datatype fmt_arg = FmtInt gostring int | FmtString gostring | FmtError gostring gostring | FmtNil

record fmt_flags =
  ff_minus :: bool
  ff_plus :: bool
  ff_zero :: bool
  ff_space :: bool
  ff_width :: "nat option"

definition no_flags :: fmt_flags where
  "no_flags = \<lparr>ff_minus = False, ff_plus = False, ff_zero = False, ff_space = False, ff_width = None\<rparr>"

lemma no_flags_simps [simp]:
  "ff_width no_flags = None" "ff_plus no_flags = False" "ff_minus no_flags = False" "ff_zero no_flags = False"
  "ff_space no_flags = False" "no_flags\<lparr>ff_plus := False\<rparr> = no_flags"
  by (simp_all add: no_flags_def)

definition is_flag :: "char \<Rightarrow> bool" where
  "is_flag c \<longleftrightarrow> c \<in> set ''-+0 ''"

definition set_flag :: "char \<Rightarrow> fmt_flags \<Rightarrow> fmt_flags" where
  "set_flag c f =
     (if c = CHR ''-'' then f\<lparr>ff_minus := True, ff_zero := False\<rparr>
      else if c = CHR ''+'' then f\<lparr>ff_plus := True\<rparr>
      else if c = CHR ''0'' then f\<lparr>ff_zero := \<not> ff_minus f\<rparr>
      else f\<lparr>ff_space := True\<rparr>)"

text \<open>An integer: sign, zeros up to the width, or blanks on one side.\<close>

definition fmt_int :: "fmt_flags \<Rightarrow> int \<Rightarrow> gostring" where
  "fmt_int f v =
     (let digits = format_nat 10 (nat \<bar>v\<bar>);
          sign = (if v < 0 then ''-'' else if ff_plus f then ''+'' else if ff_space f then '' '' else [])
      in case ff_width f of
           None \<Rightarrow> sign @ digits
         | Some w \<Rightarrow>
             if ff_zero f then sign @ replicate (w - length sign - length digits) (CHR ''0'') @ digits
             else (let pad = replicate (w - length sign - length digits) (CHR '' '') in
                   if ff_minus f then sign @ digits @ pad else pad @ sign @ digits))"

text \<open>An argument as \<open>%v\<close> writes it, and what an argument that does not fit the verb leaves.\<close>

fun arg_text :: "fmt_flags \<Rightarrow> fmt_arg \<Rightarrow> gostring" where
  "arg_text f (FmtInt ty v) = fmt_int f v"
| "arg_text f (FmtString s) = s"
| "arg_text f (FmtError ty msg) = msg"
| "arg_text f FmtNil = ''<nil>''"

fun type_text :: "fmt_flags \<Rightarrow> fmt_arg \<Rightarrow> gostring" where
  "type_text f (FmtInt ty v) = ty @ ''='' @ arg_text f (FmtInt ty v)"
| "type_text f (FmtString s) = ''string='' @ s"
| "type_text f (FmtError ty msg) = ty @ ''='' @ msg"
| "type_text f FmtNil = ''<nil>''"

definition bad_verb :: "fmt_flags \<Rightarrow> char \<Rightarrow> fmt_arg \<Rightarrow> gostring" where
  "bad_verb f c a = ''%!'' @ [c] @ ''('' @ type_text f a @ '')''"

text \<open>Verbs that mean something for some argument but are not used.\<close>

definition other_verb :: "char \<Rightarrow> bool" where
  "other_verb c \<longleftrightarrow> c \<in> set ''TpbcoOqxXUeEfFgGtw'' \<or> of_char c \<ge> (128 :: nat)"

fun fmt_verb :: "fmt_flags \<Rightarrow> char \<Rightarrow> fmt_arg \<Rightarrow> gostring option" where
  "fmt_verb f c (FmtInt ty v) =
     (if c = CHR ''v'' then Some (fmt_int (f\<lparr>ff_plus := False\<rparr>) v)
      else if c = CHR ''d'' then Some (fmt_int f v)
      else if other_verb c then None else Some (bad_verb f c (FmtInt ty v)))"
| "fmt_verb f c (FmtString s) =
     (if ff_width f \<noteq> None then None
      else if c = CHR ''v'' \<or> c = CHR ''s'' then Some s
      else if other_verb c then None else Some (bad_verb f c (FmtString s)))"
| "fmt_verb f c (FmtError ty msg) =
     (if ff_width f \<noteq> None \<or> ff_plus f then None
      else if c = CHR ''v'' \<or> c = CHR ''s'' then Some msg else None)"
| "fmt_verb f c FmtNil =
     (if ff_width f \<noteq> None \<or> other_verb c then None
      else if c = CHR ''v'' then Some ''<nil>'' else Some (bad_verb f c FmtNil))"

text \<open>A directive behind its \<open>%\<close>: flags, width, and the text from the verb on.\<close>

definition directive :: "gostring \<Rightarrow> fmt_flags \<times> gostring" where
  "directive t =
     (let r = dropWhile is_flag t; digits = takeWhile (is_digit 10) r in
      ((fold set_flag (takeWhile is_flag t) no_flags)
         \<lparr>ff_width := (if digits = [] then None else Some (digits_value 10 digits))\<rparr>,
       dropWhile (is_digit 10) r))"

lemma directive_length: "length (snd (directive t)) \<le> length t"
  by (auto simp: directive_def Let_def intro: le_trans [OF length_dropWhile_le length_dropWhile_le])

definition not_modelled :: "fmt_flags \<Rightarrow> char \<Rightarrow> bool" where
  "not_modelled f c \<longleftrightarrow> c \<in> set ''.*[#'' \<or> of_char c \<ge> (128 :: nat)
     \<or> (case ff_width f of None \<Rightarrow> False | Some w \<Rightarrow> w > 1000000)"

text \<open>The loop over the template: the text, and the arguments left over.\<close>

function fmt_loop :: "gostring \<Rightarrow> fmt_arg list \<Rightarrow> (gostring \<times> fmt_arg list) option" where
  "fmt_loop [] args = Some ([], args)"
| "fmt_loop (c # t) args =
     (if c \<noteq> CHR ''%'' then map_option (apfst ((#) c)) (fmt_loop t args)
      else case directive t of
        (f, []) \<Rightarrow> Some (''%!(NOVERB)'', args)
      | (f, v # r) \<Rightarrow>
          if not_modelled f v then None
          else if v = CHR ''%'' then map_option (apfst ((#) v)) (fmt_loop r args)
          else (case args of
                  [] \<Rightarrow> map_option (apfst ((@) (''%!'' @ [v] @ ''(MISSING)''))) (fmt_loop r [])
                | a # rest \<Rightarrow>
                    (case fmt_verb f v a of
                       None \<Rightarrow> None
                     | Some s \<Rightarrow> map_option (apfst ((@) s)) (fmt_loop r rest))))"
  by pat_completeness auto
termination
proof (relation "measure (\<lambda>(t, args). length t)", goal_cases)
  case (3 c t args x f v r)
  then show ?case using directive_length [of t] by (cases "directive t") auto
next
  case (4 c t args x f v r)
  then show ?case using directive_length [of t] by (cases "directive t") auto
next
  case (5 c t args x f v r a rest s)
  then show ?case using directive_length [of t] by (cases "directive t") auto
qed auto

text \<open>The arguments left over are listed behind the text.\<close>

fun extra_list :: "fmt_arg list \<Rightarrow> gostring" where
  "extra_list [] = []"
| "extra_list [a] = type_text no_flags a"
| "extra_list (a # as) = type_text no_flags a @ '', '' @ extra_list as"

definition extra_text :: "fmt_arg list \<Rightarrow> gostring" where
  "extra_text args = (if args = [] then [] else ''%!(EXTRA '' @ extra_list args @ '')'')"

definition Sprintf :: "gostring \<Rightarrow> fmt_arg list \<Rightarrow> gostring option" where
  "Sprintf t args = map_option (\<lambda>(out, rest). out @ extra_text rest) (fmt_loop t args)"

subsection \<open>How many arguments a template takes\<close>

function verbs :: "gostring \<Rightarrow> nat" where
  "verbs [] = 0"
| "verbs (c # t) =
     (if c \<noteq> CHR ''%'' then verbs t
      else case directive t of
        (f, []) \<Rightarrow> 0
      | (f, v # r) \<Rightarrow> if v = CHR ''%'' then verbs r else Suc (verbs r))"
  by pat_completeness auto
termination
proof (relation "measure length", goal_cases)
  case (3 c t x f v r)
  then show ?case using directive_length [of t] by (cases "directive t") auto
next
  case (4 c t x f v r)
  then show ?case using directive_length [of t] by (cases "directive t") auto
qed auto

lemma fmt_loop_more:
  "fmt_loop t args = Some (out, rest) \<Longrightarrow> verbs t \<le> length args \<Longrightarrow>
   fmt_loop t (args @ ys) = Some (out, rest @ ys) \<and> length rest = length args - verbs t"
proof (induction t args arbitrary: out rest rule: fmt_loop.induct)
  case (2 c t args)
  obtain f u where d: "directive t = (f, u)" by (cases "directive t")
  show ?case
  proof (cases "c = CHR ''%''")
    case False
    then show ?thesis using 2 by auto
  next
    case pc: True
    show ?thesis
    proof (cases u)
      case Nil
      then show ?thesis using 2 pc d by simp
    next
      case (Cons v r)
      have m: "\<not> not_modelled f v" using 2 pc d Cons by (auto split: if_splits)
      show ?thesis
      proof (cases "v = CHR ''%''")
        case True
        then show ?thesis using 2 pc d Cons m by auto
      next
        case False
        then obtain a as where as: "args = a # as" using 2 pc d Cons by (cases args) auto
        then obtain x where x: "fmt_verb f v a = Some x" using 2 pc d Cons m False by (auto split: option.splits)
        then show ?thesis using 2 pc d Cons m False as by auto
      qed
    qed
  qed
qed simp

text \<open>
  One argument too many, behind a template whose verbs all have theirs: the text is followed
  by the mark with the type and the value of the argument.
\<close>

lemma Sprintf_extra:
  assumes "Sprintf t args = Some out" and "verbs t = length args"
  shows "Sprintf t (args @ [FmtString s]) = Some (out @ ''%!(EXTRA string='' @ s @ '')'')"
proof -
  from assms(1) obtain u rest where r: "fmt_loop t args = Some (u, rest)" "out = u @ extra_text rest"
    by (auto simp: Sprintf_def)
  from fmt_loop_more [OF r(1), of "[FmtString s]"] assms(2)
  have "fmt_loop t (args @ [FmtString s]) = Some (u, rest @ [FmtString s])" "rest = []" by auto
  then show ?thesis using r(2) by (simp add: Sprintf_def extra_text_def)
qed

text \<open>A template without a percent sign is its own text.\<close>

lemma Sprintf_plain: "CHR ''%'' \<notin> set t \<Longrightarrow> Sprintf t [] = Some t"
proof -
  have "CHR ''%'' \<notin> set t \<Longrightarrow> fmt_loop t args = Some (t, args)" for args
    by (induction t) auto
  then show "CHR ''%'' \<notin> set t \<Longrightarrow> Sprintf t [] = Some t" by (simp add: Sprintf_def extra_text_def)
qed

text \<open>The templates of the program evaluate by these.\<close>

lemma directive_verb:
  "\<not> is_flag v \<Longrightarrow> \<not> is_digit 10 v \<Longrightarrow> directive (v # r) = (no_flags, v # r)"
  by (simp add: directive_def no_flags_def)

lemma verb_chars [simp]:
  "\<not> is_flag (CHR ''s'')" "\<not> is_flag (CHR ''d'')" "\<not> is_flag (CHR ''v'')"
  "\<not> is_digit 10 (CHR ''s'')" "\<not> is_digit 10 (CHR ''d'')" "\<not> is_digit 10 (CHR ''v'')"
  "\<not> not_modelled no_flags (CHR ''s'')" "\<not> not_modelled no_flags (CHR ''d'')" "\<not> not_modelled no_flags (CHR ''v'')"
  by code_simp+

lemma fmt_int_plain [simp]: "fmt_int no_flags v = (if v < 0 then ''-'' else []) @ format_nat 10 (nat \<bar>v\<bar>)"
  by (simp add: fmt_int_def Let_def)

lemma fmt_verb_plain [simp]:
  "fmt_verb no_flags (CHR ''d'') (FmtInt ty v) = Some ((if v < 0 then ''-'' else []) @ format_nat 10 (nat \<bar>v\<bar>))"
  "fmt_verb no_flags (CHR ''s'') (FmtString s) = Some s" "fmt_verb no_flags (CHR ''v'') (FmtString s) = Some s"
  "fmt_verb no_flags (CHR ''s'') (FmtError ty msg) = Some msg" "fmt_verb no_flags (CHR ''v'') (FmtError ty msg) = Some msg"
  by simp_all

lemma fmt_loop_verb [simp]:
  "v \<in> set ''sdv'' \<Longrightarrow> fmt_loop (CHR ''%'' # v # r) (a # args) =
     (case fmt_verb no_flags v a of None \<Rightarrow> None | Some s \<Rightarrow> map_option (apfst ((@) s)) (fmt_loop r args))"
  by (auto simp: directive_verb)

declare fmt_loop.simps(2) [simp del]

lemma fmt_loop_char [simp]: "c \<noteq> CHR ''%'' \<Longrightarrow> fmt_loop (c # t) args = map_option (apfst ((#) c)) (fmt_loop t args)"
  by (simp add: fmt_loop.simps(2))

end
