(* ===== verification/Endpoints.thy ===== *)
theory Endpoints
  imports Sender Hex GoFmt
begin

section \<open>The endpoint\<close>

text \<open>
  Model of \<open>server/endpoints.go\<close> and \<open>server/errors.go\<close>. Transactions, their binary and
  JSON forms, hashes and signatures come from \<open>go-ethereum\<close>, which is not part of the
  repository: the record \<open>eth_lib\<close> holds what the source calls of it, over a type \<open>'tx\<close> of
  transactions. As the sender, the endpoint keeps no state; it transforms the state \<open>'st\<close> of
  the pool database and of the sender behind their interfaces.
\<close>

subsection \<open>Errors\<close>

definition DefaultErrorCode :: int where "DefaultErrorCode = - 32000"
definition InvalidRequestErrorCode :: int where "InvalidRequestErrorCode = - 32600"
definition NotFoundErrorCode :: int where "NotFoundErrorCode = - 32601"
definition InvalidParamsErrorCode :: int where "InvalidParamsErrorCode = - 32602"
definition ParserErrorCode :: int where "ParserErrorCode = - 32700"

lemmas error_codes =
  DefaultErrorCode_def InvalidRequestErrorCode_def NotFoundErrorCode_def
  InvalidParamsErrorCode_def ParserErrorCode_def

record ServerError =
  se_err :: gostring
  se_code :: int
  se_data :: "gobytes option"

text \<open>
  The constructor takes arguments for a template. The calls in the program pass none, and then
  the message is taken as it is, whatever signs it holds; \<open>NewServerErrorWithData\<close> below is that
  case. (\<^const>\<open>None\<close> is a template outside the model of \<open>Sprintf\<close>.)
\<close>

definition NewServerErrorFormatted :: "int \<Rightarrow> gostring \<Rightarrow> gobytes option \<Rightarrow> fmt_arg list \<Rightarrow> ServerError option" where
  "NewServerErrorFormatted code err data args =
     map_option (\<lambda>errMessage. \<lparr>se_err = errMessage, se_code = code, se_data = data\<rparr>)
       (if args \<noteq> [] then Sprintf err args else Some err)"

definition NewServerErrorWithData :: "int \<Rightarrow> gostring \<Rightarrow> gobytes option \<Rightarrow> ServerError" where
  "NewServerErrorWithData code err data = \<lparr>se_err = err, se_code = code, se_data = data\<rparr>"

definition NewServerError :: "int \<Rightarrow> gostring \<Rightarrow> ServerError" where
  "NewServerError code err = NewServerErrorWithData code err None"

lemma NewServerErrorFormatted_plain:
  "NewServerErrorFormatted code err data [] = Some (NewServerErrorWithData code err data)"
  by (simp add: NewServerErrorFormatted_def NewServerErrorWithData_def)

lemma NewServerErrorFormatted_example:
  "NewServerErrorFormatted DefaultErrorCode ''want at most %d'' None [FmtInt ''int'' 2]
     = Some (NewServerErrorWithData DefaultErrorCode ''want at most 2'' None)"
  by code_simp

lemmas client_errors [go_errors] = NewServerError_def NewServerErrorWithData_def error_codes

subsection \<open>Transactions\<close>

record 'tx eth_lib =
  eth_UnmarshalBinary :: "gobytes \<Rightarrow> goerror + 'tx"
  eth_MarshalJSON :: "'tx \<Rightarrow> goerror + gostring"
  eth_Hash :: "'tx \<Rightarrow> gostring"
  eth_GasPrice :: "'tx \<Rightarrow> int"
  eth_Nonce :: "'tx \<Rightarrow> uint64"
  eth_ChainId :: "'tx \<Rightarrow> int"
  eth_EIP155Sender :: "int \<Rightarrow> 'tx \<Rightarrow> goerror + gobytes"
  eth_AddressString :: "gobytes \<Rightarrow> gostring"

definition hexToTx :: "'tx eth_lib \<Rightarrow> gostring \<Rightarrow> 'tx option" where
  "hexToTx lib str =
     (case DecodeHex str of
        (b, Some err) \<Rightarrow> None
      | (b, None) \<Rightarrow> (case eth_UnmarshalBinary lib b of Inl err \<Rightarrow> None | Inr tx \<Rightarrow> Some tx))"

text \<open>The sender's address, the zero address (20 bytes) when it cannot be recovered.\<close>

definition GetSender :: "'tx eth_lib \<Rightarrow> 'tx \<Rightarrow> gobytes \<times> goerror" where
  "GetSender lib tx =
     (case eth_EIP155Sender lib (eth_ChainId lib tx) tx of
        Inl err \<Rightarrow> (replicate 20 0, err)
      | Inr addr \<Rightarrow> (addr, None))"

subsection \<open>SendRawTransaction\<close>

text \<open>The first address of the header \<open>X-Forwarded-For\<close>.\<close>

definition request_ip :: "gostring \<Rightarrow> gostring" where
  "request_ip ips = (if ips \<noteq> [] then hd (split_at (CHR '','') ips) else [])"

text \<open>The row for a transaction: everything but the identifier, which the database gives.\<close>

definition new_l2tx ::
  "'tx eth_lib \<Rightarrow> gotime \<Rightarrow> gostring \<Rightarrow> gostring \<Rightarrow> gostring \<Rightarrow> 'tx \<Rightarrow> L2Transaction" where
  "new_l2tx lib now ips input decoded tx =
     \<lparr>tx_Id = 0, tx_Hash = eth_Hash lib tx, tx_ReceivedAt = now,
      tx_FromAddress = eth_AddressString lib (fst (GetSender lib tx)),
      tx_GasPrice = word_of_int (eth_GasPrice lib tx), tx_Nonce = eth_Nonce lib tx,
      tx_Status = TxStatusPending, tx_IP = request_ip ips, tx_Encoded = input, tx_Decoded = decoded\<rparr>"

type_synonym 'st addtx_op = "L2Transaction \<Rightarrow> 'st \<Rightarrow> (uint64 \<times> goerror) \<times> 'st"
type_synonym 'st send_op = "L2Transaction option \<Rightarrow> 'st \<Rightarrow> (goerror \<times> 'st) option"

text \<open>
  The result is the hash or an error for the client. An error of the insertion is logged, and
  the call goes on with the identifier the database returned along with it.
\<close>

definition SendRawTransaction ::
  "'tx eth_lib \<Rightarrow> 'st addtx_op \<Rightarrow> 'st send_op \<Rightarrow> gotime \<Rightarrow> gostring \<Rightarrow> gostring \<Rightarrow> 'st \<Rightarrow>
    ((ServerError + gostring) \<times> 'st) option" where
  "SendRawTransaction lib addtx send now ips input s =
     (case hexToTx lib input of
        None \<Rightarrow> Some (Inl (NewServerErrorWithData InvalidParamsErrorCode ''invalid tx input'' None), s)
      | Some tx \<Rightarrow>
          (case eth_MarshalJSON lib tx of
             Inl err \<Rightarrow> Some (Inl (NewServerErrorWithData ParserErrorCode ''error parsing tx'' None), s)
           | Inr decoded \<Rightarrow>
               (let l2Tx = new_l2tx lib now ips input decoded tx;
                    ((i, err), s1) = addtx l2Tx s;
                    l2Tx' = l2Tx\<lparr>tx_Id := i\<rparr>
                in do {
                  (err, s2) \<leftarrow> send (Some l2Tx') s1;
                  Some (case err of
                          Some e \<Rightarrow> (Inl (NewServerErrorWithData DefaultErrorCode e None), s2)
                        | None \<Rightarrow> (Inr (eth_Hash lib tx), s2)) })))"

end
