(* ===== verification/PoolSystem.thy ===== *)
theory PoolSystem
  imports Endpoints MonitorHandlers
begin

section \<open>The pool manager as one system\<close>

text \<open>
  The components put together as \<open>cmd/main.go\<close> does: one pool database shared by the
  endpoint, the sender and the monitor, the sender calling the monitor, the sequencer
  outside. Each call runs to its end before the next one starts; what concurrency adds is
  the subject of theories \<open>MonitorSteps\<close> and \<open>SenderQueue\<close>.

  The sequencer answers a payload depending on everything it was sent before; the state
  records what was sent. \<open>ps_live\<close> says whether the sender has a worker that has dialled the
  sequencer; without one a call to the sender does not return. \<open>ps_clock\<close> gives the instants that \<open>time.Now()\<close> returns to the
  monitor.
\<close>

subsection \<open>State and operations\<close>

record pool_sys =
  ps_mon :: "PoolDB Monitor"
  ps_sent :: "gostring list"
  ps_answer :: "gostring list \<Rightarrow> gostring \<Rightarrow> goerror"
  ps_clock :: "nat \<Rightarrow> gotime"
  ps_tick :: nat
  ps_live :: bool

definition ps_db :: "pool_sys \<Rightarrow> PoolDB" where
  "ps_db s = m_db (ps_mon s)"

definition set_db :: "PoolDB \<Rightarrow> pool_sys \<Rightarrow> pool_sys" where
  "set_db d s = s\<lparr>ps_mon := (ps_mon s)\<lparr>m_db := d\<rparr>\<rparr>"

definition sys_update :: "pool_sys update_op" where
  "sys_update i st msg s =
     (let (err, d) = UpdateL2TransactionStatus i st msg (ps_db s) in (err, set_db d s))"

definition sys_call :: "pool_sys call_op" where
  "sys_call payload s = (ps_answer s (ps_sent s) payload, s\<lparr>ps_sent := ps_sent s @ [payload]\<rparr>)"

definition sys_madd :: "MonitorConfig \<Rightarrow> pool_sys madd_op" where
  "sys_madd cfg tx s =
     map_option (\<lambda>m. s\<lparr>ps_mon := m, ps_tick := ps_tick s + 1\<rparr>)
       (monitorAddL2Transaction cfg (ps_clock s (ps_tick s)) tx (ps_mon s))"

definition sys_get :: "(PoolDB \<Rightarrow> (gostring + L2Transaction option list) \<times> PoolDB) \<Rightarrow> pool_sys query_op" where
  "sys_get get s = (let (res, d) = get (ps_db s) in (res, set_db d s))"

definition sys_addtx :: "(L2Transaction \<Rightarrow> L2Transaction option) \<Rightarrow> pool_sys addtx_op" where
  "sys_addtx enc tx s = (let (res, d) = AddL2Transaction enc tx (ps_db s) in (res, set_db d s))"

definition sys_send :: "MonitorConfig \<Rightarrow> pool_sys send_op" where
  "sys_send cfg = SendL2Transaction ps_live sys_update sys_call (sys_madd cfg)"

definition sys_raw_tx ::
  "MonitorConfig \<Rightarrow> 'tx eth_lib \<Rightarrow> (L2Transaction \<Rightarrow> L2Transaction option) \<Rightarrow> gotime \<Rightarrow> gostring \<Rightarrow> gostring \<Rightarrow>
    pool_sys \<Rightarrow> ((ServerError + gostring) \<times> pool_sys) option" where
  "sys_raw_tx cfg lib enc now ips input s =
     SendRawTransaction lib (sys_addtx enc) (sys_send cfg) now ips input s"

definition sys_resend :: "MonitorConfig \<Rightarrow> gostring \<Rightarrow> query_env \<Rightarrow> pool_sys \<Rightarrow> (bool \<times> pool_sys) option" where
  "sys_resend cfg noRows q s =
     checkL2TransactionsToResend noRows ps_live sys_update sys_call (sys_madd cfg)
       (sys_get (GetL2TransactionsToResend q)) s"

definition sys_start_sender :: "MonitorConfig \<Rightarrow> query_env \<Rightarrow> pool_sys \<Rightarrow> pool_sys option" where
  "sys_start_sender cfg q s =
     sendL2TransactionsFromPoolDB ps_live sys_update sys_call (sys_madd cfg) (sys_get (GetL2TransactionsToSend q)) s"

definition sys_new :: "bool \<Rightarrow> PoolDB \<Rightarrow> (gostring list \<Rightarrow> gostring \<Rightarrow> goerror) \<Rightarrow> (nat \<Rightarrow> gotime) \<Rightarrow> pool_sys" where
  "sys_new live db answer clk = \<lparr>ps_mon = NewMonitor db, ps_sent = [], ps_answer = answer,
     ps_clock = clk, ps_tick = 0, ps_live = live\<rparr>"

subsection \<open>The system provides what the sender relies on\<close>

text \<open>A good state: the database and the monitor are well-formed, and a worker of the sender has dialled.\<close>

definition sys_inv :: "pool_sys \<Rightarrow> bool" where
  "sys_inv s \<longleftrightarrow> db_inv (ps_db s) \<and> mon_ok (ps_mon s) \<and> ps_live s"

definition sys_status :: "pool_sys \<Rightarrow> uint64 \<Rightarrow> gostring option" where
  "sys_status s = status_of (ps_db s)"

definition sys_watched :: "pool_sys \<Rightarrow> uint64 set" where
  "sys_watched s = monitored (ps_mon s)"

lemma set_db_simps [simp]:
  "ps_db (set_db d s) = d" "ps_sent (set_db d s) = ps_sent s" "ps_answer (set_db d s) = ps_answer s"
  "mon_ok (ps_mon (set_db d s)) = mon_ok (ps_mon s)"
  "monitored (ps_mon (set_db d s)) = monitored (ps_mon s)" "ps_live (set_db d s) = ps_live s"
  by (simp_all add: ps_db_def set_db_def mon_ok_def monitored_def)

lemma sys_call_simps [simp]:
  "ps_mon (snd (sys_call p s)) = ps_mon s" "fst (sys_call p s) = ps_answer s (ps_sent s) p"
  "ps_sent (snd (sys_call p s)) = ps_sent s @ [p]" "ps_answer (snd (sys_call p s)) = ps_answer s"
  "ps_live (snd (sys_call p s)) = ps_live s"
  by (simp_all add: sys_call_def)

lemma sys_madd_result:
  assumes "sys_inv s"
  shows "\<exists>s'. sys_madd cfg tx s = Some s' \<and> sys_inv s' \<and> ps_db s' = ps_db s
    \<and> sys_watched s' = insert (tx_Id tx) (sys_watched s) \<and> ps_sent s' = ps_sent s"
proof -
  obtain m' where "monitorAddL2Transaction cfg (ps_clock s (ps_tick s)) tx (ps_mon s) = Some m'"
      "mon_ok m'" "monitored m' = insert (tx_Id tx) (monitored (ps_mon s))" "m_db m' = m_db (ps_mon s)"
    using add_registers [of "ps_mon s" cfg "ps_clock s (ps_tick s)" tx] assms by (auto simp: sys_inv_def)
  then show ?thesis using assms
    by (simp add: sys_madd_def sys_inv_def ps_db_def sys_watched_def)
qed

interpretation pool_system: sender_env sys_inv sys_status sys_update ps_live sys_call "sys_madd cfg" sys_watched
proof (unfold_locales, goal_cases)
  case (1 d i s m)
  then show ?case
    using db_inv_Update [of "ps_db d" i s m]
    by (cases "UpdateL2TransactionStatus i s m (ps_db d)") (simp add: sys_inv_def sys_update_def)
next
  case (2 i s m d d')
  then show ?case
    using pool_store.update_ok [of i s m "ps_db d"]
    by (auto simp: sys_update_def sys_status_def split: prod.splits)
next
  case (3 i s m d e d')
  then show ?case
    using pool_store.update_err [of i s m "ps_db d" e]
    by (auto simp: sys_update_def sys_status_def split: prod.splits)
next
  case (4 s)
  then show ?case by (simp add: sys_inv_def)
next
  case (5 s payload)
  then show ?case by (simp add: sys_inv_def ps_db_def)
next
  case (6 payload s)
  show ?case by (simp add: sys_status_def ps_db_def)
next
  case (7 payload s)
  show ?case by (simp add: sys_watched_def)
next
  case (8 i st m s)
  show ?case by (simp add: sys_update_def sys_watched_def split: prod.split)
next
  case (9 s tx)
  then show ?case using sys_madd_result [of s cfg tx] by (auto simp: sys_status_def)
qed

text \<open>What the laws leave open: the payloads sent, and the database's environment.\<close>

definition all_ok :: "PoolDB \<Rightarrow> bool" where
  "all_ok db \<longleftrightarrow> (\<forall>n. st_out (db_env db n) = StOk)"

lemma update_env: "db_env (snd (UpdateL2TransactionStatus i st m db)) = db_env db"
  by (simp add: UpdateL2TransactionStatus_def Let_def update_rows_def split: stmt_outcome.split)

lemma sys_update_frame:
  "ps_sent (snd (sys_update i st m s)) = ps_sent s" "ps_answer (snd (sys_update i st m s)) = ps_answer s"
  "all_ok (ps_db (snd (sys_update i st m s))) = all_ok (ps_db s)"
  using update_env [of i st m "ps_db s"]
  by (cases "UpdateL2TransactionStatus i st m (ps_db s)"; simp add: sys_update_def all_ok_def)+

lemma sys_madd_frame:
  assumes "sys_inv s" "sys_madd cfg tx s = Some s'"
  shows "ps_sent s' = ps_sent s" "ps_answer s' = ps_answer s" "ps_db s' = ps_db s"
  using sys_madd_result [OF assms(1), of cfg tx] assms(2) by (auto simp: sys_madd_def)

lemma sys_send_frame:
  assumes inv: "sys_inv s" and run: "sys_send cfg (Some tx) s = Some (err, s')"
  shows "err = ps_answer s (ps_sent s) (tx_Encoded tx)" "ps_sent s' = ps_sent s @ [tx_Encoded tx]"
    "ps_answer s' = ps_answer s" "all_ok (ps_db s') = all_ok (ps_db s)"
proof -
  obtain e s1 where c: "sys_call (tx_Encoded tx) s = (e, s1)" by fastforce
  have live: "ps_live s" using inv by (simp add: sys_inv_def)
  from c have s1: "s1 = snd (sys_call (tx_Encoded tx) s)" "e = fst (sys_call (tx_Encoded tx) s)" by simp_all
  have i1: "sys_inv s1" using pool_system.call_inv [OF inv] s1(1) by simp
  have db1: "ps_db s1 = ps_db s" by (simp add: s1(1) ps_db_def)
  have "err = e \<and> ps_sent s' = ps_sent s1 \<and> ps_answer s' = ps_answer s1 \<and> all_ok (ps_db s') = all_ok (ps_db s1)"
  proof (cases e)
    case (Some m)
    then have "err = e \<and> s' = snd (sys_update (tx_Id tx) TxStatusInvalid m s1)"
      using run c by (auto simp: sys_send_def SendL2Transaction_def enqueue_and_wait_def senderWorkerProcessRequest_def live split: prod.splits)
    then show ?thesis using sys_update_frame by simp
  next
    case None
    let ?s2 = "snd (sys_update (tx_Id tx) TxStatusSent [] s1)"
    have m: "err = e" "sys_madd cfg tx ?s2 = Some s'"
      using run c None
      by (auto simp: sys_send_def SendL2Transaction_def enqueue_and_wait_def senderWorkerProcessRequest_def live split: prod.splits bind_splits)
    have "sys_inv ?s2" by (rule pool_system.update_inv [OF i1])
    from sys_madd_frame [OF this m(2)] sys_update_frame m(1) show ?thesis by simp
  qed
  then show "err = ps_answer s (ps_sent s) (tx_Encoded tx)" "ps_sent s' = ps_sent s @ [tx_Encoded tx]"
      "ps_answer s' = ps_answer s" "all_ok (ps_db s') = all_ok (ps_db s)"
    using db1 by (simp_all add: s1)
qed

text \<open>Without a worker that has dialled a call to the sender does not return.\<close>

lemma sys_send_waits: "\<not> ps_live s \<Longrightarrow> sys_send cfg tx s = None"
  by (cases tx) (simp_all add: sys_send_def SendL2Transaction_def enqueue_and_wait_def)

lemma sys_update_ok: "all_ok (ps_db s) \<Longrightarrow> fst (sys_update i st m s) = None"
  by (simp add: sys_update_def all_ok_def UpdateL2TransactionStatus_def Let_def)

text \<open>One transaction through the sender.\<close>

lemma sys_send_result:
  assumes inv: "sys_inv s"
  shows "\<exists>s'. sys_send cfg (Some tx) s = Some (ps_answer s (ps_sent s) (tx_Encoded tx), s') \<and> sys_inv s'
    \<and> ps_sent s' = ps_sent s @ [tx_Encoded tx]
    \<and> sys_watched s' = (if ps_answer s (ps_sent s) (tx_Encoded tx) = None
                        then insert (tx_Id tx) (sys_watched s) else sys_watched s)
    \<and> (all_ok (ps_db s) \<longrightarrow> sys_status s' =
        set_status (tx_Id tx) (if ps_answer s (ps_sent s) (tx_Encoded tx) = None
                               then TxStatusSent else TxStatusInvalid) (sys_status s))"
proof -
  obtain err s1 where c: "sys_call (tx_Encoded tx) s = (err, s1)" by fastforce
  obtain s' where s': "sys_send cfg (Some tx) s = Some (err, s')" "sys_inv s'"
      "sys_watched s' = (if err = None then insert (tx_Id tx) (sys_watched s) else sys_watched s)"
    using pool_system.send_result [OF inv c] unfolding sys_send_def by blast
  have db1: "ps_db s1 = ps_db s" using c by (auto simp: sys_call_def ps_db_def)
  have "sys_status s' = set_status (tx_Id tx) (if err = None then TxStatusSent else TxStatusInvalid) (sys_status s)"
    if "all_ok (ps_db s)"
  proof -
    have "fst (sys_update (tx_Id tx) (if err = None then TxStatusSent else TxStatusInvalid)
        (case err of None \<Rightarrow> [] | Some e \<Rightarrow> e) s1) = None"
      using that db1 by (intro sys_update_ok) simp
    from pool_system.send_stored [OF inv c this] obtain s'' where
      "sys_send cfg (Some tx) s = Some (err, s'')"
      "sys_status s'' = set_status (tx_Id tx) (if err = None then TxStatusSent else TxStatusInvalid) (sys_status s)"
      unfolding sys_send_def by blast
    then show ?thesis using s'(1) by simp
  qed
  with s' sys_send_frame [OF inv s'(1)] show ?thesis by (intro exI [of _ s']) simp
qed

text \<open>A loop over transactions, with a database that works.\<close>

lemma sys_send_all_result:
  "sys_inv s \<Longrightarrow> all_ok (ps_db s) \<Longrightarrow>
   \<exists>s'. send_all ps_live sys_update sys_call (sys_madd cfg) (map Some txs) s = Some s' \<and> sys_inv s'
     \<and> all_ok (ps_db s') \<and> ps_sent s' = ps_sent s @ map tx_Encoded txs
     \<and> (\<forall>i. i \<notin> tx_Id ` set txs \<longrightarrow> sys_status s' i = sys_status s i)
     \<and> (\<forall>i. i \<in> tx_Id ` set txs \<and> sys_status s i \<noteq> None \<longrightarrow>
           sys_status s' i = Some TxStatusSent \<or> sys_status s' i = Some TxStatusInvalid)"
proof (induction txs arbitrary: s)
  case (Cons tx txs)
  obtain e s1 where s1: "sys_send cfg (Some tx) s = Some (e, s1)" "sys_inv s1"
      "ps_sent s1 = ps_sent s @ [tx_Encoded tx]"
      "sys_status s1 = set_status (tx_Id tx) (if e = None then TxStatusSent else TxStatusInvalid) (sys_status s)"
    using sys_send_result [OF Cons.prems(1), of cfg tx] Cons.prems(2) by blast
  have ok: "all_ok (ps_db s1)" using sys_send_frame(4) [OF Cons.prems(1) s1(1)] Cons.prems(2) by simp
  obtain s2 where s2: "send_all ps_live sys_update sys_call (sys_madd cfg) (map Some txs) s1 = Some s2" "sys_inv s2"
      "all_ok (ps_db s2)" "ps_sent s2 = ps_sent s1 @ map tx_Encoded txs"
      "\<forall>i. i \<notin> tx_Id ` set txs \<longrightarrow> sys_status s2 i = sys_status s1 i"
      "\<forall>i. i \<in> tx_Id ` set txs \<and> sys_status s1 i \<noteq> None \<longrightarrow>
           sys_status s2 i = Some TxStatusSent \<or> sys_status s2 i = Some TxStatusInvalid"
    using Cons.IH [OF s1(2) ok] by blast
  have "send_all ps_live sys_update sys_call (sys_madd cfg) (map Some (tx # txs)) s = Some s2"
    using s1(1) s2(1) by (simp add: sys_send_def)
  moreover have "sys_status s2 i = Some TxStatusSent \<or> sys_status s2 i = Some TxStatusInvalid"
    if i: "i \<in> tx_Id ` set (tx # txs)" "sys_status s i \<noteq> None" for i
  proof (cases "i \<in> tx_Id ` set txs")
    case True
    have "sys_status s1 i \<noteq> None" using i(2) s1(4) by (cases "i = tx_Id tx") auto
    then show ?thesis using True s2(6) by blast
  next
    case False
    then have "i = tx_Id tx" "sys_status s2 i = sys_status s1 i" using i(1) s2(5) by auto
    then show ?thesis using i(2) s1(4) by auto
  qed
  moreover have "sys_status s2 i = sys_status s i" if "i \<notin> tx_Id ` set (tx # txs)" for i
    using that s1(4) s2(5) by simp
  ultimately show ?case using s1(3) s2(2,3,4) by (intro exI [of _ s2]) simp
qed simp

text \<open>A query for a status followed by sending everything it returned.\<close>

lemma sys_get_result:
  assumes "sys_inv s" "all_ok (ps_db s)" "faithful_query q" "q_cut q = None"
  shows "\<exists>s1. sys_get (GetL2TransactionsByStatus q st) s =
      (Inr (map Some (map row_tx (q_order q (rows_with_status st (ps_db s))))), s1)
    \<and> sys_inv s1 \<and> all_ok (ps_db s1) \<and> sys_status s1 = sys_status s \<and> ps_sent s1 = ps_sent s
    \<and> sys_watched s1 = sys_watched s \<and> db_rows (ps_db s1) = db_rows (ps_db s)"
proof -
  have "st_out (db_env (ps_db s) (db_tick (ps_db s))) = StOk" using assms(2) by (simp add: all_ok_def)
  then have "GetL2TransactionsByStatus q st (ps_db s) =
      (Inr (map Some (map row_tx (q_order q (rows_with_status st (ps_db s))))),
       (ps_db s)\<lparr>db_tick := db_tick (ps_db s) + 1\<rparr>)"
    using query_result [OF assms(3), of "ps_db s" st] assms(4)
    by (simp add: GetL2TransactionsByStatus_def Let_def)
  then show ?thesis using assms(1,2)
    by (simp add: sys_get_def sys_inv_def sys_status_def sys_watched_def all_ok_def)
qed

lemma rows_of_status:
  assumes "db_inv db" "faithful_query q"
  shows "tx_Id ` set (map row_tx (q_order q (rows_with_status st db))) = {i. status_of db i = Some st}"
proof -
  have "mset (q_order q (rows_with_status st db)) = mset (rows_with_status st db)"
    using assms(2) by (simp add: faithful_query_def)
  from mset_eq_setD [OF this]
  have rows: "set (q_order q (rows_with_status st db)) = {r \<in> set (db_rows db). row_status r = st}"
    by (simp add: rows_with_status_def)
  have d: "distinct (map row_id (db_rows db))" using assms(1) by (simp add: db_inv_def)
  have found: "(find (\<lambda>r. row_id r = i) rs = Some x) \<longleftrightarrow> (x \<in> set rs \<and> row_id x = i)"
    if "distinct (map row_id rs)" for rs i x
    using that by (induction rs) auto
  have "(status_of db i = Some st) \<longleftrightarrow> (\<exists>r\<in>set (db_rows db). row_id r = i \<and> row_status r = st)" for i
    using found [OF d, of i] by (auto simp: status_of_def)
  then show ?thesis unfolding set_map rows by (auto simp: row_id_def)
qed

lemma sys_drain:
  assumes "sys_inv s" "all_ok (ps_db s)" "faithful_query q" "q_cut q = None"
    and "st \<noteq> TxStatusSent" "st \<noteq> TxStatusInvalid"
  shows "\<exists>s1 s' txs. sys_get (GetL2TransactionsByStatus q st) s = (Inr (map Some txs), s1)
    \<and> send_all ps_live sys_update sys_call (sys_madd cfg) (map Some txs) s1 = Some s' \<and> sys_inv s'
    \<and> (txs = [] \<longleftrightarrow> st \<notin> ran (sys_status s))
    \<and> mset txs = mset (map row_tx (rows_with_status st (ps_db s)))
    \<and> ps_sent s' = ps_sent s @ map tx_Encoded txs
    \<and> (\<forall>i. sys_status s i = Some st \<longrightarrow>
          sys_status s' i = Some TxStatusSent \<or> sys_status s' i = Some TxStatusInvalid)
    \<and> (\<forall>i. sys_status s i \<noteq> Some st \<longrightarrow> sys_status s' i = sys_status s i)"
proof -
  let ?txs = "map row_tx (q_order q (rows_with_status st (ps_db s)))"
  have ids: "tx_Id ` set ?txs = {i. sys_status s i = Some st}"
    using rows_of_status [OF _ assms(3)] assms(1) by (simp add: sys_inv_def sys_status_def)
  obtain s1 where s1: "sys_get (GetL2TransactionsByStatus q st) s = (Inr (map Some ?txs), s1)"
      "sys_inv s1" "all_ok (ps_db s1)" "sys_status s1 = sys_status s" "ps_sent s1 = ps_sent s"
    using sys_get_result [OF assms(1-4), of st] by blast
  obtain s' where s': "send_all ps_live sys_update sys_call (sys_madd cfg) (map Some ?txs) s1 = Some s'" "sys_inv s'"
      "ps_sent s' = ps_sent s1 @ map tx_Encoded ?txs"
      "\<forall>i. i \<notin> tx_Id ` set ?txs \<longrightarrow> sys_status s' i = sys_status s1 i"
      "\<forall>i. i \<in> tx_Id ` set ?txs \<and> sys_status s1 i \<noteq> None \<longrightarrow>
           sys_status s' i = Some TxStatusSent \<or> sys_status s' i = Some TxStatusInvalid"
    using sys_send_all_result [OF s1(2,3), of cfg ?txs] by blast
  have "mset (q_order q (rows_with_status st (ps_db s))) = mset (rows_with_status st (ps_db s))"
    using assms(3) by (simp add: faithful_query_def)
  then have "mset ?txs = mset (map row_tx (rows_with_status st (ps_db s)))" by simp
  moreover have "(?txs = []) = (tx_Id ` set ?txs = {})" by simp
  then have "(?txs = []) = (st \<notin> ran (sys_status s))" unfolding ids by (auto simp: ran_def)
  moreover have "sys_status s' i = Some TxStatusSent \<or> sys_status s' i = Some TxStatusInvalid"
    if "sys_status s i = Some st" for i
    using s'(5) that unfolding ids s1(4) by auto
  moreover have "sys_status s' i = sys_status s i" if "sys_status s i \<noteq> Some st" for i
    using s'(4) that unfolding ids s1(4) by auto
  ultimately show ?thesis
    using s1(1,5) s'(1-3) by (intro exI [of _ s1] exI [of _ s'] exI [of _ ?txs]) simp
qed

subsection \<open>Properties\<close>

lemma sys_raw_tx_result:
  assumes "sys_inv s" "all_ok (ps_db s)" "db_seq (ps_db s) \<le> max_serial"
    and "hexToTx lib input = Some tx" "eth_MarshalJSON lib tx = Inr decoded"
    and "enc (new_l2tx lib now ips input decoded tx) = Some row"
    and "ps_answer s (ps_sent s) input = answer"
  shows "\<exists>i s'. sys_raw_tx cfg lib enc now ips input s =
      Some (case answer of None \<Rightarrow> Inr (eth_Hash lib tx)
            | Some e \<Rightarrow> Inl \<lparr>se_err = e, se_code = - 32000, se_data = None\<rparr>, s')
    \<and> sys_inv s' \<and> ps_sent s' = ps_sent s @ [input] \<and> sys_status s i = None
    \<and> sys_status s' = (sys_status s)(i \<mapsto> if answer = None then TxStatusSent else TxStatusInvalid)
    \<and> sys_watched s' = (if answer = None then insert i (sys_watched s) else sys_watched s)"
proof -
  let ?l2 = "new_l2tx lib now ips input decoded tx" and ?db = "ps_db s"
  let ?i = "of_nat (db_seq ?db) :: uint64"
  let ?now = "st_now (db_env ?db (db_tick ?db))"
  let ?row = "\<lparr>row_tx = row\<lparr>tx_Id := ?i\<rparr>, row_updated_at = ?now, row_error = None\<rparr>"
  let ?d = "?db\<lparr>db_tick := db_tick ?db + 1, db_rows := db_rows ?db @ [?row], db_seq := db_seq ?db + 1\<rparr>"
  have add: "AddL2Transaction enc ?l2 ?db = ((?i, None), ?d)"
    using assms(2,3,6) by (simp add: AddL2Transaction_def insert_row_def all_ok_def Let_def)
  let ?s1 = "set_db ?d s"
  have inv1: "sys_inv ?s1"
    using db_inv_Add [of ?db enc ?l2] add assms(1) by (simp add: sys_inv_def)
  have ok1: "all_ok (ps_db ?s1)" using assms(2) by (simp add: all_ok_def)
  have fresh: "sys_status s ?i = None"
    using insert_row_fresh [of ?db] assms(1,3) status_of_dom [of ?db] by (auto simp: sys_inv_def sys_status_def)
  have "status_of ?d = (status_of ?db)(?i \<mapsto> row_status ?row)"
  proof
    fix j
    have "find (\<lambda>r. row_id r = j) (rs @ [?row]) =
        (case find (\<lambda>r. row_id r = j) rs of None \<Rightarrow> (if row_id ?row = j then Some ?row else None) | Some r \<Rightarrow> Some r)" for rs
      by (induction rs) auto
    moreover have "row_id ?row = ?i" by (simp add: row_id_def)
    ultimately show "status_of ?d j = ((status_of ?db)(?i \<mapsto> row_status ?row)) j"
      using fresh by (auto simp: status_of_def sys_status_def split: option.splits)
  qed
  then have st1: "sys_status ?s1 = (sys_status s)(?i \<mapsto> row_status ?row)" by (simp add: sys_status_def)
  obtain s' where s': "sys_send cfg (Some (?l2\<lparr>tx_Id := ?i\<rparr>)) ?s1 = Some (answer, s')" "sys_inv s'"
      "ps_sent s' = ps_sent s @ [input]"
      "sys_watched s' = (if answer = None then insert ?i (sys_watched s) else sys_watched s)"
      "sys_status s' = set_status ?i (if answer = None then TxStatusSent else TxStatusInvalid) (sys_status ?s1)"
    using sys_send_result [OF inv1, of cfg "?l2\<lparr>tx_Id := ?i\<rparr>"] ok1 assms(7)
    by (auto simp: new_l2tx_def sys_watched_def)
  have "sys_raw_tx cfg lib enc now ips input s =
      Some (case answer of None \<Rightarrow> Inr (eth_Hash lib tx)
            | Some e \<Rightarrow> Inl \<lparr>se_err = e, se_code = - 32000, se_data = None\<rparr>, s')"
    using s'(1) add assms(4,5)
    by (simp add: sys_raw_tx_def SendRawTransaction_def sys_addtx_def Let_def
        go_errors split: option.split)
  moreover have "sys_status s' = (sys_status s)(?i \<mapsto> if answer = None then TxStatusSent else TxStatusInvalid)"
    unfolding s'(5) st1 by (rule ext) (simp add: set_status_def)
  ultimately show ?thesis using s' fresh by (intro exI [of _ ?i] exI [of _ s']) simp
qed

text \<open>
  A library whose transactions are the non-empty byte strings, and systems over an empty
  database that works, or whose statement number \<open>n\<close> fails.
\<close>

definition ex_lib :: "gobytes eth_lib" where
  "ex_lib = \<lparr>eth_UnmarshalBinary = (\<lambda>b. if b = [] then Inl (Some ''EOF'') else Inr b),
     eth_MarshalJSON = (\<lambda>tx. Inr ''{}''), eth_Hash = EncodeToHex, eth_GasPrice = (\<lambda>tx. 0),
     eth_Nonce = (\<lambda>tx. 0), eth_ChainId = (\<lambda>tx. 1), eth_EIP155Sender = (\<lambda>c tx. Inl (Some ''invalid sig'')),
     eth_AddressString = EncodeToHex\<rparr>"

definition fails_at :: "nat \<Rightarrow> nat \<Rightarrow> stmt_event" where
  "fails_at k n = \<lparr>st_now = clock 0, st_out = (if n = k then StFail ''connection refused'' else StOk)\<rparr>"

definition ex_sys :: "(nat \<Rightarrow> stmt_event) \<Rightarrow> pool_sys" where
  "ex_sys env = sys_new True (NewPoolDB env) (\<lambda>hist p. None) (\<lambda>n. clock 0)"

lemma ex_sys_inv: "sys_inv (ex_sys env)"
  using db_inv_new [of env] mon_ok_new(1) [of "NewPoolDB env"]
  by (simp add: sys_inv_def ex_sys_def sys_new_def ps_db_def NewMonitor_def)

lemma ex_sys_db: "ps_db (ex_sys env) = NewPoolDB env" "ps_sent (ex_sys env) = []"
    "ps_answer (ex_sys env) = (\<lambda>hist p. None)" "sys_watched (ex_sys env) = {}"
  using mon_ok_new(2) [of "NewPoolDB env"]
  by (simp_all add: ex_sys_def sys_new_def ps_db_def NewMonitor_def sys_watched_def)

lemma ex_hash: "eth_Hash ex_lib [1] = ''0x01''"
proof -
  have "hex_byte 1 = ''01''" by code_simp
  then show ?thesis by (simp add: ex_lib_def EncodeToHex_def hex_EncodeToString_def)
qed

lemma ex_hexToTx: "hexToTx ex_lib ''0x01'' = Some [1]"
proof -
  have "DecodeHex ''0x01'' = ([1], None)"
    by (simp add: DecodeHex_def TrimPrefix_def is_digit_def digit_val_def)
  then show ?thesis by (simp add: hexToTx_def ex_lib_def)
qed

text \<open>
  A parameter that is not hexadecimal is answered with code -32602 before anything else
  happens: no row, no call to the sequencer, no state change at all.
\<close>

lemma raw_tx_bad_input:
  assumes "\<not> IsValid input"
  shows "sys_raw_tx cfg lib enc now ips input s =
    Some (Inl \<lparr>se_err = ''invalid tx input'', se_code = - 32602, se_data = None\<rparr>, s)"
proof -
  have "snd (DecodeHex input) \<noteq> None"
    using assms by (simp add: IsValid_def is_hex_char_digit DecodeHex_status)
  then have "hexToTx lib input = None" by (auto simp: hexToTx_def split: prod.split option.split)
  then show ?thesis
    by (simp add: sys_raw_tx_def SendRawTransaction_def go_errors)
qed

lemma raw_tx_bad_input_example:
  "sys_raw_tx ex_cfg ex_lib Some (clock 0) [] ''0xzz'' (ex_sys calm) =
    Some (Inl \<lparr>se_err = ''invalid tx input'', se_code = - 32602, se_data = None\<rparr>, ex_sys calm)"
proof -
  have "\<not> IsValid ''0xzz''" by (simp add: IsValid_def is_hex_char_def)
  from raw_tx_bad_input [OF this] show ?thesis .
qed

text \<open>
  C39. In a good state, in which a worker of the sender has dialled, when the insertion into the
  database fails, the endpoint goes on: a transaction that the
  sequencer accepts is reported to the client as a success although the pool has no row of it;
  no status changes, and the monitor is given the identifier 0.
\<close>

theorem raw_tx_insert_failed:
  assumes "sys_inv s" "st_out (db_env (ps_db s) (db_tick (ps_db s))) = StFail e"
    and "hexToTx lib input = Some tx" "eth_MarshalJSON lib tx = Inr decoded"
    and "ps_answer s (ps_sent s) input = None"
  shows "\<exists>s'. sys_raw_tx cfg lib enc now ips input s = Some (Inr (eth_Hash lib tx), s')
    \<and> sys_status s' = sys_status s \<and> ps_sent s' = ps_sent s @ [input] \<and> 0 \<in> sys_watched s'"
proof -
  let ?l2 = "new_l2tx lib now ips input decoded tx" and ?db = "ps_db s"
  let ?d = "?db\<lparr>db_tick := db_tick ?db + 1\<rparr>"
  have add: "AddL2Transaction enc ?l2 ?db = ((0, Some e), ?d)"
    using assms(2) by (simp add: AddL2Transaction_def Let_def)
  let ?s1 = "set_db ?d s"
  have inv1: "sys_inv ?s1" using assms(1) by (simp add: sys_inv_def)
  have st1: "sys_status ?s1 = sys_status s" by (simp add: sys_status_def)
  have zero: "sys_status s 0 = None" using assms(1) by (simp add: sys_inv_def sys_status_def status_of_zero)
  obtain s' where s': "sys_send cfg (Some (?l2\<lparr>tx_Id := 0\<rparr>)) ?s1 = Some (None, s')"
      "ps_sent s' = ps_sent s @ [input]" "sys_watched s' = insert 0 (sys_watched s)"
    using sys_send_result [OF inv1, of cfg "?l2\<lparr>tx_Id := 0\<rparr>"] assms(5)
    by (auto simp: new_l2tx_def sys_watched_def)
  obtain err s2 where c: "sys_call (tx_Encoded (?l2\<lparr>tx_Id := 0\<rparr>)) ?s1 = (err, s2)" by fastforce
  have "sys_status s' = sys_status ?s1 \<or> (\<exists>x. sys_status s' = set_status 0 x (sys_status ?s1))"
    using pool_system.send_result [OF inv1 c, of cfg] s'(1) by (auto simp: sys_send_def)
  then have "sys_status s' = sys_status s" unfolding st1 using zero by (auto simp: set_status_def)
  moreover have "sys_raw_tx cfg lib enc now ips input s = Some (Inr (eth_Hash lib tx), s')"
    using s'(1) add assms(3,4)
    by (simp add: sys_raw_tx_def SendRawTransaction_def sys_addtx_def Let_def new_l2tx_def)
  ultimately show ?thesis using s' by (intro exI [of _ s']) simp
qed

theorem raw_tx_insert_failed_witness:
  "\<exists>s'. sys_raw_tx ex_cfg ex_lib Some (clock 0) [] ''0x01'' (ex_sys (fails_at 0)) = Some (Inr ''0x01'', s')
     \<and> sys_status s' = Map.empty \<and> 0 \<in> sys_watched s'"
proof -
  have e: "st_out (db_env (ps_db (ex_sys (fails_at 0))) (db_tick (ps_db (ex_sys (fails_at 0))))) =
      StFail ''connection refused''"
    by (simp add: ex_sys_db NewPoolDB_def fails_at_def)
  have j: "eth_MarshalJSON ex_lib [1] = Inr ''{}''" by (simp add: ex_lib_def)
  have a: "ps_answer (ex_sys (fails_at 0)) (ps_sent (ex_sys (fails_at 0))) ''0x01'' = None" by (simp add: ex_sys_db)
  have "sys_status (ex_sys (fails_at 0)) = Map.empty"
    by (rule ext) (simp add: sys_status_def ex_sys_db NewPoolDB_def status_of_def)
  with raw_tx_insert_failed [OF ex_sys_inv e ex_hexToTx j a, of ex_cfg Some "clock 0" "[]"] ex_hash
  show ?thesis by auto
qed

lemma get_eta:
  "GetL2TransactionsToResend q = GetL2TransactionsByStatus q TxStatusResend"
  "GetL2TransactionsToSend q = GetL2TransactionsByStatus q TxStatusPending"
  by (simp_all add: fun_eq_iff GetL2TransactionsToResend_def GetL2TransactionsToSend_def)

text \<open>
  C38. In a good state, in which a worker of the sender has dialled, and with nothing else going on,
  one pass of the resend loop over a database that works: every transaction marked resend
  is sent to the sequencer exactly once and ends as sent or invalid, no other transaction is
  touched, and the loop sleeps exactly when there was nothing to resend.
\<close>

theorem resend_pass:
  assumes "sys_inv s" "all_ok (ps_db s)" "faithful_query q" "q_cut q = None"
  shows "\<exists>txs s'. sys_resend cfg noRows q s = Some (TxStatusResend \<notin> ran (sys_status s), s') \<and> sys_inv s'
    \<and> mset txs = mset (map row_tx (rows_with_status TxStatusResend (ps_db s)))
    \<and> ps_sent s' = ps_sent s @ map tx_Encoded txs
    \<and> (\<forall>i. sys_status s i \<noteq> Some TxStatusResend \<longrightarrow> sys_status s' i = sys_status s i)
    \<and> ran (sys_status s') \<subseteq> ran (sys_status s) - {TxStatusResend} \<union> {TxStatusSent, TxStatusInvalid}"
proof -
  have ne: "TxStatusResend \<noteq> TxStatusSent" "TxStatusResend \<noteq> TxStatusInvalid"
    by (simp_all add: TxStatus_defs)
  obtain s1 s' txs where d: "sys_get (GetL2TransactionsByStatus q TxStatusResend) s = (Inr (map Some txs), s1)"
      "send_all ps_live sys_update sys_call (sys_madd cfg) (map Some txs) s1 = Some s'" "sys_inv s'"
      "txs = [] \<longleftrightarrow> TxStatusResend \<notin> ran (sys_status s)"
      "mset txs = mset (map row_tx (rows_with_status TxStatusResend (ps_db s)))"
      "ps_sent s' = ps_sent s @ map tx_Encoded txs"
      "\<forall>i. sys_status s i = Some TxStatusResend \<longrightarrow>
          sys_status s' i = Some TxStatusSent \<or> sys_status s' i = Some TxStatusInvalid"
      "\<forall>i. sys_status s i \<noteq> Some TxStatusResend \<longrightarrow> sys_status s' i = sys_status s i"
    using sys_drain [OF assms ne, of cfg] by blast
  have "sys_resend cfg noRows q s = Some (txs = [], s')"
    using d(1,2) by (simp add: sys_resend_def checkL2TransactionsToResend_def get_eta Let_def)
  moreover have "ran (sys_status s') \<subseteq> ran (sys_status s) - {TxStatusResend} \<union> {TxStatusSent, TxStatusInvalid}"
  proof
    fix x assume "x \<in> ran (sys_status s')"
    then obtain i where i: "sys_status s' i = Some x" by (auto simp: ran_def)
    then show "x \<in> ran (sys_status s) - {TxStatusResend} \<union> {TxStatusSent, TxStatusInvalid}"
      using d(7,8) by (cases "sys_status s i = Some TxStatusResend") (auto simp: ran_def)
  qed
  ultimately show ?thesis using d(3-6,8) by (intro exI [of _ txs] exI [of _ s']) simp
qed

text \<open>A system with one transaction to be sent again, as row 1.\<close>

definition ex_resend :: "(nat \<Rightarrow> stmt_event) \<Rightarrow> pool_sys" where
  "ex_resend env = set_db ((NewPoolDB env)\<lparr>db_rows := [\<lparr>row_tx = ex_tx\<lparr>tx_Id := 1, tx_Status := TxStatusResend\<rparr>,
     row_updated_at = clock 0, row_error = None\<rparr>], db_seq := 2\<rparr>) (ex_sys env)"

lemma ex_resend_inv: "sys_inv (ex_resend env)"
  using ex_sys_inv [of env]
  by (simp add: sys_inv_def ex_resend_def db_inv_def NewPoolDB_def row_id_def max_serial_def)

lemma ex_resend_status: "sys_status (ex_resend env) = [1 \<mapsto> TxStatusResend]"
  by (rule ext) (simp add: sys_status_def ex_resend_def status_of_def row_id_def row_status_def)

theorem resend_pass_witness:
  "\<exists>s'. sys_resend ex_cfg ''no rows'' (in_order_query None) (ex_resend calm) = Some (False, s')
     \<and> ps_sent s' = [''0x01''] \<and> TxStatusResend \<notin> ran (sys_status s')"
proof -
  have ok: "all_ok (ps_db (ex_resend calm))"
    by (simp add: all_ok_def ex_resend_def NewPoolDB_def calm_def)
  have c: "q_cut (in_order_query None) = None" by (simp add: in_order_query_def)
  have rows: "map row_tx (rows_with_status TxStatusResend (ps_db (ex_resend calm))) =
      [ex_tx\<lparr>tx_Id := 1, tx_Status := TxStatusResend\<rparr>]"
    by (simp add: rows_with_status_def ex_resend_def row_status_def)
  obtain txs s' where r: "sys_resend ex_cfg ''no rows'' (in_order_query None) (ex_resend calm) =
        Some (TxStatusResend \<notin> ran (sys_status (ex_resend calm)), s')"
      "mset txs = mset [ex_tx\<lparr>tx_Id := 1, tx_Status := TxStatusResend\<rparr>]"
      "ps_sent s' = ps_sent (ex_resend calm) @ map tx_Encoded txs"
      "ran (sys_status s') \<subseteq> ran (sys_status (ex_resend calm)) - {TxStatusResend} \<union> {TxStatusSent, TxStatusInvalid}"
    using resend_pass [OF ex_resend_inv ok faithful_in_order c] unfolding rows by blast
  have "txs = [ex_tx\<lparr>tx_Id := 1, tx_Status := TxStatusResend\<rparr>]" using r(2) by simp
  then have "ps_sent s' = [''0x01'']" using r(3) by (simp add: ex_resend_def ex_sys_db ex_tx_def)
  moreover have "TxStatusResend \<notin> ran (sys_status s')" using r(4) by (auto simp: TxStatus_defs)
  ultimately show ?thesis using r(1) by (auto simp: ex_resend_status)
qed

text \<open>
  C27. At its start the sender takes up every pending transaction: in a good state, in which a worker
  has dialled, over a database that works and with nothing else going on, each is sent to the
  sequencer exactly once and ends as sent or invalid, and no other row is touched.
\<close>

theorem startup_sends_pending:
  assumes "sys_inv s" "all_ok (ps_db s)" "faithful_query q" "q_cut q = None"
  shows "\<exists>txs s'. sys_start_sender cfg q s = Some s' \<and> sys_inv s'
    \<and> mset txs = mset (map row_tx (rows_with_status TxStatusPending (ps_db s)))
    \<and> ps_sent s' = ps_sent s @ map tx_Encoded txs
    \<and> (\<forall>i. sys_status s i = Some TxStatusPending \<longrightarrow>
          sys_status s' i = Some TxStatusSent \<or> sys_status s' i = Some TxStatusInvalid)
    \<and> (\<forall>i. sys_status s i \<noteq> Some TxStatusPending \<longrightarrow> sys_status s' i = sys_status s i)"
proof -
  have ne: "TxStatusPending \<noteq> TxStatusSent" "TxStatusPending \<noteq> TxStatusInvalid"
    by (simp_all add: TxStatus_defs)
  obtain s1 s' txs where d: "sys_get (GetL2TransactionsByStatus q TxStatusPending) s = (Inr (map Some txs), s1)"
      "send_all ps_live sys_update sys_call (sys_madd cfg) (map Some txs) s1 = Some s'" "sys_inv s'"
      "mset txs = mset (map row_tx (rows_with_status TxStatusPending (ps_db s)))"
      "ps_sent s' = ps_sent s @ map tx_Encoded txs"
      "\<forall>i. sys_status s i = Some TxStatusPending \<longrightarrow>
          sys_status s' i = Some TxStatusSent \<or> sys_status s' i = Some TxStatusInvalid"
      "\<forall>i. sys_status s i \<noteq> Some TxStatusPending \<longrightarrow> sys_status s' i = sys_status s i"
    using sys_drain [OF assms ne, of cfg] by blast
  have "sys_start_sender cfg q s = Some s'"
    using d(1,2) by (simp add: sys_start_sender_def sendL2TransactionsFromPoolDB_def get_eta)
  then show ?thesis using d(3-7) by (intro exI [of _ txs] exI [of _ s']) simp
qed

text \<open>A system with a pending transaction as row 1.\<close>

definition ex_pending :: pool_sys where
  "ex_pending = set_db ((NewPoolDB calm)\<lparr>db_rows := [\<lparr>row_tx = ex_tx\<lparr>tx_Id := 1, tx_Status := TxStatusPending\<rparr>,
     row_updated_at = clock 0, row_error = None\<rparr>], db_seq := 2\<rparr>) (ex_sys calm)"

theorem startup_sends_pending_witness:
  "\<exists>s'. sys_start_sender ex_cfg (in_order_query None) ex_pending = Some s' \<and> ps_sent s' = [''0x01'']
     \<and> (sys_status s' 1 = Some TxStatusSent \<or> sys_status s' 1 = Some TxStatusInvalid)"
proof -
  have inv: "sys_inv ex_pending"
    using ex_sys_inv [of calm]
    by (simp add: sys_inv_def ex_pending_def db_inv_def NewPoolDB_def row_id_def max_serial_def)
  have ok: "all_ok (ps_db ex_pending)" by (simp add: all_ok_def ex_pending_def NewPoolDB_def calm_def)
  have c: "q_cut (in_order_query None) = None" by (simp add: in_order_query_def)
  have rows: "map row_tx (rows_with_status TxStatusPending (ps_db ex_pending)) =
      [ex_tx\<lparr>tx_Id := 1, tx_Status := TxStatusPending\<rparr>]"
    by (simp add: rows_with_status_def ex_pending_def row_status_def)
  obtain txs s' where r: "sys_start_sender ex_cfg (in_order_query None) ex_pending = Some s'"
      "mset txs = mset [ex_tx\<lparr>tx_Id := 1, tx_Status := TxStatusPending\<rparr>]"
      "ps_sent s' = ps_sent ex_pending @ map tx_Encoded txs"
      "sys_status ex_pending 1 = Some TxStatusPending \<longrightarrow>
         sys_status s' 1 = Some TxStatusSent \<or> sys_status s' 1 = Some TxStatusInvalid"
    using startup_sends_pending [OF inv ok faithful_in_order c, of ex_cfg] unfolding rows by blast
  have "txs = [ex_tx\<lparr>tx_Id := 1, tx_Status := TxStatusPending\<rparr>]" using r(2) by simp
  then have "ps_sent s' = [''0x01'']" using r(3) by (simp add: ex_pending_def ex_sys_db ex_tx_def)
  moreover have "sys_status ex_pending 1 = Some TxStatusPending"
    by (simp add: sys_status_def ex_pending_def status_of_def row_id_def row_status_def)
  ultimately show ?thesis using r(1,4) by blast
qed

text \<open>
  When the status update of an accepted transaction fails, the sender does not notice:
  the transaction is given to the monitor, keeps the status resend, and the next pass sends
  the same payload to the sequencer again.
\<close>

lemma resend_repeats:
  "map_option (\<lambda>(b, s). (ps_sent s, sys_status s 1))
     (do { (b, s) \<leftarrow> sys_resend ex_cfg ''no rows'' (in_order_query None) (ex_resend (fails_at 1));
           sys_resend ex_cfg ''no rows'' (in_order_query None) s })
   = Some ([''0x01'', ''0x01''], Some TxStatusSent)"
  by (simp add: sys_resend_def checkL2TransactionsToResend_def sys_get_def GetL2TransactionsToResend_def
      GetL2TransactionsByStatus_def ex_resend_def ex_sys_def sys_new_def set_db_def ps_db_def NewMonitor_def
      NewPoolDB_def fails_at_def in_order_query_def row_status_def SendL2Transaction_def
      enqueue_and_wait_def senderWorkerProcessRequest_def sys_call_def sys_update_def UpdateL2TransactionStatus_def
      sys_madd_def monitorAddL2Transaction_def ex_cfg_def new_request_def enqueueMonitorRequest_def
      update_rows_def update_row_def row_id_def ex_tx_def mk_tx_def sys_status_def status_of_def TxStatus_defs)

end
