(* ===== verification/PipelineTable.thy ===== *)
theory PipelineTable
  imports PipelineSettle PoolSystem
begin

section \<open>The table when the work is done\<close>

text \<open>
  With a database whose statements succeed, every row is accounted for: a pending row is with a
  caller that sends it, a sent row with a caller that hands it over or with the monitor. So when
  the work that is left has been done, and it can always be done, no row is pending, and the sent
  rows are the ones in the retry list.
\<close>

subsection \<open>Who has a row\<close>

fun caller_sends :: "pl_caller \<Rightarrow> uint64 set" where
  "caller_sends (Todo ws) = {tx_Id tx |tx. SendTx (Some tx) \<in> set ws}"
| "caller_sends (Waiting tx ws) = insert (tx_Id tx) {tx_Id tx |tx. SendTx (Some tx) \<in> set ws}"
| "caller_sends (Updating tx err ws) = insert (tx_Id tx) {tx_Id tx |tx. SendTx (Some tx) \<in> set ws}"

definition to_send :: "pipeline \<Rightarrow> uint64 set" where
  "to_send s = (\<Union>c\<in>set (pl_callers s). caller_sends c)"

definition inv_table :: "pipeline \<Rightarrow> bool" where
  "inv_table s \<longleftrightarrow> all_ok (pl_db s)
     \<and> (\<forall>i. status_of (pl_db s) i = Some TxStatusPending \<longrightarrow> i \<in> to_send s)
     \<and> (\<forall>i. status_of (pl_db s) i = Some TxStatusSent \<longrightarrow> i \<in> kept_ids s)
     \<and> (\<forall>(i, st, err)\<in>set (ms_log (pl_mon s)). err = None)"

text \<open>An orderly start over such a database, with queries whose streams do not break.\<close>

definition booted_whole :: "pl_env \<Rightarrow> pipeline \<Rightarrow> bool" where
  "booted_whole e s \<longleftrightarrow> (\<exists>n db q1 q2. db_inv db \<and> unmarked db \<and> keeps_status e \<and> all_ok db
     \<and> faithful_query q1 \<and> faithful_query q2 \<and> q_cut q1 = None \<and> q_cut q2 = None
     \<and> pl_run e (boot_queries q1 q2) (pl_init e n db) = Some s)"

lemma booted_whole_booted: "booted_whole e s \<Longrightarrow> booted e s"
  unfolding booted_whole_def booted_def by blast

subsection \<open>The database's environment\<close>

lemma insert_env:
  "PoolDB.AddL2Transaction enc tx db = (r, d) \<Longrightarrow> all_ok d = all_ok db"
  by (auto simp: PoolDB.AddL2Transaction_def insert_row_def all_ok_def Let_def
      split: stmt_outcome.splits if_splits option.splits prod.splits sum.splits)

lemma query_env: "run_query k q db = (res, d) \<Longrightarrow> all_ok d = all_ok db"
  by (auto simp: run_query_status GetL2TransactionsByStatus_def all_ok_def Let_def split: stmt_outcome.splits)

lemma update_all_ok:
  assumes "all_ok db" and "UpdateL2TransactionStatus i st msg db = (err, d)"
  shows "all_ok d" "err = None"
  using assms update_env [of i st msg db] by (auto simp: all_ok_def UpdateL2TransactionStatus_def Let_def)

text \<open>A query that runs to its end gives every transaction of the status.\<close>

lemma query_whole:
  assumes "db_inv db" and "all_ok db" and "faithful_query q" and "q_cut q = None" and "run_query k q db = (res, d)"
  obtains txs where "(case res of Inl err \<Rightarrow> [] | Inr txs \<Rightarrow> map (query_work k) txs) = map (query_work k \<circ> Some) txs"
    "\<And>i. status_of db i = Some (query_status k) \<Longrightarrow> i \<in> tx_Id ` set txs"
proof -
  let ?txs = "map row_tx (q_order q (rows_with_status (query_status k) db))"
  have "st_out (db_env db (db_tick db)) = StOk" using assms(2) by (simp add: all_ok_def)
  from query_result [OF assms(3) this, of "query_status k"] have "res = Inr (map (Some \<circ> row_tx) (q_order q (rows_with_status (query_status k) db)))"
    using assms(4,5) by (simp add: run_query_status)
  then show ?thesis
    using rows_of_status [OF assms(1,3), of "query_status k"] by (intro that [of ?txs]) (auto simp: comp_def)
qed

subsection \<open>Every action keeps account\<close>

lemma sends_put:
  assumes "caller_at e s t = Some b" and "pl_callers s' = (pl_callers s)[t := c]"
  shows "to_send s \<subseteq> to_send s' \<union> (caller_sends b - caller_sends c)" "caller_sends c \<subseteq> to_send s'"
proof -
  note t = caller_atD [OF assms(1)]
  then have c: "c \<in> set (pl_callers s')" using assms(2) by (simp add: set_update_memI)
  then show "caller_sends c \<subseteq> to_send s'" by (auto simp: to_send_def)
  show "to_send s \<subseteq> to_send s' \<union> (caller_sends b - caller_sends c)"
  proof
    fix i assume "i \<in> to_send s"
    then obtain u where u: "u < length (pl_callers s)" "i \<in> caller_sends (pl_callers s ! u)"
      by (auto simp: to_send_def in_set_conv_nth)
    show "i \<in> to_send s' \<union> (caller_sends b - caller_sends c)"
    proof (cases "u = t")
      case True
      then show ?thesis using u(2) t \<open>caller_sends c \<subseteq> to_send s'\<close> by auto
    next
      case False
      have "pl_callers s' ! u \<in> set (pl_callers s')" using u(1) by (intro nth_mem) (simp add: assms(2))
      moreover have "i \<in> caller_sends (pl_callers s' ! u)" using u False by (simp add: assms(2))
      ultimately show ?thesis by (auto simp: to_send_def)
    qed
  qed
qed

text \<open>An action that leaves the statuses alone.\<close>

lemma table_same:
  assumes "inv_table s" and act: "pl_act e a s = Some (Some s')"
    and "all_ok (pl_db s')" and "status_of (pl_db s') = status_of (pl_db s)"
    and "to_send s \<subseteq> to_send s'" and "ms_log (pl_mon s') = ms_log (pl_mon s)"
  shows "inv_table s'"
  using assms kept_act [OF act] by (auto simp: inv_table_def)

lemma inv_table_act:
  assumes table: "inv_table s" and inv: "inv_fresh s" and mon: "mon_reach (pe_monitor e) FreshIds (pl_mon s)"
    and enc: "keeps_status e" and ok: "orderly e s a" and act: "pl_act e a s = Some (Some s')"
  shows "inv_table s'"
proof -
  let ?st = "status_of (pl_db s)"
  have db: "db_inv (pl_db s)" "unmarked (pl_db s)" using inv by (auto simp: inv_fresh_def)
  have all: "all_ok (pl_db s)" and pend: "\<And>i. ?st i = Some TxStatusPending \<Longrightarrow> i \<in> to_send s"
    and sent: "\<And>i. ?st i = Some TxStatusSent \<Longrightarrow> i \<in> kept_ids s'"
    using table kept_act [OF act] by (auto simp: inv_table_def)
  from act show ?thesis
  proof (cases rule: pl_act_cases)
    case (insert t tx i err d)
    have "err = None" using ok insert(1,3) by (simp add: orderly_def)
    with status_of_insert [OF db(1)] insert(3) obtain tx' where new: "pe_enc e (endpoint_tx tx) = Some tx'"
        "status_of d = ?st(i \<mapsto> tx_Status tx')" by blast
    have st: "tx_Status tx' = TxStatusPending" using enc new(1) by (auto simp: keeps_status_def endpoint_tx_def)
    have "to_send s \<subseteq> to_send s' \<and> i \<in> to_send s'" using sends_put [OF insert(2), of s' "Todo [SendTx (Some ((endpoint_tx tx)\<lparr>tx_Id := i\<rparr>))]"]
      by (auto simp: insert(4))
    then show ?thesis using table pend sent log_same [OF act] insert(1) insert_env [OF insert(3)]
      by (auto simp: inv_table_def insert(4) new(2) st TxStatus_defs split: if_splits)
  next
    case (query t k q res d)
    have k: "k = ToResend" "faithful_query q" using ok query(1) by (auto simp: orderly_def)
    note r = empty_resend [OF db(2,1) k(2) query(3) [unfolded k(1)]]
    have s': "s' = put_caller t (Todo []) (s\<lparr>pl_db := d\<rparr>)" using query(4) by (simp only: k(1) r(1))
    show ?thesis
      by (rule table_same [OF table act])
        (use sends_put [OF query(2), of s' "Todo []"] query_env [OF query(3)] all r in \<open>simp_all add: s'\<close>)
  next
    case (send t tx ws q)
    show ?thesis
      by (rule table_same [OF table act]) (use sends_put [OF send(2), of s' "Waiting tx ws"] all in \<open>auto simp: send(4)\<close>)
  next
    case (return t tx ws q)
    show ?thesis
      by (rule table_same [OF table act]) (use sends_put [OF return(2), of s' "Updating tx (snd (last (sq_results q))) ws"] all in \<open>auto simp: return(4)\<close>)
  next
    case (update t tx err ws res d st msg)
    note u = status_of_update(1,4) [OF update(4)] and r = update_all_ok [OF all update(4)]
    have now: "status_of d (tx_Id tx) = map_option (\<lambda>_. st) (?st (tx_Id tx))" using u(2) r(2) by simp
    have st: "status_of d (tx_Id tx) \<noteq> Some TxStatusPending" "status_of d (tx_Id tx) = Some TxStatusSent \<Longrightarrow> err = None"
      unfolding now update(3) by (cases err; auto simp: TxStatus_defs)+
    have others: "to_send s \<subseteq> insert (tx_Id tx) (to_send s')"
      using sends_put(1) [OF update(2), of s' "Todo (if err \<noteq> None then ws else HandTx (Some tx) # ws)"]
      by (auto simp: update(5) split: if_splits)
    have own: "tx_Id tx \<in> kept_ids s'" if "err = None"
    proof -
      have "Todo (HandTx (Some tx) # ws) \<in> set (pl_callers s')"
        using that caller_atD [OF update(2)] by (simp add: update(5) set_update_memI)
      then show ?thesis by (force simp: kept_ids_def to_hand_def)
    qed
    have "i \<in> to_send s'" if i: "status_of d i = Some TxStatusPending" for i
    proof -
      have "i \<noteq> tx_Id tx" using i st(1) by blast
      then show ?thesis using pend [of i] u(1) [of i] i others by auto
    qed
    moreover have "i \<in> kept_ids s'" if i: "status_of d i = Some TxStatusSent" for i
    proof (cases "i = tx_Id tx")
      case True
      then show ?thesis using own st(2) i by simp
    next
      case False
      then show ?thesis using sent [of i] u(1) [of i] i by simp
    qed
    ultimately show ?thesis using table log_same [OF act] update(1) r(1) by (auto simp: inv_table_def update(5))
  next
    case (hand t now tx ws m)
    show ?thesis
      by (rule table_same [OF table act])
        (use sends_put [OF hand(2), of s' "Todo ws"] all log_same [OF act] hand(1) in \<open>auto simp: hand(4)\<close>)
  next
    case (queue b q)
    show ?thesis by (rule table_same [OF table act]) (use all in \<open>auto simp: queue(4) to_send_def\<close>)
  next
    case (monitor b err d m)
    have log: "ms_log m = ms_log (pl_mon s) @ (case mon_effect b (pl_mon s) of None \<Rightarrow> [] | Some (i, st) \<Rightarrow> [(i, st, err)])"
      by (rule mon_effect_log [OF monitor(4,2)])
    show ?thesis
    proof (cases "mon_effect b (pl_mon s)")
      case None
      then have "d = pl_db s" using monitor(3) by (simp add: mon_answer_def)
      then show ?thesis
        by (intro table_same [OF table act]) (use all log None in \<open>simp_all add: monitor(5) to_send_def\<close>)
    next
      case (Some x)
      then obtain i st where x: "mon_effect b (pl_mon s) = Some (i, st)" by (cases x) auto
      note live = mon_effect_live [OF mon x]
      have upd: "UpdateL2TransactionStatus i st [] (pl_db s) = (err, d)" using monitor(3) x by (simp add: mon_answer_def)
      note u = status_of_update(1,4) [OF upd] and r = update_all_ok [OF all upd]
      have "status_of d i \<noteq> Some TxStatusPending \<and> status_of d i \<noteq> Some TxStatusSent"
        using u(2) r(2) live(3) by (auto simp: TxStatus_defs)
      then have old: "?st j = status_of d j" if "status_of d j \<in> {Some TxStatusPending, Some TxStatusSent}" for j
        using that u(1) by (cases "j = i") auto
      have "j \<in> to_send s'" if "status_of d j = Some TxStatusPending" for j
        using pend [of j] old [of j] that by (simp add: monitor(5) to_send_def)
      moreover have "j \<in> kept_ids s'" if "status_of d j = Some TxStatusSent" for j
        using sent [of j] old [of j] that by simp
      ultimately show ?thesis using table r by (auto simp: inv_table_def monitor(5) log x)
    qed
  qed
qed

lemma booted_table:
  assumes "booted_whole e s"
  shows "inv_table s"
proof -
  obtain n db q1 q2 where b: "db_inv db" "unmarked db" "all_ok db" "faithful_query q1" "faithful_query q2"
      "q_cut q1 = None" "q_cut q2 = None" "pl_run e (boot_queries q1 q2) (pl_init e n db) = Some s"
    using assms by (auto simp: booted_whole_def)
  obtain s1 where s1: "pl_act e (PlQuery 0 ToMonitor q1) (pl_init e n db) = Some (Some s1)"
      "pl_act e (PlQuery 1 ToSend q2) s1 = Some (Some s)"
    using b(8) by (auto simp del: pl_act.simps simp: boot_queries_def split: option.splits)
  from s1(1) obtain res1 d1 where r1: "run_query ToMonitor q1 db = (res1, d1)"
      "s1 = put_caller 0 (Todo (case res1 of Inl err \<Rightarrow> [] | Inr txs \<Rightarrow> map (query_work ToMonitor) txs))
        ((pl_init e n db)\<lparr>pl_db := d1\<rparr>)"
    by (cases rule: pl_act_cases) simp_all
  obtain m where m: "(case res1 of Inl err \<Rightarrow> [] | Inr txs \<Rightarrow> map (query_work ToMonitor) txs) = map (query_work ToMonitor \<circ> Some) m"
      "\<And>i. status_of db i = Some TxStatusSent \<Longrightarrow> i \<in> tx_Id ` set m"
    using query_whole [OF b(1,3,4,6) r1(1)] by (metis query_status_def pl_query.simps(9))
  have d1: "status_of d1 = status_of db" "db_inv d1" "all_ok d1"
    using query_works [OF b(1,4) r1(1)] query_env [OF r1(1)] b(3) by auto
  from s1(2) obtain res2 d2 where r2: "caller_at e s1 1 = Some (Todo [])" "run_query ToSend q2 d1 = (res2, d2)"
      "s = put_caller 1 (Todo (case res2 of Inl err \<Rightarrow> [] | Inr txs \<Rightarrow> map (query_work ToSend) txs)) (s1\<lparr>pl_db := d2\<rparr>)"
    by (cases rule: pl_act_cases) (simp_all add: r1(2))
  obtain w where w: "(case res2 of Inl err \<Rightarrow> [] | Inr txs \<Rightarrow> map (query_work ToSend) txs) = map (query_work ToSend \<circ> Some) w"
      "\<And>i. status_of d1 i = Some TxStatusPending \<Longrightarrow> i \<in> tx_Id ` set w"
    using query_whole [OF d1(2,3) b(5,7) r2(2)] by (metis query_status_def pl_query.simps(7))
  have d2: "status_of d2 = status_of db" "all_ok d2"
    using query_works [OF d1(2) b(5) r2(2)] query_env [OF r2(2)] d1 by auto
  have "1 < n" using caller_atD [OF r2(1)] by (simp add: r1(2))
  then obtain k where k: "n = Suc (Suc k)" by (metis Suc_lessE gr0_implies_Suc One_nat_def)
  have cs: "pl_callers s = Todo (map (query_work ToMonitor \<circ> Some) m) # Todo (map (query_work ToSend \<circ> Some) w) # replicate k (Todo [])"
    by (simp add: r2(3) r1(2) k m(1) w(1))
  have "i \<in> to_send s" if "status_of db i = Some TxStatusPending" for i
    using w(2) [of i] that d1(1) by (force simp: to_send_def cs query_work_def)
  moreover have "i \<in> kept_ids s" if "status_of db i = Some TxStatusSent" for i
    using m(2) [OF that] by (force simp: kept_ids_def to_hand_def cs query_work_def)
  moreover have "pl_db s = d2" "ms_log (pl_mon s) = []" using booted_state(5) [OF booted_whole_booted [OF assms]] by (simp_all add: r2(3))
  ultimately show ?thesis using d2 by (simp add: inv_table_def)
qed

lemma table_reach:
  assumes "booted_whole e s0" and "pl_reach e (orderly e) s0 s"
  shows "inv_table s"
  using assms(2)
proof (induction rule: pl_reach.induct)
  case start
  show ?case by (rule booted_table [OF assms(1)])
next
  case (step s a s')
  note boot = booted_whole_booted [OF assms(1)]
  note here = orderly_reach [OF boot step.hyps(1)]
  show ?case by (rule inv_table_act [OF step.IH here(1,2) booted_state(4) [OF boot] step.hyps(2,3)])
qed

subsection \<open>Workers that have dialled\<close>

definition sender_live :: "pipeline \<Rightarrow> bool" where
  "sender_live s \<longleftrightarrow> (\<exists>c\<in>set (sq_workers (pl_q s)). c \<noteq> WStart \<and> c \<noteq> WDead)"

definition monitor_live :: "pl_env \<Rightarrow> pipeline \<Rightarrow> bool" where
  "monitor_live e s \<longleftrightarrow> (\<exists>t c. is_worker (pe_monitor e) t \<and> pc_of (pl_mon s) t = Some c \<and> running c)"

definition worker_moves :: "sendq \<Rightarrow> sendq \<Rightarrow> bool" where
  "worker_moves q q' \<longleftrightarrow> sq_workers q' = sq_workers q \<or>
    (\<exists>w b d. sq_workers q' = (sq_workers q)[w := d] \<and> index_at (sq_workers q) w = Some b
      \<and> (b \<noteq> WStart \<longrightarrow> d \<noteq> WStart \<and> d \<noteq> WDead))"

lemma worker_movesI:
  "sq_workers q' = (sq_workers q)[w := d] \<Longrightarrow> index_at (sq_workers q) w = Some b \<Longrightarrow>
   (b \<noteq> WStart \<longrightarrow> d \<noteq> WStart \<and> d \<noteq> WDead) \<Longrightarrow> worker_moves q q'"
  by (auto simp: worker_moves_def)

lemma sq_act_workers:
  assumes "sq_act cfg a q = Some (Some q')"
  shows "worker_moves q q'"
proof (cases "\<exists>t tx. a = SqSend t tx \<or> a = SqReturn t \<or> a = SqDeliver t")
  case True
  then have "sq_workers q' = sq_workers q" using assms
    by (auto simp: sq_act.simps set_caller_def Let_def split: if_splits option.splits caller_pc.splits)
  then show ?thesis by (simp add: worker_moves_def)
next
  case False
  then show ?thesis using assms
    by (cases a) (auto simp: sq_act.simps set_worker_def intro: worker_movesI
        split: if_splits list.splits option.splits worker_pc.splits)
qed

lemma worker_stays:
  assumes "sq_act cfg a q = Some (Some q')" and "c \<in> set (sq_workers q)" "c \<noteq> WStart" "c \<noteq> WDead"
  shows "\<exists>c\<in>set (sq_workers q'). c \<noteq> WStart \<and> c \<noteq> WDead"
proof -
  obtain v where v: "v < length (sq_workers q)" "sq_workers q ! v = c" using assms(2) by (auto simp: in_set_conv_nth)
  from sq_act_workers [OF assms(1)] show ?thesis
    unfolding worker_moves_def
  proof (elim disjE exE conjE)
    fix w b d assume w: "sq_workers q' = (sq_workers q)[w := d]" "index_at (sq_workers q) w = Some b"
      "b \<noteq> WStart \<longrightarrow> d \<noteq> WStart \<and> d \<noteq> WDead"
    have "sq_workers q' ! v \<noteq> WStart \<and> sq_workers q' ! v \<noteq> WDead"
      using w v assms(3,4) index_atD [OF w(2)] by (cases "v = w") auto
    moreover have "v < length (sq_workers q')" using v(1) by (simp add: w(1))
    then have "sq_workers q' ! v \<in> set (sq_workers q')" by (rule nth_mem)
    ultimately show ?thesis by blast
  qed (use assms in auto)
qed

lemma sender_live_act:
  assumes "pl_act e a s = Some (Some s')" and "sender_live s"
  shows "sender_live s'"
  using pl_act_queue [OF assms(1)] worker_stays assms(2) unfolding sender_live_def by metis

lemma monitor_live_act:
  assumes "pl_act e a s = Some (Some s')" and "monitor_live e s"
  shows "monitor_live e s'"
proof -
  obtain t c where t: "is_worker (pe_monitor e) t" "pc_of (pl_mon s) t = Some c" "running c"
    using assms(2) by (auto simp: monitor_live_def)
  from pl_act_mon [OF assms(1)] show ?thesis
  proof (elim disjE exE)
    fix b assume "mon_act (pe_monitor e) b (pl_mon s) = Some (Some (pl_mon s'))"
    from mon_act_threads [OF this] have "\<exists>d. pc_of (pl_mon s') t = Some d \<and> running d"
      unfolding thread_moves_def
    proof (elim disjE exE conjE)
      fix u d assume u: "ms_threads (pl_mon s') = (ms_threads (pl_mon s))[u := d]" "running d"
      then show ?thesis using t by (cases "u = t") (auto simp: pc_of_def index_at_def split: if_splits)
    next
      fix u d assume u: "ms_threads (pl_mon s') = (ms_threads (pl_mon s))[u := d]" "pc_of (pl_mon s) u = Some PcStart"
      then have "u \<noteq> t" using t by auto
      then show ?thesis using t u(1) by (auto simp: pc_of_def index_at_def split: if_splits)
    qed (use t in \<open>auto simp: pc_of_def\<close>)
    then show ?thesis using t(1) by (auto simp: monitor_live_def)
  qed (use assms(2) in \<open>simp add: monitor_live_def\<close>)
qed

lemma live_run:
  "pl_run e xs s = Some s' \<Longrightarrow> sender_live s \<and> monitor_live e s \<Longrightarrow> sender_live s' \<and> monitor_live e s'"
  by (induction xs arbitrary: s) (auto split: option.splits intro: sender_live_act monitor_live_act)

subsection \<open>The work can be done\<close>

definition at_rest :: "pl_env \<Rightarrow> pipeline \<Rightarrow> bool" where
  "at_rest e s \<longleftrightarrow> (\<forall>a. pl_internal a \<longrightarrow> pl_act e a s = None)"

lemma internal_orderly: "pl_internal a \<Longrightarrow> orderly e s a"
  by (auto simp: pl_internal_def orderly_def split: pl_action.splits)

lemma internal_run:
  "pl_run e xs s = Some s' \<Longrightarrow> list_all pl_internal xs \<Longrightarrow>
   pl_reach e (orderly e) s0 s \<Longrightarrow> pl_reach e (orderly e) s0 s'"
proof (induction xs arbitrary: s)
  case (Cons a xs)
  then obtain s1 where s1: "pl_act e a s = Some (Some s1)" "pl_run e xs s1 = Some s'"
    by (auto split: option.splits)
  have "pl_reach e (orderly e) s0 s1"
    using Cons.prems(2,3) s1(1) internal_orderly by (auto intro: pl_reach.step)
  then show ?case using Cons.IH [OF s1(2)] Cons.prems(2) by simp
qed simp

lemma can_rest:
  assumes "booted e s0"
  shows "pl_reach e (orderly e) s0 s \<Longrightarrow>
    \<exists>xs s'. list_all pl_internal xs \<and> pl_run e xs s = Some s' \<and> at_rest e s'"
proof (induction "pl_work s" arbitrary: s rule: less_induct)
  case less
  show ?case
  proof (cases "at_rest e s")
    case True
    then show ?thesis by (intro exI [of _ "[]"] exI [of _ s]) simp
  next
    case False
    then obtain a r where a: "pl_internal a" "pl_act e a s = Some r" by (auto simp: at_rest_def)
    moreover have "r \<noteq> None" using orderly_no_panic [OF assms less.prems, of a] a(2) by auto
    ultimately obtain s1 where s1: "pl_act e a s = Some (Some s1)" by auto
    have "pl_reach e (orderly e) s0 s1" by (rule pl_reach.step [OF less.prems internal_orderly [OF a(1)] s1])
    from less.hyps [OF pl_work_decreases [OF s1 a(1)] this] obtain xs s' where
      "list_all pl_internal xs" "pl_run e xs s1 = Some s'" "at_rest e s'" by blast
    then show ?thesis using s1 a(1) by (intro exI [of _ "a # xs"] exI [of _ s']) simp
  qed
qed

subsection \<open>Properties\<close>

definition in_retry :: "pipeline \<Rightarrow> uint64 \<Rightarrow> bool" where
  "in_retry s i \<longleftrightarrow> (\<exists>q r. (q \<in> set (sys_sorted (pl_mon s)) \<or> ms_check (pl_mon s) = CkEnqueue q)
     \<and> sys_heap (pl_mon s) q = Some r \<and> tx_Id (l2Tx r) = i)"

lemma rest_table:
  assumes boot: "booted_whole e s0" and reach: "pl_reach e (orderly e) s0 s"
    and rest: "at_rest e s" and live: "sender_live s" "monitor_live e s"
  shows "set (pl_callers s) \<subseteq> {Todo []}" "status_of (pl_db s) i \<noteq> Some TxStatusPending"
    "status_of (pl_db s) i = Some TxStatusSent \<Longrightarrow> in_retry s i"
proof -
  note booted = booted_whole_booted [OF boot]
  obtain n db where run: "pl_reach e (hands_ok e FreshIds) (pl_init e n db) s" by (rule booted_reach [OF booted reach])
  have off: "\<And>a. pl_internal a \<Longrightarrow> pl_act e a s = None" using rest by (simp add: at_rest_def)
  have dialled: "\<not> set (sq_workers (pl_q s)) \<subseteq> {WDead}" using live(1) by (auto simp: sender_live_def)
  have workers: "\<not> dead_workers (pe_monitor e) (pl_mon s)"
    using live(2) dead_workers_pc [of "pe_monitor e" "pl_mon s"] by (auto simp: monitor_live_def)
  note threads = threads_match_reach [OF run] and parts = pl_parts(1) [OF run] pl_parts(2) [OF run]
  have linked: "inv_linked s" using pl_reach_kept [OF run] by simp
  show callers: "set (pl_callers s) \<subseteq> {Todo []}"
    by (rule rest_callers [OF booted reach off threads linked rest_answered [OF off threads linked parts(1) dialled]])
  have table: "inv_table s" by (rule table_reach [OF boot reach])
  have "to_send s = {}" "to_hand s = {}" using callers by (fastforce simp: to_send_def to_hand_def)+
  then show "status_of (pl_db s) i \<noteq> Some TxStatusPending"
    using table by (auto simp: inv_table_def)
  assume sent: "status_of (pl_db s) i = Some TxStatusSent"
  then have "i \<in> ms_seen (pl_mon s)" using table \<open>to_hand s = {}\<close> by (auto simp: inv_table_def kept_ids_def)
  moreover have "i \<notin> done_ids (pl_mon s)"
  proof
    assume "i \<in> done_ids (pl_mon s)"
    then obtain st err where st: "(i, st, err) \<in> set (ms_log (pl_mon s))" "st \<noteq> TxStatusSent"
      by (auto simp: done_ids_def TxStatus_defs)
    moreover have "err = None" using table st(1) by (auto simp: inv_table_def)
    ultimately show False using orderly_stored [OF booted reach] sent by (auto simp: inv_stored_def)
  qed
  ultimately obtain q r where q: "q \<in> set (sys_sorted (pl_mon s)) \<or> q \<in># held (pl_mon s)"
      "sys_heap (pl_mon s) q = Some r" "tx_Id (l2Tx r) = i" using never_forgets [OF parts(2)] by blast
  moreover have "ms_check (pl_mon s) = CkEnqueue q" if "q \<in># held (pl_mon s)"
    using that by (cases "ms_check (pl_mon s)") (simp_all add: rest_held [OF off workers])
  ultimately show "in_retry s i" unfolding in_retry_def by blast
qed

text \<open>
  C7. After an orderly start over a database whose statements succeed, with one worker of the
  sender and one of the monitor that have dialled: from every state the goroutines can come to
  rest, and whenever they do, however their steps were ordered, every caller is done, no row of
  the table is pending, and every row that is sent waits in the retry list, but for the one the
  retry loop is about to send back to the workers. No transaction is left lying, not even one
  that was in the table before the start.
\<close>
theorem table_settles:
  assumes "booted_whole e s0" and "pl_reach e (orderly e) s0 s"
    and "sender_live s" and "monitor_live e s"
  shows "(\<exists>xs s'. list_all pl_internal xs \<and> pl_run e xs s = Some s' \<and> at_rest e s')
    \<and> (\<forall>xs s'. list_all pl_internal xs \<longrightarrow> pl_run e xs s = Some s' \<longrightarrow> at_rest e s' \<longrightarrow>
         set (pl_callers s') \<subseteq> {Todo []}
         \<and> (\<forall>i. status_of (pl_db s') i \<noteq> Some TxStatusPending
              \<and> (status_of (pl_db s') i = Some TxStatusSent \<longrightarrow> in_retry s' i)))"
proof (intro conjI allI impI)
  note booted = booted_whole_booted [OF assms(1)]
  show "\<exists>xs s'. list_all pl_internal xs \<and> pl_run e xs s = Some s' \<and> at_rest e s'"
    by (rule can_rest [OF booted assms(2)])
  fix xs s' i assume xs: "list_all pl_internal xs" "pl_run e xs s = Some s'" and rest: "at_rest e s'"
  note r = rest_table [OF assms(1) internal_run [OF xs(2,1) assms(2)] rest] live_run [OF xs(2)] assms(3,4)
  show "set (pl_callers s') \<subseteq> {Todo []}" "status_of (pl_db s') i \<noteq> Some TxStatusPending"
    using r by blast+
  assume "status_of (pl_db s') i = Some TxStatusSent"
  then show "in_retry s' i" using r by blast
qed

text \<open>A table with a sent and a pending row; the first is confirmed, the second has no receipt yet.\<close>

definition ex_table_db :: PoolDB where
  "ex_table_db = snd (UpdateL2TransactionStatus 1 TxStatusSent []
     (snd (PoolDB.AddL2Transaction Some (endpoint_tx (ex_pl_tx\<lparr>tx_Hash := ''0xcd''\<rparr>))
       (snd (PoolDB.AddL2Transaction Some (endpoint_tx ex_pl_tx) (NewPoolDB calm))))))"

definition ex_dials :: "pl_action list" where
  "ex_dials = [PlQueue (SqDial 0 None), PlMonitor (ActDial 0 None), PlMonitor (ActDial 1 None)]"

definition ex_rest_run :: "pl_action list" where
  "ex_rest_run = [PlHand 0 (clock 0)] @ ex_send 1
     @ [PlHand 1 (clock 0), PlMonitor (ActHandoff 0 0), PlMonitor (ActHandoff 1 0),
        PlMonitor (ActReceipt 0 (Receipt 1)), PlMonitor (ActUpdate 0 None), PlMonitor (ActDelete 0),
        PlMonitor (ActReceipt 1 ReceiptNotFound), PlMonitor (ActRetry 1 (clock 0)), PlMonitor (ActAdd 1),
        PlMonitor (ActLen 1), PlMonitor (ActSignal 1)]"

lemma ex_table_db: "db_inv ex_table_db" "unmarked ex_table_db" "all_ok ex_table_db"
proof -
  show "db_inv ex_table_db" unfolding ex_table_db_def by (intro pool_store.update_inv db_inv_Add db_inv_new)
  have "list_all (\<lambda>r. row_status r \<noteq> TxStatusResend) (db_rows ex_table_db)" by code_simp
  then show "unmarked ex_table_db" by (auto simp: unmarked_def status_of_def find_Some_iff list_all_length)
  show "all_ok ex_table_db"
    unfolding ex_table_db_def all_ok_def update_env by (simp add: pool_exec)
qed

theorem table_settles_witness:
  "\<exists>s0 s s'. pl_run ex_pl_env ex_dials s0 = Some s \<and> pl_run ex_pl_env ex_rest_run s = Some s'
     \<and> status_of (pl_db s') 1 = Some TxStatusConfirmed \<and> status_of (pl_db s') 2 = Some TxStatusSent \<and> in_retry s' 2"
proof -
  have "case pl_run ex_pl_env ex_boot (pl_init ex_pl_env 2 ex_table_db) of None \<Rightarrow> False
    | Some s0 \<Rightarrow> (case pl_run ex_pl_env ex_dials s0 of None \<Rightarrow> False
      | Some s \<Rightarrow> (case pl_run ex_pl_env ex_rest_run s of None \<Rightarrow> False
        | Some s' \<Rightarrow> all_idle s' \<and> status_of (pl_db s') 1 = Some TxStatusConfirmed \<and> status_of (pl_db s') 2 = Some TxStatusSent)
        \<and> sq_workers (pl_q s) = [WIdle] \<and> ms_threads (pl_mon s) = [PcIdle, PcIdle, PcIdle, PcIdle])"
    by code_simp
  then obtain s0 s s' where s: "pl_run ex_pl_env ex_boot (pl_init ex_pl_env 2 ex_table_db) = Some s0"
      "pl_run ex_pl_env ex_dials s0 = Some s" "pl_run ex_pl_env ex_rest_run s = Some s'" "all_idle s'"
      "status_of (pl_db s') 1 = Some TxStatusConfirmed" "status_of (pl_db s') 2 = Some TxStatusSent"
      "sq_workers (pl_q s) = [WIdle]" "ms_threads (pl_mon s) = [PcIdle, PcIdle, PcIdle, PcIdle]"
    by (auto split: option.splits)
  have "keeps_status ex_pl_env" by (simp add: keeps_status_def ex_pl_env_def)
  moreover have "q_cut (in_order_query None) = None" by (simp add: in_order_query_def)
  ultimately have boot: "booted_whole ex_pl_env s0"
    using s(1) ex_table_db faithful_in_order unfolding booted_whole_def ex_boot_def by blast
  have dials: "list_all pl_internal ex_dials" "list_all pl_internal ex_rest_run" by code_simp+
  have reach: "pl_reach ex_pl_env (orderly ex_pl_env) s0 s"
    by (rule internal_run [OF s(2) dials(1) pl_reach.start])
  have "pc_of (pl_mon s) 0 = Some PcIdle" by (simp add: pc_of_def index_at_def s(8))
  then have live: "sender_live s" "monitor_live ex_pl_env s"
    by (auto simp: sender_live_def monitor_live_def s(7) is_worker_def ex_pl_env_def ex_cfg_def intro!: exI [of _ 0])
  have "at_rest ex_pl_env s'" using all_idle_rest [OF s(4)] by (simp add: at_rest_def)
  with table_settles [OF boot reach live] dials(2) s(3,6) have "in_retry s' 2" by blast
  then show ?thesis using s(2,3,5,6) by blast
qed

end
