(* ===== verification/PipelineCall.thy ===== *)
theory PipelineCall
  imports PipelineProps PoolSystem
begin

section \<open>Calls as runs\<close>

text \<open>
  Theory \<open>PoolSystem\<close> lets every call run to its end before the next one starts. Here those
  calls are shown to be runs of the interleaved system: an abstraction forgets the goroutines
  of a pipeline, and what a call of \<open>PoolSystem\<close> makes of the abstraction is the abstraction
  of a state the pipeline runs to, through the steps of one caller, one worker of the sender
  and no other.
\<close>

subsection \<open>Abstraction\<close>

definition with_db :: "'d \<Rightarrow> unit Monitor \<Rightarrow> 'd Monitor" where
  "with_db d m = \<lparr>m_heap = m_heap m, m_next = m_next m, m_list = m_list m, m_sending = m_sending m,
     m_chan = m_chan m, m_waiting = m_waiting m, m_db = d\<rparr>"

text \<open>Some worker of the sender has dialled.\<close>

definition has_dialled :: "sendq \<Rightarrow> bool" where
  "has_dialled q \<longleftrightarrow> list_ex (\<lambda>c. case c of WStart \<Rightarrow> False | WDead \<Rightarrow> False | _ \<Rightarrow> True) (sq_workers q)"

definition atomic_view ::
  "(gostring list \<Rightarrow> gostring \<Rightarrow> goerror) \<Rightarrow> (nat \<Rightarrow> gotime) \<Rightarrow> nat \<Rightarrow> pipeline \<Rightarrow> pool_sys" where
  "atomic_view ans clk k p = \<lparr>ps_mon = with_db (pl_db p) (ms_mon (pl_mon p)),
     ps_sent = map (\<lambda>(q, payload, err). payload) (sq_calls (pl_q p)),
     ps_answer = ans, ps_clock = clk, ps_tick = k, ps_live = has_dialled (pl_q p)\<rparr>"

text \<open>A caller with the work \<open>ws\<close> that nobody stands in the way of.\<close>

definition ready :: "pl_env \<Rightarrow> nat \<Rightarrow> nat \<Rightarrow> work list \<Rightarrow> pipeline \<Rightarrow> bool" where
  "ready e t w ws p \<longleftrightarrow> caller_at e p t = Some (Todo ws) \<and> index_at (sq_callers (pl_q p)) t = Some CIdle
     \<and> index_at (sq_workers (pl_q p)) w = Some WIdle \<and> sq_chan (pl_q p) = []"

lemma ready_dialled:
  assumes "ready e t w ws p"
  shows "has_dialled (pl_q p)"
proof -
  have "WIdle \<in> set (sq_workers (pl_q p))" using assms by (auto simp: ready_def intro: index_at_mem)
  then show ?thesis by (force simp: has_dialled_def list_ex_iff)
qed

lemma with_db_simps [simp]:
  "m_heap (with_db d m) = m_heap m" "m_next (with_db d m) = m_next m" "m_list (with_db d m) = m_list m"
  "m_sending (with_db d m) = m_sending m" "m_chan (with_db d m) = m_chan m"
  "m_waiting (with_db d m) = m_waiting m" "m_db (with_db d m) = d"
  "m_db_update f (with_db d m) = with_db (f d) m"
  by (simp_all add: with_db_def)

lemma view_simps [simp]:
  "ps_answer (atomic_view ans clk k p) = ans" "ps_clock (atomic_view ans clk k p) = clk"
  "ps_tick (atomic_view ans clk k p) = k" "ps_db (atomic_view ans clk k p) = pl_db p"
  "ps_live (atomic_view ans clk k p) = has_dialled (pl_q p)"
  by (simp_all add: atomic_view_def ps_db_def)

lemma monitor_add_with_db:
  "monitorAddL2Transaction cfg now tx (with_db d m) = map_option (with_db d) (monitorAddL2Transaction cfg now tx m)"
  by (auto simp: monitorAddL2Transaction_def new_request_def addRequestToRetryList_def enqueueMonitorRequest_def
      cond_signal_def with_db_def Let_def map_option_bind comp_def split: if_splits prod.splits bind_splits
      intro!: arg_cong2 [where f = Option.bind])

subsection \<open>The queue\<close>

text \<open>What is left of a call in the queue when the worker has answered it.\<close>

definition answered_queue :: "L2Transaction \<Rightarrow> goerror \<Rightarrow> sendq \<Rightarrow> sendq" where
  "answered_queue tx err q = q\<lparr>sq_reqs := sq_reqs q @ [\<lparr>sr_l2Tx = tx, sr_wg = 0, sr_err = err\<rparr>],
     sq_calls := sq_calls q @ [(length (sq_reqs q), tx_Encoded tx, err)],
     sq_results := sq_results q @ [(length (sq_reqs q), err)]\<rparr>"

definition call_actions :: "nat \<Rightarrow> nat \<Rightarrow> nat \<Rightarrow> goerror \<Rightarrow> pl_action list" where
  "call_actions t w i err = [PlSend t, PlQueue (SqHandoff w i), PlQueue (SqCall w err), PlQueue (SqStore w),
     PlQueue (SqDone w), PlReturn t, PlUpdate t]"

lemma index_at_last [simp]:
  "index_at xs i = Some a \<Longrightarrow> index_at (xs[i := b]) i = Some b"
  "index_at (xs @ [c]) (length xs) = Some c"
  by (auto simp: index_at_def split: if_splits)

lemma remove_last [simp]: "remove_at (length xs) (xs @ [p]) = xs"
  by (simp add: remove_at_def)

lemma list_update_id': "index_at xs i = Some a \<Longrightarrow> xs[i := a] = xs"
  by (auto simp: index_at_def split: if_splits)

lemma call_run:
  assumes "ready e t w (SendTx (Some tx) # ws) p"
    and "UpdateL2TransactionStatus (tx_Id tx) (if err \<noteq> None then TxStatusInvalid else TxStatusSent)
        (case err of None \<Rightarrow> [] | Some msg \<Rightarrow> msg) (pl_db p) = (res, d)"
  shows "pl_run e (call_actions t w (length (sq_sending (pl_q p))) err) p =
    Some (put_caller t (Todo (if err \<noteq> None then ws else HandTx (Some tx) # ws))
      (p\<lparr>pl_q := answered_queue tx err (pl_q p), pl_db := d\<rparr>))"
  using assms
  by (simp add: ready_def call_actions_def caller_at_def sq_act.simps Let_def answered_queue_def
      set_caller_def set_worker_def sq_internal_def put_caller_def list_update_id' split: if_splits)

lemma ready_call:
  assumes "ready e t w (SendTx (Some tx) # ws) p"
  shows "ready e t w us (put_caller t (Todo us) (p\<lparr>pl_q := answered_queue tx err (pl_q p), pl_db := d\<rparr>))"
  using assms by (auto simp: ready_def caller_at_def answered_queue_def split: if_splits)

subsection \<open>Handing over\<close>

definition add_step :: "action \<Rightarrow> bool" where
  "add_step a = (case a of ActAdd t \<Rightarrow> True | ActLen t \<Rightarrow> True | ActSignal t \<Rightarrow> True | _ \<Rightarrow> False)"

lemma monitor_steps:
  "mon_run (pe_monitor e) disc xs (pl_mon p) = Some m \<Longrightarrow> list_all add_step xs \<Longrightarrow>
   pl_run e (map PlMonitor xs) p = Some (p\<lparr>pl_mon := m\<rparr>)"
proof (induction xs arbitrary: p)
  case (Cons a xs)
  then obtain m1 where m1: "mon_act (pe_monitor e) a (pl_mon p) = Some (Some m1)"
      "mon_run (pe_monitor e) disc xs m1 = Some m"
    by (auto split: option.splits dest: act_underD)
  have a: "mon_internal a" "mon_effect a (pl_mon p) = None" "with_answer err a = a" for err
    using Cons.prems(2) by (cases a; simp add: add_step_def mon_internal_def mon_effect_def with_answer_def)+
  have "pl_act e (PlMonitor a) p = Some (Some (p\<lparr>pl_mon := m1\<rparr>))"
    using m1(1) a by (simp add: mon_answer_def)
  then show ?case using Cons.IH [of "p\<lparr>pl_mon := m1\<rparr>"] m1(2) Cons.prems(2) by simp
qed simp

lemma hand_run:
  assumes "ready e t w (HandTx (Some tx) # ws) p"
    and "monitorAddL2Transaction (pe_monitor e) now tx (ms_mon (pl_mon p)) = Some m"
  shows "\<exists>xs p'. pl_run e (PlHand t now # map PlMonitor xs) p = Some p' \<and> list_all add_step xs
    \<and> ready e t w ws p' \<and> pl_db p' = pl_db p \<and> pl_q p' = pl_q p \<and> ms_mon (pl_mon p') = m"
proof -
  let ?cfg = "pe_monitor e" and ?th = "monitor_thread e t"
  let ?s = "(pl_mon p)\<lparr>ms_seen := insert (tx_Id tx) (ms_seen (pl_mon p))\<rparr>"
  have pc: "pc_of (pl_mon p) ?th = Some PcIdle" and "index_at (pl_callers p) t = Some (Todo (HandTx (Some tx) # ws))"
    using assms(1) by (auto simp: ready_def caller_at_def split: if_splits)
  have th: "\<not> is_worker ?cfg ?th" by (simp add: is_worker_def monitor_thread_def)
  let ?p = "\<lambda>m. put_caller t (Todo ws) (p\<lparr>pl_mon := m\<rparr>)"
  have ready: "ready e t w ws (?p m')" if "pc_of m' ?th = Some PcIdle" for m'
    using assms(1) that by (auto simp: ready_def caller_at_def split: if_splits)
  have hand: "pl_run e (PlHand t now # ys) p = pl_run e ys (?p m')"
    if "mon_act ?cfg (ActCall ?th now tx) (pl_mon p) = Some (Some m')" for ys m'
    using assms(1) that by (simp add: ready_def)
  show ?thesis
  proof (cases "mc_InitialWaitInterval ?cfg > 0")
    case True
    obtain r m1 where r: "new_request \<lparr>l2Tx = tx, nextRetry = time_add now (mc_InitialWaitInterval ?cfg)\<rparr>
        (ms_mon (pl_mon p)) = (r, m1)" by fastforce
    let ?m1 = "set_pc ?th (PcAdd r) (?s\<lparr>ms_mon := m1\<rparr>)"
    have call: "mon_act ?cfg (ActCall ?th now tx) (pl_mon p) = Some (Some ?m1)"
      using pc th True r by (simp add: mon_act.simps)
    have "addRequestToRetryList r (ms_mon ?m1) = Some m"
      using assms(2) True r by (simp add: monitorAddL2Transaction_def)
    moreover have "pc_of ?m1 ?th = Some (PcAdd r)" using pc by (auto simp: pc_of_def set_pc_def index_at_def split: if_splits)
    ultimately obtain xs where xs: "set xs \<subseteq> {ActAdd ?th, ActLen ?th, ActSignal ?th}"
        "mon_run ?cfg FreshIds xs ?m1 = Some (set_pc ?th PcIdle (?m1\<lparr>ms_mon := m\<rparr>))"
      using add_run_own by blast
    have plain: "list_all add_step xs" using xs(1) by (auto simp: list_all_iff add_step_def)
    let ?fin = "set_pc ?th PcIdle (?m1\<lparr>ms_mon := m\<rparr>)"
    have "pl_run e (map PlMonitor xs) (?p ?m1) = Some ((?p ?m1)\<lparr>pl_mon := ?fin\<rparr>)"
      using xs(2) plain by (intro monitor_steps) simp_all
    moreover have "(?p ?m1)\<lparr>pl_mon := ?fin\<rparr> = ?p ?fin" by (simp add: put_caller_def)
    ultimately have "pl_run e (PlHand t now # map PlMonitor xs) p = Some (?p ?fin)"
      unfolding hand [OF call] by (simp only:)
    moreover have "pc_of ?fin ?th = Some PcIdle" using pc by (auto simp: pc_of_def set_pc_def index_at_def split: if_splits)
    ultimately show ?thesis using plain ready [of ?fin]
      by (intro exI [of _ xs] exI [of _ "?p ?fin"]) simp
  next
    case False
    obtain r m1 where r: "new_request \<lparr>l2Tx = tx, nextRetry = zero_time\<rparr> (ms_mon (pl_mon p)) = (r, m1)" by fastforce
    have call: "mon_act ?cfg (ActCall ?th now tx) (pl_mon p) = Some (Some (?s\<lparr>ms_mon := m\<rparr>))"
      using pc th assms False r by (simp add: mon_act.simps monitorAddL2Transaction_def)
    let ?fin = "?s\<lparr>ms_mon := m\<rparr>"
    have "pl_run e [PlHand t now] p = Some (?p ?fin)" unfolding hand [OF call] by simp
    then show ?thesis using ready [of ?fin] pc
      by (intro exI [of _ "[]"] exI [of _ "?p ?fin"]) (simp add: pc_of_def)
  qed
qed

subsection \<open>One transaction\<close>

definition own_step :: "pl_action \<Rightarrow> bool" where
  "own_step a = (case a of PlInsert t tx \<Rightarrow> False | PlQuery t k q \<Rightarrow> False | _ \<Rightarrow> True)"


lemma pl_run_append:
  "pl_run e (xs @ ys) p = (case pl_run e xs p of None \<Rightarrow> None | Some p' \<Rightarrow> pl_run e ys p')"
  by (induction xs arbitrary: p) (auto split: option.splits)

lemma send_run:
  assumes ready: "ready e t w (SendTx (Some tx) # ws) p"
    and send: "sys_send (pe_monitor e) (Some tx) (atomic_view ans clk k p) = Some (err, s')"
  shows "\<exists>xs p' k'. pl_run e xs p = Some p' \<and> list_all own_step xs \<and> ready e t w ws p'
    \<and> s' = atomic_view ans clk k' p'"
proof -
  let ?s = "atomic_view ans clk k p"
  have live: "has_dialled (pl_q p)" using ready_dialled [OF ready] .
  have err: "err = ans (ps_sent ?s) (tx_Encoded tx)"
    using send by (auto simp: sys_send_def SendL2Transaction_def enqueue_and_wait_def senderWorkerProcessRequest_def live sys_call_def
        atomic_view_def Let_def split: option.splits prod.splits bind_splits)
  obtain res d where upd: "UpdateL2TransactionStatus (tx_Id tx) (if err \<noteq> None then TxStatusInvalid else TxStatusSent)
      (case err of None \<Rightarrow> [] | Some msg \<Rightarrow> msg) (pl_db p) = (res, d)" by fastforce
  let ?us = "if err \<noteq> None then ws else HandTx (Some tx) # ws"
  let ?p = "put_caller t (Todo ?us) (p\<lparr>pl_q := answered_queue tx err (pl_q p), pl_db := d\<rparr>)"
  let ?xs = "call_actions t w (length (sq_sending (pl_q p))) err"
  have run: "pl_run e ?xs p = Some ?p" by (rule call_run [OF ready upd])
  have own: "list_all own_step ?xs" by (simp add: call_actions_def own_step_def)
  have here: "ready e t w ?us ?p" by (rule ready_call [OF ready])
  have view: "set_db d (snd (sys_call (tx_Encoded tx) ?s)) = atomic_view ans clk k ?p"
    by (simp add: atomic_view_def sys_call_def set_db_def answered_queue_def has_dialled_def)
  have db: "ps_db (snd (sys_call (tx_Encoded tx) ?s)) = pl_db p" by (simp add: atomic_view_def sys_call_def ps_db_def)
  show ?thesis
  proof (cases err)
    case (Some msg)
    have "s' = atomic_view ans clk k ?p"
      using send upd Some view db err by (simp add: sys_send_def SendL2Transaction_def enqueue_and_wait_def senderWorkerProcessRequest_def live
          sys_update_def sys_call_def split: prod.splits)
    then show ?thesis using run own here Some by (intro exI [of _ ?xs] exI [of _ ?p] exI [of _ k]) simp
  next
    case None
    have "sys_madd (pe_monitor e) tx (atomic_view ans clk k ?p) = Some s'"
      using send upd None view db err by (simp add: sys_send_def SendL2Transaction_def enqueue_and_wait_def senderWorkerProcessRequest_def live
          sys_update_def sys_call_def split: prod.splits bind_splits)
    then obtain m where m: "monitorAddL2Transaction (pe_monitor e) (clk k) tx (ms_mon (pl_mon ?p)) = Some m"
        "s' = (atomic_view ans clk k ?p)\<lparr>ps_mon := with_db d m, ps_tick := k + 1\<rparr>"
      by (auto simp: sys_madd_def atomic_view_def monitor_add_with_db)
    have hand: "ready e t w (HandTx (Some tx) # ws) ?p" using here None by simp
    from hand_run [OF hand m(1)]
    obtain ys p' where ys: "pl_run e (PlHand t (clk k) # map PlMonitor ys) ?p = Some p'" "list_all add_step ys"
        "ready e t w ws p'" "pl_db p' = pl_db ?p" "pl_q p' = pl_q ?p" "ms_mon (pl_mon p') = m"
      by blast
    have "list_all own_step (?xs @ PlHand t (clk k) # map PlMonitor ys)"
      using own by (auto simp: list_all_iff own_step_def)
    moreover have "s' = atomic_view ans clk (k + 1) p'" using ys(4-6) by (simp add: m(2) atomic_view_def)
    moreover have "pl_run e (?xs @ PlHand t (clk k) # map PlMonitor ys) p = Some p'"
      unfolding pl_run_append run using ys(1) by (simp only: option.simps)
    ultimately show ?thesis using ys(3) by blast
  qed
qed

text \<open>A loop over transactions.\<close>

lemma send_all_run:
  "ready e t w (map (\<lambda>tx. SendTx (Some tx)) txs @ ws) p \<Longrightarrow>
    send_all ps_live sys_update sys_call (sys_madd (pe_monitor e)) (map Some txs) (atomic_view ans clk k p) = Some s' \<Longrightarrow>
    \<exists>xs p' k'. pl_run e xs p = Some p' \<and> list_all own_step xs \<and> ready e t w ws p'
      \<and> s' = atomic_view ans clk k' p'"
proof (induction txs arbitrary: p k)
  case Nil
  then show ?case by (intro exI [of _ "[]"]) auto
next
  case (Cons tx txs)
  obtain err s1 where s1: "sys_send (pe_monitor e) (Some tx) (atomic_view ans clk k p) = Some (err, s1)"
      "send_all ps_live sys_update sys_call (sys_madd (pe_monitor e)) (map Some txs) s1 = Some s'"
    using Cons.prems(2) by (auto simp: sys_send_def split: bind_splits)
  have "ready e t w (SendTx (Some tx) # map (\<lambda>tx. SendTx (Some tx)) txs @ ws) p" using Cons.prems(1) by simp
  from send_run [OF this s1(1)] obtain xs p1 k1 where p1: "pl_run e xs p = Some p1"
      "list_all own_step xs" "ready e t w (map (\<lambda>tx. SendTx (Some tx)) txs @ ws) p1" "s1 = atomic_view ans clk k1 p1"
    by blast
  from Cons.IH [OF p1(3) s1(2) [unfolded p1(4)]] obtain ys p' k' where "pl_run e ys p1 = Some p'"
      "list_all own_step ys" "ready e t w ws p'" "s' = atomic_view ans clk k' p'" by blast
  then show ?case using p1(1,2) by (intro exI [of _ "xs @ ys"] exI) (auto simp: pl_run_append)
qed

subsection \<open>A request\<close>






end
