(* ===== verification/Encoding.thy ===== *)
theory Encoding
  imports Hex
begin

section \<open>Package encoding\<close>

text \<open>
  Model of \<open>encoding/encoding.go\<close>. A pointer argument is an \<open>option\<close>, \<^term>\<open>None\<close> for nil.
  The errors of \<open>SetString\<close> carry no more information than that there is one.
  \<open>common.Hex2Bytes\<close> belongs to a library outside the repository and is a parameter.
\<close>

subsection \<open>Operations\<close>

definition decimal_or_hex :: "gostring \<Rightarrow> gostring \<times> nat" where
  "decimal_or_hex s = (if HasPrefix s ''0x'' then (drop 2 s, 16) else (s, 10))"

definition DecodeUint64orHex :: "gostring option \<Rightarrow> uint64 \<times> num_error option" where
  "DecodeUint64orHex val =
     (case val of
        None \<Rightarrow> (0, None)
      | Some s \<Rightarrow> (let (str, base) = decimal_or_hex s in ParseUint str base))"

definition DecodeUint256orHex :: "gostring option \<Rightarrow> goerror + int option" where
  "DecodeUint256orHex val =
     (case val of
        None \<Rightarrow> Inr None
      | Some s \<Rightarrow>
          (let (str, base) = decimal_or_hex s; (b, ok) = SetString str base
           in if \<not> ok then Inl (Some ''could not parse'') else Inr (Some b)))"

text \<open>\<open>int64(i)\<close> keeps the 64 bits; they are read as a signed number.\<close>

definition DecodeInt64orHex :: "gostring option \<Rightarrow> int \<times> num_error option" where
  "DecodeInt64orHex val = (let (i, err) = DecodeUint64orHex val in (sint i, err))"

definition DecodeBytes :: "gostring option \<Rightarrow> gobytes \<times> hex_error option" where
  "DecodeBytes val =
     (case val of None \<Rightarrow> ([], None) | Some s \<Rightarrow> DecodeString (TrimPrefix s ''0x''))"

definition encEncodeUint64 :: "uint64 \<Rightarrow> gostring" where
  "encEncodeUint64 b = ''0x'' @ format_nat 16 (unat b)"

definition EncodeBytes :: "gobytes \<Rightarrow> gostring" where
  "EncodeBytes b = ''0x'' @ EncodeToString b"

definition EncodeBigInt :: "int \<Rightarrow> gostring" where
  "EncodeBigInt b = ''0x'' @ (if b < 0 then ''-'' else []) @ format_nat 16 (nat \<bar>b\<bar>)"

definition big_SetBytes :: "gobytes \<Rightarrow> int" where
  "big_SetBytes bs = foldl (\<lambda>n w. n * 256 + int (unat w)) 0 bs"

definition DecodeBigIntHexOrDecimal :: "(gostring \<Rightarrow> gobytes) \<Rightarrow> gostring \<Rightarrow> goerror + int" where
  "DecodeBigIntHexOrDecimal hex2bytes s =
     (if HasPrefix s ''0x'' then Inr (big_SetBytes (hex2bytes (drop 2 s)))
      else (let (value, ok) = SetString s 10 in
            if \<not> ok then Inl (Some (''Could not set base10 '' @ s @ '' to big.Int''))
            else Inr value))"

subsection \<open>Lemmas\<close>

lemma decimal_or_hex_0x [simp]: "decimal_or_hex (CHR ''0'' # CHR ''x'' # s) = (s, 16)"
  by (simp add: decimal_or_hex_def)

lemma decimal_or_hex_dec: "decimal_or_hex (format_nat 10 n) = (format_nat 10 n, 10)"
proof -
  have "list_all (is_digit 10) (format_nat 10 n)" using format_nat_digits [of 10 n] by simp
  moreover have "\<not> is_digit 10 (CHR ''x'')" by (simp add: is_digit_def digit_val_def)
  ultimately have "\<not> HasPrefix (format_nat 10 n) ''0x''"
    by (cases "format_nat 10 n" rule: remdups_adj.cases) auto
  then show ?thesis by (simp add: decimal_or_hex_def)
qed

lemma ParseUint_format:
  assumes "2 \<le> b" "b \<le> 36"
  shows "ParseUint (format_nat b (unat (i :: uint64))) b = (i, None)"
proof -
  have "unat i < 2 ^ 64" using unsigned_less [of i] by simp
  then show ?thesis
    using ParseUint_digits [of b "format_nat b (unat i)"] format_nat_digits [OF assms]
      format_nat_value [OF assms] assms by simp
qed

subsection \<open>Properties\<close>

text \<open>
  A \<open>uint64\<close> written in hexadecimal by \<open>EncodeUint64\<close>, or in decimal, is read back by
  \<open>DecodeUint64orHex\<close> without an error, and so are its bits as a signed number by
  \<open>DecodeInt64orHex\<close>.
\<close>

lemma encoding_uint64_roundtrip:
  "DecodeUint64orHex (Some (encEncodeUint64 i)) = (i, None)
   \<and> DecodeUint64orHex (Some (format_nat 10 (unat i))) = (i, None)
   \<and> DecodeInt64orHex (Some (encEncodeUint64 i)) = (sint i, None)"
  using ParseUint_format [of 16 i] ParseUint_format [of 10 i]
  by (simp add: DecodeUint64orHex_def DecodeInt64orHex_def encEncodeUint64_def decimal_or_hex_dec)

text \<open>
  A row of decimal digits, without a prefix, is read as its value exactly when it fits
  into 64 bits; a larger one is reported as out of range, never wrapped.
\<close>

lemma decode_uint64_range:
  assumes "list_all (is_digit 10) s" "s \<noteq> []"
  shows "DecodeUint64orHex (Some s) =
    (if digits_value 10 s < 2 ^ 64 then (of_nat (digits_value 10 s), None) else (- 1, Some ErrRange))"
proof -
  have "\<not> is_digit 10 (CHR ''x'')" by (simp add: is_digit_def digit_val_def)
  then have "\<not> HasPrefix s ''0x''"
    using assms by (cases s rule: remdups_adj.cases) auto
  then show ?thesis
    using ParseUint_digits [OF assms] by (simp add: DecodeUint64orHex_def decimal_or_hex_def)
qed

lemma decode_uint64_range_example:
  "DecodeUint64orHex (Some ''18446744073709551616'') = (- 1, Some ErrRange)"
proof -
  have "list_all (is_digit 10) ''18446744073709551616''" by code_simp
  moreover have "digits_value 10 ''18446744073709551616'' = 2 ^ 64"
    by (simp add: digits_value_def digit_val_def)
  ultimately show ?thesis using decode_uint64_range [of "''18446744073709551616''"] by simp
qed

text \<open>Bytes survive \<open>EncodeBytes\<close> and \<open>DecodeBytes\<close>, and nil gives no bytes and no error.\<close>

lemma encoding_bytes_roundtrip:
  "DecodeBytes (Some (EncodeBytes bs)) = (bs, None) \<and> DecodeBytes None = ([], None)"
  by (simp add: DecodeBytes_def EncodeBytes_def DecodeString_def EncodeToString_def hex_roundtrip)

text \<open>
  \<open>DecodeUint256orHex\<close> checks no bounds although its comment says it decodes a 256-bit
  unsigned number: for every integer, negative or too large, there is a string it decodes to
  that integer without an error.
\<close>

lemma decode_uint256_unbounded:
  "DecodeUint256orHex (Some (EncodeBigInt n)) = Inr (Some n)"
proof -
  have d: "takeWhile (is_digit 16) (format_nat 16 k) = format_nat 16 k" for k
    using hex16(1) [of k] by (simp add: list_all_iff)
  show ?thesis
  proof (cases "n < 0")
    case True
    then show ?thesis
      using hex16(2,3) [of "nat (- n)"] d
      by (simp add: DecodeUint256orHex_def EncodeBigInt_def SetString_def Let_def
          del: takeWhile_eq_all_conv)
  next
    case False
    then show ?thesis
      using SetString_digits [OF hex16(1,2), of "nat n"] hex16(3)
      by (simp add: DecodeUint256orHex_def EncodeBigInt_def Let_def)
  qed
qed

end
