(* ===== verification/GoUtf8.thy ===== *)
theory GoUtf8
  imports GoText
begin

section \<open>UTF-8\<close>

text \<open>
  The package \<open>unicode/utf8\<close>, which \<open>encoding/json\<close> uses: the first rune of a list of bytes, the
  bytes of a rune, and that one is the inverse of the other on text that is UTF-8.
\<close>

definition code :: "char \<Rightarrow> nat" where
  "code c = of_char c"

definition byte :: "nat \<Rightarrow> char" where
  "byte n = char_of n"

lemma code_byte [simp]: "n < 256 \<Longrightarrow> code (byte n) = n"
  by (simp add: code_def byte_def)

lemma byte_code [simp]: "byte (code c) = c"
  by (simp add: code_def byte_def)

definition in_range :: "char \<Rightarrow> nat \<Rightarrow> nat \<Rightarrow> bool" where
  "in_range c lo hi \<longleftrightarrow> lo \<le> code c \<and> code c \<le> hi"

definition runeError :: nat where
  "runeError = 0xFFFD"

text \<open>The first rune of a string that is not empty, and what follows it; a byte that starts
  no valid encoding is the rune \<^const>\<open>runeError\<close> of one byte.\<close>

definition decode_rune2 :: "char \<Rightarrow> gostring \<Rightarrow> (nat \<times> gostring) option" where
  "decode_rune2 b0 s =
     (case s of
        b1 # r \<Rightarrow> if in_range b0 0xC2 0xDF \<and> in_range b1 0x80 0xBF
                  then Some ((code b0 - 0xC0) * 64 + (code b1 - 0x80), r) else None
      | [] \<Rightarrow> None)"

definition decode_rune3 :: "char \<Rightarrow> gostring \<Rightarrow> (nat \<times> gostring) option" where
  "decode_rune3 b0 s =
     (case s of
        b1 # b2 # r \<Rightarrow>
          if in_range b0 0xE0 0xEF
             \<and> in_range b1 (if code b0 = 0xE0 then 0xA0 else 0x80) (if code b0 = 0xED then 0x9F else 0xBF)
             \<and> in_range b2 0x80 0xBF
          then Some ((code b0 - 0xE0) * 4096 + (code b1 - 0x80) * 64 + (code b2 - 0x80), r) else None
      | _ \<Rightarrow> None)"

definition decode_rune4 :: "char \<Rightarrow> gostring \<Rightarrow> (nat \<times> gostring) option" where
  "decode_rune4 b0 s =
     (case s of
        b1 # b2 # b3 # r \<Rightarrow>
          if in_range b0 0xF0 0xF4
             \<and> in_range b1 (if code b0 = 0xF0 then 0x90 else 0x80) (if code b0 = 0xF4 then 0x8F else 0xBF)
             \<and> in_range b2 0x80 0xBF \<and> in_range b3 0x80 0xBF
          then Some ((code b0 - 0xF0) * 262144 + (code b1 - 0x80) * 4096 + (code b2 - 0x80) * 64
                       + (code b3 - 0x80), r) else None
      | _ \<Rightarrow> None)"

definition decode_rune :: "char \<Rightarrow> gostring \<Rightarrow> nat \<times> gostring" where
  "decode_rune b0 s =
     (if code b0 < 0x80 then (code b0, s)
      else case decode_rune2 b0 s of Some x \<Rightarrow> x | None \<Rightarrow>
      (case decode_rune3 b0 s of Some x \<Rightarrow> x | None \<Rightarrow>
      (case decode_rune4 b0 s of Some x \<Rightarrow> x | None \<Rightarrow> (runeError, s))))"

definition encode_rune :: "nat \<Rightarrow> gostring" where
  "encode_rune n =
     (let r = (if 0x10FFFF < n \<or> (0xD800 \<le> n \<and> n \<le> 0xDFFF) then runeError else n) in
      if r < 0x80 then [byte r]
      else if r < 0x800 then [byte (0xC0 + r div 64), byte (0x80 + r mod 64)]
      else if r < 0x10000 then [byte (0xE0 + r div 4096), byte (0x80 + r div 64 mod 64), byte (0x80 + r mod 64)]
      else [byte (0xF0 + r div 262144), byte (0x80 + r div 4096 mod 64), byte (0x80 + r div 64 mod 64),
            byte (0x80 + r mod 64)])"

lemma decode_rune_shorter: "length (snd (decode_rune c s)) \<le> length s"
  by (auto simp: decode_rune_def decode_rune2_def decode_rune3_def decode_rune4_def
      split: list.split option.split)

lemma decode_rune_ascii [simp]: "code c < 128 \<Longrightarrow> decode_rune c s = (code c, s)"
  by (simp add: decode_rune_def)

lemma encode_rune_ascii [simp]: "code c < 128 \<Longrightarrow> encode_rune (code c) = [c]"
  by (simp add: encode_rune_def)

lemma decode_rune_less: "(n, r) = decode_rune c s \<Longrightarrow> length r < Suc (length s)"
  by (metis decode_rune_shorter le_imp_less_Suc snd_conv)

lemma code_less_256: "code c < 256"
  by (simp add: code_def)

text \<open>Strings in UTF-8: the Go loop over a string never meets a byte that starts no rune.\<close>

function utf8 :: "gostring \<Rightarrow> bool" where
  "utf8 [] = True"
| "utf8 (c # s) =
     (if code c < 0x80 then utf8 s
      else let (n, s1) = decode_rune c s in s1 \<noteq> s \<and> utf8 s1)"
  by pat_completeness auto

termination
  by (relation "measure length") (auto dest: decode_rune_less)

lemma code_eq_byte: "code c = n \<Longrightarrow> byte n = c"
  by auto

lemma sextet: "y < 64 \<Longrightarrow> (a * 64 + y) div 64 = a" "y < 64 \<Longrightarrow> (a * 64 + y) mod 64 = (y :: nat)"
  by auto

lemma div_4096: "n div 4096 = n div 64 div (64 :: nat)"
  by (simp add: div_mult2_eq [symmetric])

lemma div_262144: "n div 262144 = n div 64 div 64 div (64 :: nat)"
  by (simp add: div_mult2_eq [symmetric])

text \<open>A rune of several bytes: writing it gives the bytes back, and reading does not look further.\<close>

lemma decode_rune_wide:
  assumes "0x80 \<le> code c" and "decode_rune c s = (n, r)" and "r \<noteq> s"
  obtains bs where "s = bs @ r" "bs \<noteq> []" "encode_rune n = c # bs" "\<And>t. decode_rune c (bs @ t) = (n, t)"
    "list_all (\<lambda>b. 0x80 \<le> code b) bs" "0x80 \<le> n"
proof -
  have cb: "code c < 256" by (rule code_less_256)
  consider (two) x where "decode_rune2 c s = Some x" "x = (n, r)"
    | (three) x where "decode_rune2 c s = None" "decode_rune3 c s = Some x" "x = (n, r)"
    | (four) x where "decode_rune2 c s = None" "decode_rune3 c s = None" "decode_rune4 c s = Some x" "x = (n, r)"
    using assms by (auto simp: decode_rune_def split: option.splits)
  then show ?thesis
  proof cases
    case (two x)
    then obtain b where b: "s = b # r" "in_range c 0xC2 0xDF" "in_range b 0x80 0xBF"
        "n = (code c - 0xC0) * 64 + (code b - 0x80)"
      by (auto simp: decode_rune2_def split: list.splits if_splits)
    define x y where "x = code c - 0xC0" and "y = code b - 0x80"
    have xy: "2 \<le> x" "x < 32" "y < 64" "n = x * 64 + y" "code c = 0xC0 + x" "code b = 0x80 + y"
      using b(2-4) by (auto simp: in_range_def x_def y_def)
    then have n: "n div 64 = code c - 0xC0" "n mod 64 = code b - 0x80" "0x80 \<le> n" "n < 0x800" by auto
    have "encode_rune n = [c, b]"
      using n b(2,3) by (auto simp: encode_rune_def Let_def in_range_def)
    moreover have "decode_rune c ([b] @ t) = (n, t)" for t
      using b assms(1) by (simp add: decode_rune_def decode_rune2_def)
    ultimately show ?thesis using b n by (intro that [of "[b]"]) (auto simp: in_range_def)
  next
    case (three x)
    then obtain b1 b2 where b: "s = b1 # b2 # r" "in_range c 0xE0 0xEF"
        "in_range b1 (if code c = 0xE0 then 0xA0 else 0x80) (if code c = 0xED then 0x9F else 0xBF)"
        "in_range b2 0x80 0xBF" "n = (code c - 0xE0) * 4096 + (code b1 - 0x80) * 64 + (code b2 - 0x80)"
      by (auto simp: decode_rune3_def split: list.splits if_splits)
    have r: "0xE0 \<le> code c" "code c \<le> 0xEF" "0x80 \<le> code b1" "code b1 \<le> 0xBF" "0x80 \<le> code b2" "code b2 \<le> 0xBF"
      using b(2-4) by (auto simp: in_range_def split: if_splits)
    define x y z where "x = code c - 0xE0" and "y = code b1 - 0x80" and "z = code b2 - 0x80"
    have xyz: "x < 16" "y < 64" "z < 64" "n = x * 4096 + y * 64 + z" "code c = 0xE0 + x" "code b1 = 0x80 + y" "code b2 = 0x80 + z"
      using r b(5) by (auto simp: x_def y_def z_def)
    have n: "n div 4096 = x" "n div 64 mod 64 = y" "n mod 64 = z"
    proof -
      have e: "n = (x * 64 + y) * 64 + z" using xyz(4) by simp
      show "n div 4096 = x" "n div 64 mod 64 = y" "n mod 64 = z"
        unfolding e div_4096 using xyz(2,3) by (simp_all only: sextet)
    qed
    have lo: "0x800 \<le> n" using b(3) xyz by (auto simp: in_range_def split: if_splits)
    have sur: "\<not> (0xD800 \<le> n \<and> n \<le> 0xDFFF)"
    proof
      assume s: "0xD800 \<le> n \<and> n \<le> 0xDFFF"
      then have x: "x = 13" using xyz(2-4) by linarith
      then have "32 \<le> y" using s xyz(3,4) by linarith
      with x show False using b(3) xyz(5,6) by (simp add: in_range_def)
    qed
    have hi: "n < 0x10000" using xyz(1-4) by auto
    have "encode_rune n = [byte (0xE0 + x), byte (0x80 + y), byte (0x80 + z)]"
      using lo hi sur n by (auto simp: encode_rune_def Let_def)
    then have "encode_rune n = [c, b1, b2]" using xyz(5-7) by (metis byte_code)
    moreover have "decode_rune2 c ([b1, b2] @ t) = None" for t
      using r by (simp add: decode_rune2_def in_range_def)
    then have "decode_rune c ([b1, b2] @ t) = (n, t)" for t
      using b assms(1) by (simp add: decode_rune_def decode_rune3_def)
    ultimately show ?thesis using b r lo by (intro that [of "[b1, b2]"]) auto
  next
    case (four x)
    then obtain b1 b2 b3 where b: "s = b1 # b2 # b3 # r" "in_range c 0xF0 0xF4"
        "in_range b1 (if code c = 0xF0 then 0x90 else 0x80) (if code c = 0xF4 then 0x8F else 0xBF)"
        "in_range b2 0x80 0xBF" "in_range b3 0x80 0xBF"
        "n = (code c - 0xF0) * 262144 + (code b1 - 0x80) * 4096 + (code b2 - 0x80) * 64 + (code b3 - 0x80)"
      by (auto simp: decode_rune4_def split: list.splits if_splits)
    have r: "0xF0 \<le> code c" "code c \<le> 0xF4" "0x80 \<le> code b1" "code b1 \<le> 0xBF" "0x80 \<le> code b2" "code b2 \<le> 0xBF"
        "0x80 \<le> code b3" "code b3 \<le> 0xBF"
      using b(2-5) by (auto simp: in_range_def split: if_splits)
    define w x y z where "w = code c - 0xF0" and "x = code b1 - 0x80" and "y = code b2 - 0x80" and "z = code b3 - 0x80"
    have wxyz: "w < 5" "x < 64" "y < 64" "z < 64" "n = w * 262144 + x * 4096 + y * 64 + z"
        "code c = 0xF0 + w" "code b1 = 0x80 + x" "code b2 = 0x80 + y" "code b3 = 0x80 + z"
      using r b(6) by (auto simp: w_def x_def y_def z_def)
    have n: "n div 262144 = w" "n div 4096 mod 64 = x" "n div 64 mod 64 = y" "n mod 64 = z"
    proof -
      have e: "n = ((w * 64 + x) * 64 + y) * 64 + z" using wxyz(5) by simp
      show "n div 262144 = w" "n div 4096 mod 64 = x" "n div 64 mod 64 = y" "n mod 64 = z"
        unfolding e div_4096 div_262144 using wxyz(2-4) by (simp_all only: sextet)
    qed
    have lo: "0x10000 \<le> n" using b(3) wxyz by (auto simp: in_range_def split: if_splits)
    have hi: "n \<le> 0x10FFFF" using b(3) wxyz by (auto simp: in_range_def split: if_splits)
    have "encode_rune n = [byte (0xF0 + w), byte (0x80 + x), byte (0x80 + y), byte (0x80 + z)]"
      using lo hi n by (auto simp: encode_rune_def Let_def)
    then have "encode_rune n = [c, b1, b2, b3]" using wxyz(6-9) by (metis byte_code)
    moreover have "decode_rune2 c ([b1, b2, b3] @ t) = None" "decode_rune3 c ([b1, b2, b3] @ t) = None" for t
      using r by (simp_all add: decode_rune2_def decode_rune3_def in_range_def)
    then have "decode_rune c ([b1, b2, b3] @ t) = (n, t)" for t
      using b assms(1) by (simp add: decode_rune_def decode_rune4_def)
    ultimately show ?thesis using b r lo by (intro that [of "[b1, b2, b3]"]) auto
  qed
qed

end
