(* ===== verification/GoJson.thy ===== *)
theory GoJson
  imports GoUtf8
begin

section \<open>JSON as the package \<open>encoding/json\<close> reads and writes it\<close>

text \<open>
  What the program uses of \<open>encoding/json\<close> of Go 1.21: reading a text
  into a value, with the scanner's grammar and its bound on the nesting, and writing a value
  in the compact form that is safe in HTML. Texts and strings are lists of bytes.

  A number of a value is its text. Where the program reads it as a \<open>float64\<close> (into an
  \<open>interface{}\<close>) the conversion is a parameter of the model, from the text to the text that
  is written back, and \<^term>\<open>None\<close> when the number is out of range.
\<close>

datatype json =
    JNull
  | JBool bool
  | JNum gostring
  | JStr gostring
  | JArr "json list"
  | JObj "(gostring \<times> json) list"

subsection \<open>Strings\<close>

definition is_ws :: "char \<Rightarrow> bool" where
  "is_ws c \<longleftrightarrow> c \<in> {CHR '' '', CHR 0x09, CHR 0x0D, CHR 0x0A}"

definition skip_ws :: "gostring \<Rightarrow> gostring" where
  "skip_ws s = dropWhile is_ws s"

text \<open>What stands between the quotes, as it is written, and what follows the closing one.\<close>

fun scan_string :: "gostring \<Rightarrow> (gostring \<times> gostring) option" where
  "scan_string [] = None"
| "scan_string (c # s) =
     (if c = CHR 0x22 then Some ([], s)
      else if c = CHR 0x5C then
        (case s of
           [] \<Rightarrow> None
         | e # s1 \<Rightarrow>
             if e \<in> {CHR ''b'', CHR ''f'', CHR ''n'', CHR ''r'', CHR ''t'', CHR 0x5C, CHR ''/'', CHR 0x22}
             then map_option (\<lambda>(a, r). (c # e # a, r)) (scan_string s1)
             else if e = CHR ''u'' then
               (case s1 of
                  h1 # h2 # h3 # h4 # s2 \<Rightarrow>
                    if list_all (is_digit 16) [h1, h2, h3, h4]
                    then map_option (\<lambda>(a, r). (c # e # h1 # h2 # h3 # h4 # a, r)) (scan_string s2)
                    else None
                | _ \<Rightarrow> None)
             else None)
      else if code c < 0x20 then None
      else map_option (\<lambda>(a, r). (c # a, r)) (scan_string s))"

definition get_u4 :: "gostring \<Rightarrow> (nat \<times> gostring) option" where
  "get_u4 s =
     (case s of
        b # u # h1 # h2 # h3 # h4 # r \<Rightarrow>
          if b = CHR 0x5C \<and> u = CHR ''u'' \<and> list_all (is_digit 16) [h1, h2, h3, h4]
          then Some (digits_value 16 [h1, h2, h3, h4], r) else None
      | _ \<Rightarrow> None)"

definition utf16_pair :: "nat \<Rightarrow> nat \<Rightarrow> nat option" where
  "utf16_pair r1 r2 =
     (if 0xD800 \<le> r1 \<and> r1 < 0xDC00 \<and> 0xDC00 \<le> r2 \<and> r2 < 0xE000
      then Some ((r1 - 0xD800) * 1024 + (r2 - 0xDC00) + 0x10000) else None)"

text \<open>The rune of an escape \<open>\u\<close>, with the second half of a surrogate pair when it follows.\<close>

definition unquote_u :: "nat \<Rightarrow> gostring \<Rightarrow> nat \<times> gostring" where
  "unquote_u rr s =
     (if 0xD800 \<le> rr \<and> rr < 0xE000
      then (case get_u4 s of
              Some (rr1, s1) \<Rightarrow> (case utf16_pair rr rr1 of Some dec \<Rightarrow> (dec, s1) | None \<Rightarrow> (runeError, s))
            | None \<Rightarrow> (runeError, s))
      else (rr, s))"

definition unescape :: "char \<Rightarrow> char" where
  "unescape e =
     (if e = CHR ''b'' then CHR 0x08 else if e = CHR ''f'' then CHR 0x0C else if e = CHR ''n'' then CHR 0x0A
      else if e = CHR ''r'' then CHR 0x0D else if e = CHR ''t'' then CHR 0x09 else e)"

lemma get_u4_shorter: "get_u4 s = Some (n, r) \<Longrightarrow> length r < length s"
  by (auto simp: get_u4_def split: list.splits if_splits)

lemma unquote_u_shorter: "length (snd (unquote_u n s)) \<le> length s"
  by (auto simp: unquote_u_def split: option.split dest: get_u4_shorter)

lemma unquote_u_less: "(n, r) = unquote_u m s \<Longrightarrow> length s < Suc k \<Longrightarrow> length r < Suc k"
  by (metis order_le_less_trans snd_conv unquote_u_shorter)

function unquote :: "gostring \<Rightarrow> gostring" where
  "unquote [] = []"
| "unquote (c # s) =
     (if c = CHR 0x5C then
        (case get_u4 (c # s) of
           Some (rr, s1) \<Rightarrow> (let (n, s2) = unquote_u rr s1 in encode_rune n @ unquote s2)
         | None \<Rightarrow> (case s of [] \<Rightarrow> [] | e # s1 \<Rightarrow> unescape e # unquote s1))
      else (let (n, s1) = decode_rune c s in encode_rune n @ unquote s1))"
  by pat_completeness auto

termination
  by (relation "measure length")
    (auto dest!: get_u4_shorter dest: decode_rune_less unquote_u_less)

text \<open>Writing a string: \<open>"\<close>, \<open>\\<close>, control characters, \<open><\<close>, \<open>>\<close>, \<open>&\<close>, the two line
  separators of Unicode and bytes that are not UTF-8 are escaped.\<close>

definition hex_digits :: "nat \<Rightarrow> gostring" where
  "hex_digits n = [digit_char (n div 16 mod 16), digit_char (n mod 16)]"

definition escape_ascii :: "char \<Rightarrow> gostring" where
  "escape_ascii c =
     (if c = CHR 0x5C \<or> c = CHR 0x22 then [CHR 0x5C, c]
      else if c = CHR 0x0A then [CHR 0x5C, CHR ''n'']
      else if c = CHR 0x0D then [CHR 0x5C, CHR ''r'']
      else if c = CHR 0x09 then [CHR 0x5C, CHR ''t'']
      else if code c < 0x20 \<or> c \<in> {CHR ''<'', CHR ''>'', CHR ''&''}
        then [CHR 0x5C, CHR ''u'', CHR ''0'', CHR ''0''] @ hex_digits (code c)
      else [c])"

function escape :: "gostring \<Rightarrow> gostring" where
  "escape [] = []"
| "escape (c # s) =
     (if code c < 0x80 then escape_ascii c @ escape s
      else let (n, s1) = decode_rune c s in
        (if n = runeError \<and> s1 = s then CHR 0x5C # ''ufffd''
         else if n = 0x2028 \<or> n = 0x2029 then CHR 0x5C # ''u202'' @ [digit_char (n mod 16)]
         else take (length (c # s) - length s1) (c # s)) @ escape s1)"
  by pat_completeness auto

termination
  by (relation "measure length") (auto dest: decode_rune_less)

definition quote :: "gostring \<Rightarrow> gostring" where
  "quote s = [CHR 0x22] @ escape s @ [CHR 0x22]"

subsection \<open>Numbers\<close>

definition scan_int :: "gostring \<Rightarrow> (gostring \<times> gostring) option" where
  "scan_int s =
     (case s of
        [] \<Rightarrow> None
      | c # r \<Rightarrow> if c = CHR ''0'' then Some ([c], r)
                 else if is_digit 10 c then Some (takeWhile (is_digit 10) s, dropWhile (is_digit 10) s)
                 else None)"

definition scan_frac :: "gostring \<Rightarrow> (gostring \<times> gostring) option" where
  "scan_frac s =
     (case s of
        [] \<Rightarrow> Some ([], s)
      | c # r \<Rightarrow> if c = CHR ''.''
                 then (if takeWhile (is_digit 10) r = [] then None
                       else Some (c # takeWhile (is_digit 10) r, dropWhile (is_digit 10) r))
                 else Some ([], s))"

definition scan_exp :: "gostring \<Rightarrow> (gostring \<times> gostring) option" where
  "scan_exp s =
     (case s of
        [] \<Rightarrow> Some ([], s)
      | c # r \<Rightarrow>
          if c = CHR ''e'' \<or> c = CHR ''E'' then
            (let (sign, ds) = (case r of
                 [] \<Rightarrow> ([], r)
               | g # t \<Rightarrow> if g = CHR ''+'' \<or> g = CHR ''-'' then ([g], t) else ([], r))
             in if takeWhile (is_digit 10) ds = [] then None
                else Some (c # sign @ takeWhile (is_digit 10) ds, dropWhile (is_digit 10) ds))
          else Some ([], s))"

definition scan_number :: "gostring \<Rightarrow> (gostring \<times> gostring) option" where
  "scan_number s = do {
     let (sign, s0) = (case s of [] \<Rightarrow> ([], s) | c # r \<Rightarrow> if c = CHR ''-'' then ([c], r) else ([], s));
     (i, s1) \<leftarrow> scan_int s0;
     (f, s2) \<leftarrow> scan_frac s1;
     (e, s3) \<leftarrow> scan_exp s2;
     Some (sign @ i @ f @ e, s3) }"

subsection \<open>Values\<close>

definition map_fst :: "('a \<Rightarrow> 'b) \<Rightarrow> ('a \<times> 'r) option \<Rightarrow> ('b \<times> 'r) option" where
  "map_fst f x = (case x of None \<Rightarrow> None | Some (a, r) \<Rightarrow> Some (f a, r))"

definition scan_word :: "gostring \<Rightarrow> json \<Rightarrow> gostring \<Rightarrow> (json \<times> gostring) option" where
  "scan_word w v s = (if HasPrefix s w then Some (v, drop (length w) s) else None)"

text \<open>
  The first argument bounds the length of the recursion (twice the length of the text is
  enough, lemma \<open>parse_fuel\<close>), the second is the nesting so far, which the scanner bounds.
\<close>

definition maxNestingDepth :: int where
  "maxNestingDepth = 10000"

fun parse_value :: "nat \<Rightarrow> int \<Rightarrow> gostring \<Rightarrow> (json \<times> gostring) option"
  and parse_elems :: "nat \<Rightarrow> int \<Rightarrow> gostring \<Rightarrow> (json list \<times> gostring) option"
  and parse_members :: "nat \<Rightarrow> int \<Rightarrow> gostring \<Rightarrow> ((gostring \<times> json) list \<times> gostring) option" where
  "parse_value 0 d s = None"
| "parse_value (Suc n) d s =
     (case skip_ws s of
        [] \<Rightarrow> None
      | c # r \<Rightarrow>
          if c = CHR ''{'' then
            (if maxNestingDepth \<le> d then None
             else case skip_ws r of
                    [] \<Rightarrow> None
                  | c1 # r1 \<Rightarrow> if c1 = CHR ''}'' then Some (JObj [], r1) else map_fst JObj (parse_members n (d + 1) r))
          else if c = CHR ''['' then
            (if maxNestingDepth \<le> d then None
             else case skip_ws r of
                    [] \<Rightarrow> None
                  | c1 # r1 \<Rightarrow> if c1 = CHR '']'' then Some (JArr [], r1) else map_fst JArr (parse_elems n (d + 1) r))
          else if c = CHR 0x22 then map_fst (\<lambda>q. JStr (unquote q)) (scan_string r)
          else if c = CHR ''t'' then scan_word ''true'' (JBool True) (c # r)
          else if c = CHR ''f'' then scan_word ''false'' (JBool False) (c # r)
          else if c = CHR ''n'' then scan_word ''null'' JNull (c # r)
          else map_fst JNum (scan_number (c # r)))"
| "parse_elems 0 d s = None"
| "parse_elems (Suc n) d s =
     (case parse_value n d s of
        None \<Rightarrow> None
      | Some (v, r) \<Rightarrow>
          (case skip_ws r of
             [] \<Rightarrow> None
           | c # r1 \<Rightarrow>
               if c = CHR '','' then map_fst ((#) v) (parse_elems n d r1)
               else if c = CHR '']'' then Some ([v], r1)
               else None))"
| "parse_members 0 d s = None"
| "parse_members (Suc n) d s =
     (case skip_ws s of
        [] \<Rightarrow> None
      | c # r \<Rightarrow>
          if c = CHR 0x22 then
            (case scan_string r of
               None \<Rightarrow> None
             | Some (k, r1) \<Rightarrow>
                 (case skip_ws r1 of
                    [] \<Rightarrow> None
                  | c2 # r2 \<Rightarrow>
                      if c2 = CHR '':'' then
                        (case parse_value n d r2 of
                           None \<Rightarrow> None
                         | Some (v, r3) \<Rightarrow>
                             (case skip_ws r3 of
                                [] \<Rightarrow> None
                              | c4 # r4 \<Rightarrow>
                                  if c4 = CHR '','' then map_fst ((#) (unquote k, v)) (parse_members n d r4)
                                  else if c4 = CHR ''}'' then Some ([(unquote k, v)], r4)
                                  else None))
                      else None))
          else None)"

definition json_parse :: "gostring \<Rightarrow> json option" where
  "json_parse s =
     (case parse_value (2 * length s + 2) 0 s of
        None \<Rightarrow> None
      | Some (v, r) \<Rightarrow> if skip_ws r = [] then Some v else None)"

fun json_marshal :: "json \<Rightarrow> gostring"
  and marshal_elems :: "json list \<Rightarrow> gostring"
  and marshal_members :: "(gostring \<times> json) list \<Rightarrow> gostring" where
  "json_marshal JNull = ''null''"
| "json_marshal (JBool b) = (if b then ''true'' else ''false'')"
| "json_marshal (JNum t) = t"
| "json_marshal (JStr s) = quote s"
| "json_marshal (JArr vs) = ''['' @ marshal_elems vs @ '']''"
| "json_marshal (JObj ms) = ''{'' @ marshal_members ms @ ''}''"
| "marshal_elems [] = []"
| "marshal_elems [v] = json_marshal v"
| "marshal_elems (v # w # vs) = json_marshal v @ '','' @ marshal_elems (w # vs)"
| "marshal_members [] = []"
| "marshal_members [(k, v)] = quote k @ '':'' @ json_marshal v"
| "marshal_members ((k, v) # m # ms) = quote k @ '':'' @ json_marshal v @ '','' @ marshal_members (m # ms)"

text \<open>
  A value read into an \<open>interface{}\<close>: numbers become \<open>float64\<close>, of equal keys of an object the
  last wins, and the keys are kept sorted, as writing the map sorts them.
\<close>

fun str_less :: "gostring \<Rightarrow> gostring \<Rightarrow> bool" where
  "str_less s [] = False"
| "str_less [] (c # t) = True"
| "str_less (b # s) (c # t) = (if b = c then str_less s t else code b < code c)"

fun put_member :: "gostring \<Rightarrow> json \<Rightarrow> (gostring \<times> json) list \<Rightarrow> (gostring \<times> json) list" where
  "put_member k v [] = [(k, v)]"
| "put_member k v ((l, w) # ms) =
     (if k = l then (k, v) # ms
      else if str_less k l then (k, v) # (l, w) # ms
      else (l, w) # put_member k v ms)"

fun iface :: "(gostring \<Rightarrow> gostring option) \<Rightarrow> json \<Rightarrow> json option"
  and iface_elems :: "(gostring \<Rightarrow> gostring option) \<Rightarrow> json list \<Rightarrow> json list option"
  and iface_members :: "(gostring \<Rightarrow> gostring option) \<Rightarrow> (gostring \<times> json) list \<Rightarrow>
    (gostring \<times> json) list \<Rightarrow> (gostring \<times> json) list option" where
  "iface num JNull = Some JNull"
| "iface num (JBool b) = Some (JBool b)"
| "iface num (JNum t) = map_option JNum (num t)"
| "iface num (JStr s) = Some (JStr s)"
| "iface num (JArr vs) = map_option JArr (iface_elems num vs)"
| "iface num (JObj ms) = map_option JObj (iface_members num ms [])"
| "iface_elems num [] = Some []"
| "iface_elems num (v # vs) = do { w \<leftarrow> iface num v; ws \<leftarrow> iface_elems num vs; Some (w # ws) }"
| "iface_members num [] acc = Some acc"
| "iface_members num ((k, v) # ms) acc = do { w \<leftarrow> iface num v; iface_members num ms (put_member k w acc) }"

subsection \<open>Reading ends\<close>

lemma skip_ws_le: "length (skip_ws s) \<le> length s"
  by (simp add: skip_ws_def length_dropWhile_le)

lemma skip_ws_shorter: "skip_ws s = c # r \<Longrightarrow> length r < length s"
  using skip_ws_le [of s] by simp

lemma scan_string_shorter: "scan_string s = Some (a, r) \<Longrightarrow> length r < length s"
proof (induction s arbitrary: a r rule: scan_string.induct)
  case (2 c s)
  then show ?case by (fastforce split: if_splits list.splits)
qed simp

lemma scan_int_shorter: "scan_int s = Some (a, r) \<Longrightarrow> length r < length s"
  by (auto simp: scan_int_def le_imp_less_Suc length_dropWhile_le split: list.splits if_splits)

lemma scan_frac_shorter: "scan_frac s = Some (a, r) \<Longrightarrow> length r \<le> length s"
  by (auto simp: scan_frac_def le_SucI length_dropWhile_le split: list.splits if_splits)

lemma scan_exp_shorter: "scan_exp s = Some (a, r) \<Longrightarrow> length r \<le> length s"
  by (auto simp: scan_exp_def Let_def split: list.splits if_splits prod.splits)
    (meson le_SucI length_dropWhile_le le_trans)+

lemma scan_number_shorter: "scan_number s = Some (a, r) \<Longrightarrow> length r < length s"
  by (force simp: scan_number_def bind_eq_Some_conv split: list.splits if_splits prod.splits
      dest: scan_int_shorter scan_frac_shorter scan_exp_shorter)

lemma map_fst_Some: "map_fst f x = Some (b, r) \<longleftrightarrow> (\<exists>a. x = Some (a, r) \<and> b = f a)"
  by (auto simp: map_fst_def split: option.splits)

lemma scan_word_shorter: "scan_word (c # w) v s = Some (a, r) \<Longrightarrow> length r < length s"
  by (cases s) (auto simp: scan_word_def split: if_splits)

lemma parse_shorter:
  "(\<forall>d s v r. parse_value n d s = Some (v, r) \<longrightarrow> length r < length s) \<and>
   (\<forall>d s vs r. parse_elems n d s = Some (vs, r) \<longrightarrow> length r < length s) \<and>
   (\<forall>d s ms r. parse_members n d s = Some (ms, r) \<longrightarrow> length r < length s)"
proof (induction n)
  case (Suc n)
  then have elems: "parse_elems n d s = Some (vs, r) \<Longrightarrow> length r < length s"
    and members: "parse_members n d s = Some (ms, r) \<Longrightarrow> length r < length s"
    and val: "parse_value n d s = Some (v, r) \<Longrightarrow> length r < length s" for d s v vs ms r
    by blast+
  have "length r < length s" if p: "parse_value (Suc n) d s = Some (v, r)" for d s v r
  proof (cases "skip_ws s")
    case (Cons c t)
    then have t: "length t < length s" by (rule skip_ws_shorter)
    have "length r < length (c # t)"
      using p Cons
      by (auto simp: map_fst_Some split: if_splits list.splits
          dest: skip_ws_shorter elems members scan_string_shorter scan_word_shorter scan_number_shorter)
    then show ?thesis using t by simp
  qed (use p in simp)
  moreover have "length r < length s" if "parse_elems (Suc n) d s = Some (vs, r)" for d s vs r
    using that by (fastforce simp: map_fst_Some split: if_splits list.splits option.splits dest: skip_ws_shorter elems val)
  moreover have "length r < length s" if "parse_members (Suc n) d s = Some (ms, r)" for d s ms r
    using that
    by (fastforce simp: map_fst_Some split: if_splits list.splits option.splits
        dest: skip_ws_shorter members val scan_string_shorter)
  ultimately show ?case by blast
qed simp

lemmas parse_value_shorter = parse_shorter [THEN conjunct1, rule_format]
lemmas parse_elems_shorter = parse_shorter [THEN conjunct2, THEN conjunct1, rule_format]
lemmas parse_members_shorter = parse_shorter [THEN conjunct2, THEN conjunct2, rule_format]

text \<open>Fuel beyond twice the length of the text changes nothing.\<close>

lemma parse_fuel:
  "(\<forall>d s. 2 * length s < n \<longrightarrow> 2 * length s < m \<longrightarrow> parse_value n d s = parse_value m d s) \<and>
   (\<forall>d s. 2 * length s + 1 < n \<longrightarrow> 2 * length s + 1 < m \<longrightarrow> parse_elems n d s = parse_elems m d s) \<and>
   (\<forall>d s. 2 * length s + 1 < n \<longrightarrow> 2 * length s + 1 < m \<longrightarrow> parse_members n d s = parse_members m d s)"
proof (induction n arbitrary: m)
  case (Suc n)
  show ?case
  proof (cases m)
    case (Suc k)
    have val: "parse_value n d s = parse_value k d s" if "2 * length s < n" "2 * length s < k" for d s
      using Suc.IH [of k] that by blast
    have elems: "parse_elems n d s = parse_elems k d s" if "2 * length s + 1 < n" "2 * length s + 1 < k" for d s
      using Suc.IH [of k] that by blast
    have members: "parse_members n d s = parse_members k d s" if "2 * length s + 1 < n" "2 * length s + 1 < k" for d s
      using Suc.IH [of k] that by blast
    have "parse_value (Suc n) d s = parse_value (Suc k) d s"
      if len: "2 * length s < Suc n" "2 * length s < Suc k" for d s
    proof (cases "skip_ws s")
      case (Cons c t)
      then have "length t < length s" by (rule skip_ws_shorter)
      then have "parse_elems n (d + 1) t = parse_elems k (d + 1) t"
        "parse_members n (d + 1) t = parse_members k (d + 1) t"
        using len elems members by simp_all
      then show ?thesis using Cons by (simp split: list.split)
    qed simp
    moreover have "parse_elems (Suc n) d s = parse_elems (Suc k) d s"
      if len: "2 * length s + 1 < Suc n" "2 * length s + 1 < Suc k" for d s
    proof -
      have "parse_value n d s = parse_value k d s" using val len by simp
      moreover have "parse_elems n d r1 = parse_elems k d r1"
        if "parse_value k d s = Some (v, r)" "skip_ws r = c # r1" for v r c r1
        using parse_value_shorter [OF that(1)] skip_ws_shorter [OF that(2)] len elems by simp
      ultimately show ?thesis by (simp split: option.split list.split)
    qed
    moreover have "parse_members (Suc n) d s = parse_members (Suc k) d s"
      if len: "2 * length s + 1 < Suc n" "2 * length s + 1 < Suc k" for d s
    proof -
      have "parse_value n d r2 = parse_value k d r2 \<and>
          (\<forall>v r3 c4 r4. parse_value k d r2 = Some (v, r3) \<longrightarrow> skip_ws r3 = c4 # r4 \<longrightarrow>
             parse_members n d r4 = parse_members k d r4)"
        if "skip_ws s = c # r" "scan_string r = Some (q, r1)" "skip_ws r1 = c2 # r2" for c r q r1 c2 r2
      proof -
        have "length r2 < length s"
          using skip_ws_shorter [OF that(1)] scan_string_shorter [OF that(2)] skip_ws_shorter [OF that(3)] by simp
        then show ?thesis using val members len by (fastforce dest: parse_value_shorter skip_ws_shorter)
      qed
      then show ?thesis by (simp split: option.split list.split)
    qed
    ultimately show ?thesis using Suc by auto
  qed simp
qed simp

subsection \<open>Reading what was written\<close>

lemma is_digit_hex_digits: "list_all (is_digit 16) (hex_digits n)"
  by (simp add: hex_digits_def)

lemma hex_digits_value: "n < 256 \<Longrightarrow> digits_value 16 (CHR ''0'' # CHR ''0'' # hex_digits n) = n"
  by (simp add: hex_digits_def digits_value_def) (simp add: digit_val_def)

lemma scan_escape_ascii:
  "scan_string (escape_ascii c @ t) = map_option (\<lambda>(a, r). (escape_ascii c @ a, r)) (scan_string t)"
proof -
  have "is_digit 16 (CHR ''0'')" by code_simp
  then show ?thesis
    using is_digit_hex_digits [of "code c"]
    by (auto simp: escape_ascii_def hex_digits_def option.map_comp comp_def split_def)
qed

lemma unquote_plain: "c \<noteq> CHR 0x5C \<Longrightarrow> code c < 0x80 \<Longrightarrow> unquote (c # t) = c # unquote t"
  by simp

lemma unquote_escape_ascii:
  assumes "code c < 0x80"
  shows "unquote (escape_ascii c @ t) = c # unquote t"
proof -
  have zero: "is_digit 16 (CHR ''0'')" by code_simp
  have hex: "get_u4 (CHR 0x5C # CHR ''u'' # CHR ''0'' # CHR ''0'' # hex_digits (code c) @ t) = Some (code c, t)"
    using is_digit_hex_digits [of "code c"] hex_digits_value [OF code_less_256, of c] zero
    by (simp add: get_u4_def hex_digits_def)
  have plain: "unquote_u (code c) t = (code c, t)" using assms by (simp add: unquote_u_def)
  have no_u4: "get_u4 (CHR 0x5C # e # t) = None" if "e \<noteq> CHR ''u''" for e
    using that by (simp add: get_u4_def split: list.split)
  show ?thesis
    using assms hex plain
    by (auto simp: escape_ascii_def no_u4 unescape_def unquote_plain)
qed

text \<open>Bytes of such a rune stand in a string as they are.\<close>

lemma scan_high:
  "list_all (\<lambda>b. 0x80 \<le> code b) bs \<Longrightarrow> scan_string (bs @ t) = map_option (\<lambda>(a, r). (bs @ a, r)) (scan_string t)"
proof (induction bs)
  case Nil
  then show ?case by (cases "scan_string t") auto
next
  case (Cons b bs)
  have "b \<noteq> CHR 0x22" "b \<noteq> CHR 0x5C" "\<not> code b < 0x20"
    using Cons.prems by (auto simp: code_def)
  then show ?case using Cons by (simp add: option.map_comp comp_def split_def)
qed

definition line_separator :: "nat \<Rightarrow> gostring" where
  "line_separator n = CHR 0x5C # ''u202'' @ [digit_char (n mod 16)]"

lemma separator_char: "n = 0x2028 \<or> n = 0x2029 \<Longrightarrow> line_separator n = CHR 0x5C # ''u202'' @ [if n = 0x2028 then CHR ''8'' else CHR ''9'']"
proof -
  have "digit_char 8 = CHR ''8''" "digit_char 9 = CHR ''9''" by code_simp+
  then show "n = 0x2028 \<or> n = 0x2029 \<Longrightarrow> ?thesis" by (auto simp: line_separator_def)
qed

lemma scan_separator:
  assumes "n = 0x2028 \<or> n = 0x2029"
  shows "scan_string (line_separator n @ t) = map_option (\<lambda>(a, r). (line_separator n @ a, r)) (scan_string t)"
proof -
  have "is_digit 16 (CHR ''2'')" "is_digit 16 (CHR ''0'')" "is_digit 16 (CHR ''8'')" "is_digit 16 (CHR ''9'')" by code_simp+
  then show ?thesis unfolding separator_char [OF assms] by (simp add: option.map_comp comp_def split_def)
qed

lemma unquote_separator:
  assumes "n = 0x2028 \<or> n = 0x2029"
  shows "unquote (line_separator n @ t) = encode_rune n @ unquote t"
proof -
  have d: "is_digit 16 (CHR ''2'')" "is_digit 16 (CHR ''0'')" "is_digit 16 (CHR ''8'')" "is_digit 16 (CHR ''9'')" by code_simp+
  have v: "digits_value 16 ''2028'' = 0x2028" "digits_value 16 ''2029'' = 0x2029" by code_simp+
  have "get_u4 (line_separator n @ t) = Some (n, t)"
    unfolding separator_char [OF assms] using d v assms by (auto simp: get_u4_def)
  moreover have "unquote_u n t = (n, t)" using assms by (auto simp: unquote_u_def)
  moreover obtain u where "line_separator n = CHR 0x5C # u" by (simp add: line_separator_def)
  ultimately show ?thesis by simp
qed

text \<open>One rune of a string at a time.\<close>

lemma escape_wide:
  assumes "0x80 \<le> code c" and "decode_rune c s = (n, r)" and "r \<noteq> s"
  shows "escape (c # s) = (if n = 0x2028 \<or> n = 0x2029 then line_separator n else encode_rune n) @ escape r"
proof -
  from decode_rune_wide [OF assms] obtain bs where bs: "s = bs @ r" "bs \<noteq> []" "encode_rune n = c # bs" by blast
  have "take (length (c # s) - length r) (c # s) = c # bs" using bs(1) by simp
  then show ?thesis using assms bs(3) by (simp add: line_separator_def)
qed

lemma scan_escape: "utf8 s \<Longrightarrow> scan_string (escape s @ CHR 0x22 # t) = Some (escape s, t)"
proof (induction s rule: utf8.induct)
  case (2 c s)
  show ?case
  proof (cases "code c < 0x80")
    case True
    then show ?thesis using 2 scan_escape_ascii [of c "escape s @ CHR 0x22 # t"] by simp
  next
    case wide: False
    obtain n r where d: "decode_rune c s = (n, r)" by (cases "decode_rune c s")
    then have ok: "r \<noteq> s" "utf8 r" using 2(3) wide by auto
    have IH: "scan_string (escape r @ CHR 0x22 # t) = Some (escape r, t)" using 2(2) [OF wide d [symmetric] refl] ok by simp
    from decode_rune_wide [OF _ d ok(1)] wide obtain bs where bs: "encode_rune n = c # bs" "list_all (\<lambda>b. 0x80 \<le> code b) bs"
      by (metis linorder_not_less)
    have "list_all (\<lambda>b. 0x80 \<le> code b) (encode_rune n)" using bs wide by simp
    note hi = scan_high [OF this, of "escape r @ CHR 0x22 # t"]
    show ?thesis
      using escape_wide [OF _ d ok(1)] wide IH hi scan_separator [of n "escape r @ CHR 0x22 # t"]
      by (simp del: escape.simps)
  qed
qed simp

lemma unquote_encode:
  assumes "0x80 \<le> code c" and "decode_rune c s = (n, r)" and "r \<noteq> s"
  shows "unquote (encode_rune n @ t) = encode_rune n @ unquote t"
proof -
  from decode_rune_wide [OF assms] obtain bs where bs: "encode_rune n = c # bs" "\<And>t. decode_rune c (bs @ t) = (n, t)" by blast
  have "c \<noteq> CHR 0x5C" using assms(1) by (auto simp: code_def)
  then show ?thesis using bs by simp
qed

lemma unquote_escape: "utf8 s \<Longrightarrow> unquote (escape s) = s"
proof (induction s rule: utf8.induct)
  case (2 c s)
  show ?case
  proof (cases "code c < 0x80")
    case True
    then show ?thesis using 2 unquote_escape_ascii [of c "escape s"] by (simp del: unquote.simps(2))
  next
    case wide: False
    obtain n r where d: "decode_rune c s = (n, r)" by (cases "decode_rune c s")
    then have ok: "r \<noteq> s" "utf8 r" using 2(3) wide by auto
    have IH: "unquote (escape r) = r" using 2(2) [OF wide d [symmetric] refl] ok by simp
    have w: "0x80 \<le> code c" using wide by simp
    from decode_rune_wide [OF w d ok(1)] obtain bs where bs: "s = bs @ r" "encode_rune n = c # bs" by blast
    then have cs: "c # s = encode_rune n @ r" by simp
    show ?thesis
      using escape_wide [OF w d ok(1)] IH unquote_separator [of n "escape r"] unquote_encode [OF w d ok(1), of "escape r"] cs
      by (simp del: escape.simps unquote.simps)
  qed
qed simp

text \<open>
  Values that are read back: strings and keys in UTF-8, number texts that are numbers, and
  no deeper than the scanner allows.
\<close>

fun json_ok :: "int \<Rightarrow> json \<Rightarrow> bool"
  and elems_ok :: "int \<Rightarrow> json list \<Rightarrow> bool"
  and members_ok :: "int \<Rightarrow> (gostring \<times> json) list \<Rightarrow> bool" where
  "json_ok d JNull = True"
| "json_ok d (JBool b) = True"
| "json_ok d (JNum t) = (scan_number t = Some (t, []))"
| "json_ok d (JStr s) = utf8 s"
| "json_ok d (JArr vs) = (d < maxNestingDepth \<and> elems_ok (d + 1) vs)"
| "json_ok d (JObj ms) = (d < maxNestingDepth \<and> members_ok (d + 1) ms)"
| "elems_ok d [] = True"
| "elems_ok d (v # vs) = (json_ok d v \<and> elems_ok d vs)"
| "members_ok d [] = True"
| "members_ok d ((k, v) # ms) = (utf8 k \<and> json_ok d v \<and> members_ok d ms)"

definition ends_value :: "gostring \<Rightarrow> bool" where
  "ends_value t \<longleftrightarrow> t = [] \<or> hd t \<in> {CHR '','', CHR '']'', CHR ''}''}"

lemma not_digit_ends [simp]:
  "\<not> is_digit 10 (CHR '','')" "\<not> is_digit 10 (CHR '']'')" "\<not> is_digit 10 (CHR ''}'')"
  "\<not> is_digit 10 (CHR ''.'')" "\<not> is_digit 10 (CHR ''e'')" "\<not> is_digit 10 (CHR ''E'')"
  "\<not> is_digit 10 (CHR ''+'')" "\<not> is_digit 10 (CHR ''-'')"
  by code_simp+

lemma digits_ends:
  "ends_value t \<Longrightarrow> takeWhile (is_digit 10) (s @ t) = takeWhile (is_digit 10) s"
  "ends_value t \<Longrightarrow> dropWhile (is_digit 10) (s @ t) = dropWhile (is_digit 10) s @ t"
proof -
  assume "ends_value t"
  then have "t = [] \<or> \<not> is_digit 10 (hd t)" by (auto simp: ends_value_def)
  then show "takeWhile (is_digit 10) (s @ t) = takeWhile (is_digit 10) s"
    "dropWhile (is_digit 10) (s @ t) = dropWhile (is_digit 10) s @ t"
    by (cases t; induction s; simp)+
qed

lemma scan_int_append: "ends_value t \<Longrightarrow> scan_int s = Some (a, r) \<Longrightarrow> scan_int (s @ t) = Some (a, r @ t)"
  using digits_ends [of t s] by (auto simp: scan_int_def split: list.splits if_splits)

lemma scan_frac_append: "ends_value t \<Longrightarrow> scan_frac s = Some (a, r) \<Longrightarrow> scan_frac (s @ t) = Some (a, r @ t)"
  using digits_ends [of t "tl s"]
  by (cases s) (auto simp: scan_frac_def ends_value_def split: list.splits if_splits)

lemma scan_exp_append: "ends_value t \<Longrightarrow> scan_exp s = Some (a, r) \<Longrightarrow> scan_exp (s @ t) = Some (a, r @ t)"
  using digits_ends [of t "tl s"] digits_ends [of t "tl (tl s)"]
  by (cases s; cases "tl s") (auto simp: scan_exp_def ends_value_def split: list.splits if_splits)

lemma scan_number_append:
  assumes "ends_value t" and "scan_number s = Some (a, r)"
  shows "scan_number (s @ t) = Some (a, r @ t)"
proof (cases s)
  case Nil
  then show ?thesis using assms(2) by (simp add: scan_number_def scan_int_def)
next
  case (Cons c u)
  note app = scan_int_append [OF assms(1)] scan_frac_append [OF assms(1)] scan_exp_append [OF assms(1)]
  show ?thesis
  proof (cases "c = CHR ''-''")
    case True
    then obtain i s1 f s2 e where "scan_int u = Some (i, s1)" "scan_frac s1 = Some (f, s2)" "scan_exp s2 = Some (e, r)"
        "a = c # i @ f @ e"
      using assms(2) by (auto simp: scan_number_def Cons bind_eq_Some_conv)
    then show ?thesis using True by (simp add: scan_number_def Cons app)
  next
    case False
    then obtain i s1 f s2 e where "scan_int (c # u) = Some (i, s1)" "scan_frac s1 = Some (f, s2)" "scan_exp s2 = Some (e, r)"
        "a = i @ f @ e"
      using assms(2) by (auto simp: scan_number_def Cons bind_eq_Some_conv)
    then show ?thesis using False app(1) [of "c # u"] by (simp add: scan_number_def Cons app)
  qed
qed

text \<open>A text of a value starts with none of the characters that end one.\<close>

lemma scan_number_first: "scan_number (c # s) = Some x \<Longrightarrow> c = CHR ''-'' \<or> is_digit 10 c"
  by (auto simp: scan_number_def scan_int_def is_digit_def digit_val_def split: if_splits)

lemma number_first:
  assumes "scan_number s = Some x"
  obtains c r where "s = c # r" "\<not> is_ws c"
    "c \<notin> {CHR '']'', CHR ''}'', CHR ''{'', CHR ''['', CHR 0x22, CHR ''t'', CHR ''f'', CHR ''n''}"
proof (cases s)
  case Nil
  then show ?thesis using assms by (simp add: scan_number_def scan_int_def)
next
  case (Cons c r)
  have "c = CHR ''-'' \<or> is_digit 10 c" using assms unfolding Cons by (rule scan_number_first)
  then have "\<not> is_ws c \<and> c \<notin> {CHR '']'', CHR ''}'', CHR ''{'', CHR ''['', CHR 0x22, CHR ''t'', CHR ''f'', CHR ''n''}"
    by (auto simp: is_ws_def is_digit_def digit_val_def)
  then show ?thesis using that [OF Cons] by blast
qed

lemma marshal_first:
  assumes "json_ok d v"
  obtains c r where "json_marshal v = c # r" "\<not> is_ws c" "c \<noteq> CHR '']''"
proof (cases v)
  case (JNum t)
  then have "scan_number t = Some (t, [])" using assms by simp
  then obtain c r where "t = c # r" "\<not> is_ws c" "c \<noteq> CHR '']''" by (rule number_first) auto
  then show ?thesis using that JNum by simp
next
  case (JBool b)
  then show ?thesis using that by (cases b) (auto simp: is_ws_def)
qed (use that in \<open>simp_all add: quote_def is_ws_def\<close>)

lemma skip_ws_first: "\<not> is_ws c \<Longrightarrow> skip_ws (c # s) = c # s"
  by (simp add: skip_ws_def)

lemma not_ws [simp]:
  "\<not> is_ws (CHR '','')" "\<not> is_ws (CHR '']'')" "\<not> is_ws (CHR ''}'')" "\<not> is_ws (CHR '':'')"
  "\<not> is_ws (CHR 0x22)" "\<not> is_ws (CHR ''['')" "\<not> is_ws (CHR ''{'')"
  "\<not> is_ws (CHR ''n'')" "\<not> is_ws (CHR ''t'')" "\<not> is_ws (CHR ''f'')"
  by (simp_all add: is_ws_def)

lemma scan_word_self [simp]: "scan_word w v (w @ t) = Some (v, t)"
  by (simp add: scan_word_def)

lemma parse_quote: "utf8 s \<Longrightarrow> scan_string (escape s @ CHR 0x22 # t) = Some (escape s, t) \<and> unquote (escape s) = s"
  by (simp add: scan_escape unquote_escape)

lemma parse_number:
  assumes "scan_number s = Some (s, [])" "ends_value t"
  shows "parse_value (Suc n) d (s @ t) = Some (JNum s, t)"
proof -
  note st = scan_number_append [OF assms(2,1)]
  obtain c r where c: "s = c # r" "\<not> is_ws c"
      "c \<notin> {CHR '']'', CHR ''}'', CHR ''{'', CHR ''['', CHR 0x22, CHR ''t'', CHR ''f'', CHR ''n''}"
    using assms(1) by (rule number_first)
  have "skip_ws (s @ t) = c # r @ t" using c(1,2) by (simp add: skip_ws_def)
  moreover have "scan_number (c # r @ t) = Some (s, t)" using st c(1) by simp
  ultimately show ?thesis using c(3) by (simp add: map_fst_def)
qed

lemma json_roundtrip_prefix:
  "json_ok d v \<Longrightarrow> ends_value t \<Longrightarrow> 2 * length (json_marshal v @ t) < n \<Longrightarrow>
     parse_value n d (json_marshal v @ t) = Some (v, t)"
  "elems_ok d vs \<Longrightarrow> vs \<noteq> [] \<Longrightarrow> 2 * length (marshal_elems vs @ CHR '']'' # t) + 1 < n \<Longrightarrow>
     parse_elems n d (marshal_elems vs @ CHR '']'' # t) = Some (vs, t)"
  "members_ok d ms \<Longrightarrow> ms \<noteq> [] \<Longrightarrow> 2 * length (marshal_members ms @ CHR ''}'' # t) + 1 < n \<Longrightarrow>
     parse_members n d (marshal_members ms @ CHR ''}'' # t) = Some (ms, t)"
proof (induction v and vs and ms arbitrary: d t n and d t n and d t n
    rule: json_marshal_marshal_elems_marshal_members.induct)
  case 1
  then show ?case by (cases n) (simp_all add: skip_ws_first scan_word_def)
next
  case (2 b)
  then show ?case by (cases n) (simp_all add: skip_ws_first scan_word_def)
next
  case (3 x)
  then show ?case using parse_number by (cases n) (simp_all del: parse_value.simps)
next
  case (4 s)
  then show ?case by (cases n) (simp_all add: quote_def skip_ws_first parse_quote map_fst_def)
next
  case (5 vs)
  then obtain m where m: "n = Suc m" by (cases n) auto
  show ?case
  proof (cases vs)
    case Nil
    then show ?thesis using 5 m by (simp add: skip_ws_first)
  next
    case (Cons v ws)
    then have ok: "json_ok (d + 1) v" "elems_ok (d + 1) vs" "d < maxNestingDepth" using 5 by simp_all
    obtain c r where c: "json_marshal v = c # r" "\<not> is_ws c" "c \<noteq> CHR '']''" by (rule marshal_first [OF ok(1)])
    then obtain r' where "marshal_elems vs = c # r'" using Cons by (cases ws) auto
    then have "skip_ws (marshal_elems vs @ CHR '']'' # t) = c # r' @ CHR '']'' # t" using c by (simp add: skip_ws_first)
    moreover have "parse_elems m (d + 1) (marshal_elems vs @ CHR '']'' # t) = Some (vs, t)"
      using 5 ok Cons m by simp
    ultimately show ?thesis using m ok(3) c(3) by (simp add: skip_ws_first map_fst_def)
  qed
next
  case (6 ms)
  then obtain m where m: "n = Suc m" by (cases n) auto
  show ?case
  proof (cases ms)
    case Nil
    then show ?thesis using 6 m by (simp add: skip_ws_first)
  next
    case (Cons kv ns)
    then obtain r' where "marshal_members ms = CHR 0x22 # r'" by (cases kv; cases ns) (auto simp: quote_def)
    then have "skip_ws (marshal_members ms @ CHR ''}'' # t) = CHR 0x22 # r' @ CHR ''}'' # t" by (simp add: skip_ws_first)
    moreover have "parse_members m (d + 1) (marshal_members ms @ CHR ''}'' # t) = Some (ms, t)"
      using 6 Cons m by simp
    ultimately show ?thesis using m 6(2) by (simp add: skip_ws_first map_fst_def)
  qed
next
  case 7
  then show ?case by simp
next
  case (8 v)
  then obtain m where m: "n = Suc m" by (cases n) auto
  have "parse_value m d (json_marshal v @ CHR '']'' # t) = Some (v, CHR '']'' # t)"
    using 8 m by (simp add: ends_value_def)
  then show ?case using m by (simp add: skip_ws_first)
next
  case (9 v w vs)
  then obtain m where m: "n = Suc m" by (cases n) auto
  have "parse_value m d (json_marshal v @ CHR '','' # marshal_elems (w # vs) @ CHR '']'' # t)
      = Some (v, CHR '','' # marshal_elems (w # vs) @ CHR '']'' # t)"
    using 9 m by (simp add: ends_value_def)
  moreover have "parse_elems m d (marshal_elems (w # vs) @ CHR '']'' # t) = Some (w # vs, t)"
    using 9 m by simp
  ultimately show ?case using m by (simp add: skip_ws_first map_fst_def)
next
  case 10
  then show ?case by simp
next
  case (11 k v)
  then obtain m where m: "n = Suc m" by (cases n) auto
  have "parse_value m d (json_marshal v @ CHR ''}'' # t) = Some (v, CHR ''}'' # t)"
    using 11 m by (simp add: ends_value_def)
  then show ?case using m 11(2) by (simp add: skip_ws_first quote_def parse_quote)
next
  case (12 k v y ms)
  then obtain m where m: "n = Suc m" by (cases n) auto
  have "parse_value m d (json_marshal v @ CHR '','' # marshal_members (y # ms) @ CHR ''}'' # t)
      = Some (v, CHR '','' # marshal_members (y # ms) @ CHR ''}'' # t)"
    using 12 m by (simp add: ends_value_def)
  moreover have "parse_members m d (marshal_members (y # ms) @ CHR ''}'' # t) = Some (y # ms, t)"
    using 12 m by simp
  ultimately show ?case using m 12(3) by (simp add: skip_ws_first quote_def parse_quote map_fst_def)
qed

theorem json_roundtrip: "json_ok 0 v \<Longrightarrow> json_parse (json_marshal v) = Some v"
  using json_roundtrip_prefix(1) [of 0 v "[]" "2 * length (json_marshal v) + 2"]
  by (simp add: json_parse_def ends_value_def skip_ws_def)

subsection \<open>Values of an interface\<close>

text \<open>The keys of every object are strictly sorted, as in the map that Go writes.\<close>

fun json_wf :: "json \<Rightarrow> bool"
  and elems_wf :: "json list \<Rightarrow> bool"
  and members_wf :: "(gostring \<times> json) list \<Rightarrow> bool" where
  "json_wf (JArr vs) = elems_wf vs"
| "json_wf (JObj ms) = (sorted_wrt str_less (map fst ms) \<and> members_wf ms)"
| "json_wf _ = True"
| "elems_wf [] = True"
| "elems_wf (v # vs) = (json_wf v \<and> elems_wf vs)"
| "members_wf [] = True"
| "members_wf ((k, v) # ms) = (json_wf v \<and> members_wf ms)"

lemma code_inject [simp]: "code b = code c \<longleftrightarrow> b = c"
  by (simp add: code_def)

lemma str_less_irrefl [simp]: "\<not> str_less s s"
  by (induction s) auto

lemma str_less_total: "s \<noteq> t \<Longrightarrow> str_less s t \<or> str_less t s"
proof (induction s t rule: str_less.induct)
  case (3 b s c t)
  have "code b < code c \<or> code c < code b \<or> b = c" using code_inject [of b c] by linarith
  then show ?case using 3 by auto
qed (auto simp: neq_Nil_conv)

lemma str_less_trans: "str_less s t \<Longrightarrow> str_less t u \<Longrightarrow> str_less s u"
proof (induction s t arbitrary: u rule: str_less.induct)
  case (2 c t)
  then show ?case by (cases u) auto
next
  case (3 b s c t)
  then show ?case by (cases u) (auto split: if_splits)
qed simp

lemma put_member_keys: "fst ` set (put_member k v ms) = insert k (fst ` set ms)"
  by (induction k v ms rule: put_member.induct) auto

lemma put_member_sorted:
  "sorted_wrt str_less (map fst ms) \<Longrightarrow> sorted_wrt str_less (map fst (put_member k v ms))"
proof (induction k v ms rule: put_member.induct)
  case (2 k v l w ms)
  show ?case
  proof (cases "k = l \<or> str_less k l")
    case True
    then show ?thesis using 2(2) by (auto dest: str_less_trans)
  next
    case False
    then have "str_less l k" using str_less_total by blast
    moreover have "fst ` set (put_member k v ms) = insert k (fst ` set ms)" by (rule put_member_keys)
    moreover have "\<forall>x\<in>fst ` set ms. str_less l x" using 2(2) by simp
    ultimately show ?thesis using False 2 by (simp del: list.set_map)
  qed
qed simp

lemma put_member_wf: "members_wf ms \<Longrightarrow> json_wf v \<Longrightarrow> members_wf (put_member k v ms)"
  by (induction k v ms rule: put_member.induct) auto

lemma map_of_put_member:
  "sorted_wrt str_less (map fst ms) \<Longrightarrow> map_of (put_member k v ms) = (map_of ms)(k \<mapsto> v)"
  by (induction k v ms rule: put_member.induct) (auto simp: fun_upd_twist)

lemma put_member_last: "\<forall>x\<in>fst ` set ms. str_less x k \<Longrightarrow> put_member k v ms = ms @ [(k, v)]"
proof (induction k v ms rule: put_member.induct)
  case (2 k v l w ms)
  then have "str_less l k" by simp
  moreover then have "k \<noteq> l" "\<not> str_less k l" using str_less_irrefl str_less_trans by blast+
  ultimately show ?case using 2 by simp
qed simp

lemma iface_wf:
  "iface num v = Some w \<Longrightarrow> json_wf w"
  "iface_elems num vs = Some ws \<Longrightarrow> elems_wf ws"
  "iface_members num ms acc = Some ns \<Longrightarrow> sorted_wrt str_less (map fst acc) \<Longrightarrow> members_wf acc \<Longrightarrow>
     sorted_wrt str_less (map fst ns) \<and> members_wf ns"
  by (induction num v and num vs and num ms acc arbitrary: w and ws and ns
      rule: iface_iface_elems_iface_members.induct)
    (auto simp: bind_eq_Some_conv put_member_sorted put_member_wf)

text \<open>Reading such a value again changes nothing.\<close>

lemma iface_members_fixed:
  "sorted_wrt str_less (map fst (acc @ ns)) \<Longrightarrow> \<forall>(k, v)\<in>set ns. iface num v = Some v \<Longrightarrow>
   iface_members num ns acc = Some (acc @ ns)"
proof (induction ns arbitrary: acc)
  case (Cons n ns)
  obtain k v where n: "n = (k, v)" by force
  have "\<forall>x\<in>fst ` set acc. str_less x k" using Cons.prems(1) n by (auto simp: sorted_wrt_append)
  then have "put_member k v acc = acc @ [(k, v)]" by (rule put_member_last)
  then show ?case using Cons n by simp
qed simp

lemma put_member_all: "\<forall>(k, v)\<in>set ms. P v \<Longrightarrow> P v \<Longrightarrow> \<forall>(k, v)\<in>set (put_member k v ms). P v"
  by (induction k v ms rule: put_member.induct) auto

lemma iface_fixed:
  assumes "\<And>t u. num t = Some u \<Longrightarrow> num u = Some u"
  shows "iface num v = Some w \<Longrightarrow> iface num w = Some w"
    "iface_elems num vs = Some ws \<Longrightarrow> iface_elems num ws = Some ws"
    "iface_members num ms acc = Some ns \<Longrightarrow> \<forall>(k, v)\<in>set acc. iface num v = Some v \<Longrightarrow>
       \<forall>(k, v)\<in>set ns. iface num v = Some v"
  using assms
proof (induction num v and num vs and num ms acc arbitrary: w and ws and ns
    rule: iface_iface_elems_iface_members.induct)
  case (6 num ms)
  then obtain ns where ns: "iface_members num ms [] = Some ns" "w = JObj ns" by auto
  then have "\<forall>(k, v)\<in>set ns. iface num v = Some v" using 6 by simp
  moreover have "sorted_wrt str_less (map fst ns)" using iface_wf(3) [OF ns(1)] by simp
  ultimately show ?case using iface_members_fixed [of "[]" ns num] ns(2) by simp
next
  case (10 num k v ms acc)
  then obtain w where w: "iface num v = Some w" "iface_members num ms (put_member k w acc) = Some ns"
    by (auto simp: bind_eq_Some_conv)
  then have "iface num w = Some w" using 10 by blast
  then have "\<forall>(l, u)\<in>set (put_member k w acc). iface num u = Some u" using 10 by (intro put_member_all) auto
  then show ?case using 10 w by blast
qed (auto simp: bind_eq_Some_conv)

end
