(* ===== verification/Rpc.thy ===== *)
theory Rpc
  imports Endpoints GoJson
begin

section \<open>The JSON-RPC handler\<close>

text \<open>
  Model of \<open>server/types.go\<close> and \<open>server/handler.go\<close>. A request and a response are what the
  structs hold; a \<open>json.RawMessage\<close> is kept as its value, since the source only reads it
  again, and an absent one is \<^term>\<open>None\<close>. The reflection is over methods whose parameters
  after the receiver are strings, after an optional \<open>*http.Request\<close>, as all endpoints of the
  program are: \<open>gm_http\<close> and \<open>gm_strings\<close> give such a signature. The HTTP request has the
  type \<open>'req\<close>, the state behind the endpoints the type \<open>'st\<close>. \<open>num\<close> reads and writes a number
  as a \<open>float64\<close> (theory \<open>GoJson\<close>).
\<close>

subsection \<open>Requests and responses\<close>

record Request =
  rq_JSONRPC :: gostring
  rq_ID :: json
  rq_Method :: gostring
  rq_Params :: "json option"

record ErrorObject =
  eo_Code :: int
  eo_Message :: gostring
  eo_Data :: "gobytes option"

record Response =
  rs_JSONRPC :: gostring
  rs_Id :: json
  rs_Result :: "json option"
  rs_Error :: "ErrorObject option"

definition NewResponse :: "Request \<Rightarrow> json option \<Rightarrow> ServerError option \<Rightarrow> Response" where
  "NewResponse req reply err =
     \<lparr>rs_JSONRPC = rq_JSONRPC req, rs_Id = rq_ID req, rs_Result = reply,
      rs_Error = map_option (\<lambda>e. \<lparr>eo_Code = se_code e, eo_Message = se_err e, eo_Data = se_data e\<rparr>) err\<rparr>"

text \<open>
  Reading a request: a field is found by its name in any case, of equal fields the last wins,
  \<open>null\<close> leaves a string as it was, and any other value that is not a string is an error.
\<close>

fun fold_key :: "gostring \<Rightarrow> gostring" where
  "fold_key [] = []"
| "fold_key (c # s) =
     (if code c = 0xC5 \<and> s \<noteq> [] \<and> code (hd s) = 0xBF then CHR ''S'' # fold_key (tl s)
      else if code c = 0xE2 \<and> 2 \<le> length s \<and> code (hd s) = 0x84 \<and> code (hd (tl s)) = 0xAA
        then CHR ''K'' # fold_key (tl (tl s))
      else if in_range c 97 122 then byte (code c - 32) # fold_key s
      else c # fold_key s)"

definition decode_string :: "gostring \<Rightarrow> json \<Rightarrow> gostring option" where
  "decode_string old v = (case v of JStr s \<Rightarrow> Some s | JNull \<Rightarrow> Some old | _ \<Rightarrow> None)"

definition set_field :: "(gostring \<Rightarrow> gostring option) \<Rightarrow> gostring \<Rightarrow> json \<Rightarrow> Request \<Rightarrow> Request option" where
  "set_field num k v req =
     (if fold_key k = ''JSONRPC'' then map_option (\<lambda>s. req\<lparr>rq_JSONRPC := s\<rparr>) (decode_string (rq_JSONRPC req) v)
      else if fold_key k = ''ID'' then map_option (\<lambda>j. req\<lparr>rq_ID := j\<rparr>) (iface num v)
      else if fold_key k = ''METHOD'' then map_option (\<lambda>s. req\<lparr>rq_Method := s\<rparr>) (decode_string (rq_Method req) v)
      else if fold_key k = ''PARAMS'' then Some (req\<lparr>rq_Params := Some v\<rparr>)
      else Some req)"

fun set_fields :: "(gostring \<Rightarrow> gostring option) \<Rightarrow> (gostring \<times> json) list \<Rightarrow> Request \<Rightarrow> Request option" where
  "set_fields num [] req = Some req"
| "set_fields num ((k, v) # ms) req = do { req' \<leftarrow> set_field num k v req; set_fields num ms req' }"

definition zero_request :: Request where
  "zero_request = \<lparr>rq_JSONRPC = [], rq_ID = JNull, rq_Method = [], rq_Params = None\<rparr>"

definition decode_request :: "(gostring \<Rightarrow> gostring option) \<Rightarrow> json \<Rightarrow> Request option" where
  "decode_request num v =
     (case v of
        JNull \<Rightarrow> Some zero_request
      | JObj ms \<Rightarrow> set_fields num ms zero_request
      | _ \<Rightarrow> None)"

fun decode_requests :: "(gostring \<Rightarrow> gostring option) \<Rightarrow> json list \<Rightarrow> Request list option" where
  "decode_requests num [] = Some []"
| "decode_requests num (v # vs) = do { r \<leftarrow> decode_request num v; rs \<leftarrow> decode_requests num vs; Some (r # rs) }"

text \<open>Writing a response; \<open>ArgBytes\<close> is a slice of bytes and written in base 64.\<close>

definition base64_digit :: "nat \<Rightarrow> char" where
  "base64_digit n =
     byte (if n < 26 then 65 + n else if n < 52 then 71 + n else if n < 62 then n - 4
           else if n = 62 then 43 else 47)"

fun base64 :: "gobytes \<Rightarrow> gostring" where
  "base64 [] = []"
| "base64 [a] =
     [base64_digit (unat a div 4), base64_digit (unat a mod 4 * 16), CHR ''='', CHR ''='']"
| "base64 [a, b] =
     [base64_digit (unat a div 4), base64_digit (unat a mod 4 * 16 + unat b div 16),
      base64_digit (unat b mod 16 * 4), CHR ''='']"
| "base64 (a # b # c # bs) =
     [base64_digit (unat a div 4), base64_digit (unat a mod 4 * 16 + unat b div 16),
      base64_digit (unat b mod 16 * 4 + unat c div 64), base64_digit (unat c mod 64)] @ base64 bs"

definition format_int :: "int \<Rightarrow> gostring" where
  "format_int i = (if i < 0 then CHR ''-'' # format_nat 10 (nat (- i)) else format_nat 10 (nat i))"

definition error_json :: "ErrorObject \<Rightarrow> json" where
  "error_json e =
     JObj ([(''code'', JNum (format_int (eo_Code e))), (''message'', JStr (eo_Message e))]
           @ (case eo_Data e of None \<Rightarrow> [] | Some b \<Rightarrow> [(''data'', JStr (base64 b))]))"

definition response_json :: "Response \<Rightarrow> json" where
  "response_json r =
     JObj ([(''jsonrpc'', JStr (rs_JSONRPC r)), (''id'', rs_Id r)]
           @ (case rs_Result r of None \<Rightarrow> [] | Some v \<Rightarrow> [(''result'', v)])
           @ (case rs_Error r of None \<Rightarrow> [] | Some e \<Rightarrow> [(''error'', error_json e)]))"

subsection \<open>Registration\<close>

datatype go_type = GtEndpoints | GtHttpRequest | GtString

text \<open>What an endpoint returns as its second value: a \<open>*ServerError\<close> or another error.\<close>

datatype rpc_error = RpcServerError ServerError | RpcOther

type_synonym ('req, 'st) endpoint_fn =
  "'req \<Rightarrow> gostring list \<Rightarrow> 'st \<Rightarrow> ((json option \<times> rpc_error option) \<times> 'st) option"

text \<open>
  A method as the reflection sees it. Of each result it has the name of the type and whether
  that implements the interface \<open>Error\<close>.
\<close>

record ('req, 'st) go_method =
  gm_Name :: gostring
  gm_PkgPath :: gostring
  gm_http :: bool
  gm_strings :: nat
  gm_out :: "(gostring \<times> bool) list"
  gm_Func :: "('req, 'st) endpoint_fn"

definition gm_in :: "('req, 'st) go_method \<Rightarrow> go_type list" where
  "gm_in m = GtEndpoints # (if gm_http m then [GtHttpRequest] else []) @ replicate (gm_strings m) GtString"

record ('req, 'st) endpointData =
  ed_inNum :: nat
  ed_reqt :: "go_type list"
  ed_fv :: "('req, 'st) endpoint_fn"
  ed_isDyn :: bool

type_synonym ('req, 'st) handler = "gostring \<Rightarrow> ('req, 'st) endpointData option"

definition numParams :: "('req, 'st) endpointData \<Rightarrow> nat" where
  "numParams f = ed_inNum f - 1"

definition newJSONRpcHandler :: "('req, 'st) handler" where
  "newJSONRpcHandler = (\<lambda>_. None)"

text \<open>
  \<open>unicode.ToLower\<close>: letters of ASCII by adding 32, other runes by the tables of the package,
  which are the argument \<open>table\<close>.
\<close>

definition unicode_ToLower :: "(nat \<Rightarrow> nat) \<Rightarrow> nat \<Rightarrow> nat" where
  "unicode_ToLower table r =
     (if r \<le> 0x7F then (if 65 \<le> r \<and> r \<le> 90 then r + 32 else r) else table r)"

text \<open>
  The loop over the string returns for its first rune, which starts at byte 0: \<open>str[i+1:]\<close> is the
  string without its first byte, however many bytes that rune has.
\<close>

definition lowerCaseFirst :: "(nat \<Rightarrow> nat) \<Rightarrow> gostring \<Rightarrow> gostring" where
  "lowerCaseFirst table str =
     (case str of
        [] \<Rightarrow> []
      | b # rest \<Rightarrow> (let (v, after) = decode_rune b rest in encode_rune (unicode_ToLower table v) @ rest))"

definition requiredReturnParamsPerFn :: nat where
  "requiredReturnParamsPerFn = 2"

definition validateFunc :: "gostring \<Rightarrow> ('req, 'st) go_method \<Rightarrow> gostring + nat \<times> go_type list" where
  "validateFunc funcName m =
     (if funcName = [] then Inl ''function name cannot be empty''
      else if length (gm_out m) \<noteq> requiredReturnParamsPerFn then
        Inl (''unexpected number of output arguments in the function '' @ [CHR 0x27] @ funcName @ [CHR 0x27]
             @ '', actual: '' @ format_nat 10 (length (gm_out m)) @ '', expected: 2'')
      else if \<not> snd (gm_out m ! 1) then
        Inl (''unexpected type for the second return value of the function '' @ [CHR 0x27] @ funcName @ [CHR 0x27]
             @ '', actual: '' @ [CHR 0x27] @ fst (gm_out m ! 1) @ [CHR 0x27]
             @ '', expected '' @ [CHR 0x27] @ ''server.Error'' @ [CHR 0x27])
      else Inr (length (gm_in m), gm_in m))"

definition new_endpointData :: "nat \<Rightarrow> go_type list \<Rightarrow> ('req, 'st) go_method \<Rightarrow> ('req, 'st) endpointData" where
  "new_endpointData inNum reqt m =
     \<lparr>ed_inNum = inNum, ed_reqt = reqt, ed_fv = gm_Func m,
      ed_isDyn = (inNum - 1 \<noteq> 0 \<and> reqt ! (inNum - 1) \<noteq> GtString)\<rparr>"

fun register_methods :: "(nat \<Rightarrow> nat) \<Rightarrow> ('req, 'st) go_method list \<Rightarrow> ('req, 'st) handler \<Rightarrow> ('req, 'st) handler option" where
  "register_methods table [] funcMap = Some funcMap"
| "register_methods table (m # ms) funcMap =
     (if gm_PkgPath m \<noteq> [] then register_methods table ms funcMap
      else (let name = lowerCaseFirst table (gm_Name m); funcName = ''eth_'' @ name in
        case validateFunc funcName m of
          Inl err \<Rightarrow> None
        | Inr (inNum, reqt) \<Rightarrow> register_methods table ms (funcMap(name \<mapsto> new_endpointData inNum reqt m))))"

text \<open>The panics of a structure that is not a pointer and of an invalid method.\<close>

definition registerEndpoints :: "(nat \<Rightarrow> nat) \<Rightarrow> bool \<Rightarrow> ('req, 'st) go_method list \<Rightarrow> ('req, 'st) handler option" where
  "registerEndpoints table isStruct methods = (if isStruct then None else register_methods table methods newJSONRpcHandler)"

subsection \<open>Handling a request\<close>

definition getFuncHandler :: "('req, 'st) handler \<Rightarrow> Request \<Rightarrow> ServerError + ('req, 'st) endpointData" where
  "getFuncHandler h req =
     (let notFound = NewServerError NotFoundErrorCode
            (''the function '' @ rq_Method req @ '' does not exist or is not available'') in
      case cut_at (CHR ''_'') (rq_Method req) of
        None \<Rightarrow> Inl notFound
      | Some (_, funcName) \<Rightarrow>
          (case h funcName of None \<Rightarrow> Inl notFound | Some fd \<Rightarrow> Inr fd))"

definition getError :: "rpc_error option \<Rightarrow> ServerError option" where
  "getError v =
     (case v of
        None \<Rightarrow> None
      | Some (RpcServerError e) \<Rightarrow> Some e
      | Some RpcOther \<Rightarrow> Some (NewServerError DefaultErrorCode ''runtime error''))"

text \<open>\<open>json.Unmarshal\<close> into a nil \<open>[]interface{}\<close>: the number of elements.\<close>

definition unmarshal_test :: "(gostring \<Rightarrow> gostring option) \<Rightarrow> json option \<Rightarrow> nat option" where
  "unmarshal_test num params =
     (case params of
        Some JNull \<Rightarrow> Some 0
      | Some (JArr vs) \<Rightarrow> map_option length (iface_elems num vs)
      | _ \<Rightarrow> None)"

text \<open>
  And into \<open>n\<close> pointers to strings: missing elements and \<open>null\<close> leave the empty string, more
  elements than pointers are read into an \<open>interface{}\<close> and dropped.
\<close>

fun string_elems :: "(gostring \<Rightarrow> gostring option) \<Rightarrow> nat \<Rightarrow> json list \<Rightarrow> gostring list option" where
  "string_elems num 0 vs = map_option (\<lambda>_. []) (iface_elems num vs)"
| "string_elems num (Suc n) [] = Some (replicate (Suc n) [])"
| "string_elems num (Suc n) (v # vs) =
     do { s \<leftarrow> decode_string [] v; ss \<leftarrow> string_elems num n vs; Some (s # ss) }"

definition unmarshal_inputs :: "(gostring \<Rightarrow> gostring option) \<Rightarrow> nat \<Rightarrow> json option \<Rightarrow> gostring list option" where
  "unmarshal_inputs num n params =
     (case params of
        Some JNull \<Rightarrow> Some (replicate n [])
      | Some (JArr vs) \<Rightarrow> string_elems num n vs
      | _ \<Rightarrow> None)"

text \<open>From what the call of the endpoint returned to the response.\<close>

definition call_response ::
  "Request \<Rightarrow> ((json option \<times> rpc_error option) \<times> 'st) option \<Rightarrow> (Response \<times> 'st) option" where
  "call_response req output =
     map_option (\<lambda>((res, err), s'). (case getError err of
         Some e \<Rightarrow> NewResponse req None (Some e)
       | None \<Rightarrow> NewResponse req res None, s')) output"

definition Handle ::
  "(gostring \<Rightarrow> gostring option) \<Rightarrow> ('req, 'st) handler \<Rightarrow> 'req \<Rightarrow> Request \<Rightarrow> 'st \<Rightarrow> (Response \<times> 'st) option" where
  "Handle num h httpRequest req s =
     (case getFuncHandler h req of
        Inl err \<Rightarrow> Some (NewResponse req None (Some err), s)
      | Inr fd \<Rightarrow>
          (let funcHasMoreThanOneInputParams = 1 < length (ed_reqt fd);
               firstFuncParamIsHttpRequest = (funcHasMoreThanOneInputParams \<and> ed_reqt fd ! 1 = GtHttpRequest);
               inArgsOffset = (if firstFuncParamIsHttpRequest then 1 else 0)
           in
           if (case unmarshal_test num (rq_Params req) of Some n \<Rightarrow> numParams fd < n | None \<Rightarrow> False)
           then Some (NewResponse req None (Some (NewServerError InvalidParamsErrorCode
                  (''too many arguments, want at most '' @ format_nat 10 (numParams fd)))), s)
           else
             (case (if 0 < numParams fd
                    then unmarshal_inputs num (numParams fd - inArgsOffset) (rq_Params req) else Some []) of
                None \<Rightarrow> Some (NewResponse req None (Some (NewServerError InvalidParamsErrorCode ''Invalid Params'')), s)
              | Some inputs \<Rightarrow> call_response req (ed_fv fd httpRequest inputs s))))"

subsection \<open>Registered endpoints\<close>

definition valid_method :: "('req, 'st) go_method \<Rightarrow> bool" where
  "valid_method m \<longleftrightarrow> length (gm_out m) = 2 \<and> snd (gm_out m ! 1)"

definition method_data :: "('req, 'st) go_method \<Rightarrow> ('req, 'st) endpointData" where
  "method_data m = new_endpointData (1 + (if gm_http m then 1 else 0) + gm_strings m) (gm_in m) m"

lemma validateFunc_eth:
  "validateFunc (''eth_'' @ name) m = Inr (n, ts) \<longleftrightarrow>
     valid_method m \<and> n = 1 + (if gm_http m then 1 else 0) + gm_strings m \<and> ts = gm_in m"
  by (auto simp: validateFunc_def valid_method_def requiredReturnParamsPerFn_def gm_in_def)

lemma register_methods_eq:
  "register_methods table ms funcMap =
     (if \<exists>m\<in>set ms. gm_PkgPath m = [] \<and> \<not> valid_method m then None
      else Some (funcMap ++ map_of (rev (map (\<lambda>m. (lowerCaseFirst table (gm_Name m), method_data m))
                                            (filter (\<lambda>m. gm_PkgPath m = []) ms)))))"
proof (induction ms arbitrary: funcMap)
  case (Cons m ms)
  show ?case
  proof (cases "gm_PkgPath m = [] \<and> valid_method m")
    case True
    then have v: "validateFunc (''eth_'' @ lowerCaseFirst table (gm_Name m)) m
        = Inr (1 + (if gm_http m then 1 else 0) + gm_strings m, gm_in m)"
      using validateFunc_eth by blast
    show ?thesis using True by (simp only: register_methods.simps v Let_def Cons.IH) (simp add: method_data_def)
  next
    case False
    have "\<exists>err. validateFunc (''eth_'' @ lowerCaseFirst table (gm_Name m)) m = Inl err" if "\<not> valid_method m"
      using validateFunc_eth [of "lowerCaseFirst table (gm_Name m)" m] that
      by (cases "validateFunc (''eth_'' @ lowerCaseFirst table (gm_Name m)) m") auto
    then show ?thesis using False Cons.IH by (auto simp: Let_def)
  qed
qed simp

lemma method_data_simps [simp]:
  "ed_fv (method_data m) = gm_Func m"
  "ed_reqt (method_data m) = gm_in m"
  "numParams (method_data m) = (if gm_http m then 1 else 0) + gm_strings m"
  by (simp_all add: method_data_def new_endpointData_def numParams_def)

lemma gm_in_http: "(1 < length (gm_in m) \<and> gm_in m ! 1 = GtHttpRequest) = gm_http m"
  by (auto simp: gm_in_def)

text \<open>The handler over a registered method, with the bookkeeping of the reflection done.\<close>

lemma Handle_method:
  assumes "h funcName = Some (method_data m)" and "rq_Method req = p @ CHR ''_'' # funcName" and "CHR ''_'' \<notin> set p"
  shows "Handle num h r req s =
    (if (case unmarshal_test num (rq_Params req) of
           Some n \<Rightarrow> (if gm_http m then 1 else 0) + gm_strings m < n | None \<Rightarrow> False)
     then Some (NewResponse req None (Some (NewServerError InvalidParamsErrorCode
            (''too many arguments, want at most '' @ format_nat 10 ((if gm_http m then 1 else 0) + gm_strings m)))), s)
     else case (if gm_http m \<or> 0 < gm_strings m then unmarshal_inputs num (gm_strings m) (rq_Params req) else Some []) of
            None \<Rightarrow> Some (NewResponse req None (Some (NewServerError InvalidParamsErrorCode ''Invalid Params'')), s)
          | Some inputs \<Rightarrow> call_response req (gm_Func m r inputs s))"
proof -
  have "cut_at (CHR ''_'') (rq_Method req) = Some (p, funcName)" using assms(2,3) by (simp add: cut_at_Some)
  then have "getFuncHandler h req = Inr (method_data m)" using assms(1) by (simp add: getFuncHandler_def Let_def)
  then show ?thesis
    unfolding Handle_def Let_def
    by (simp only: sum.case method_data_simps gm_in_http)
      (cases "gm_http m"; cases "unmarshal_test num (rq_Params req)"; simp cong: option.case_cong)
qed

subsection \<open>Properties of the handler\<close>

text \<open>The last of the exported methods under a name.\<close>

lemma last_registered:
  "map_of (rev (map (\<lambda>m. (k m, d m)) (filter P ms))) x = Some y \<longleftrightarrow>
     (\<exists>before m after. ms = before @ m # after \<and> P m \<and> k m = x \<and> y = d m \<and> (\<forall>m'\<in>set after. P m' \<longrightarrow> k m' \<noteq> x))"
  (is "?found ms \<longleftrightarrow> ?last ms")
proof (induction ms)
  case (Cons a ms)
  have none: "map_of (rev (map (\<lambda>m. (k m, d m)) (filter P ms))) x = None \<longleftrightarrow> (\<forall>m'\<in>set ms. P m' \<longrightarrow> k m' \<noteq> x)"
    by (force simp: map_of_eq_None_iff image_iff)
  have "?last (a # ms) \<longleftrightarrow> ?last ms \<or> P a \<and> k a = x \<and> y = d a \<and> (\<forall>m'\<in>set ms. P m' \<longrightarrow> k m' \<noteq> x)"
    by (auto simp: Cons_eq_append_conv)
  moreover have "?found (a # ms) \<longleftrightarrow> ?found ms \<or> P a \<and> k a = x \<and> y = d a \<and> (\<forall>m'\<in>set ms. P m' \<longrightarrow> k m' \<noteq> x)"
    using none by (auto simp: map_add_Some_iff)
  ultimately show ?case using Cons.IH by simp
qed simp

definition ascii_upper :: "gostring \<Rightarrow> bool" where
  "ascii_upper name = (case name of [] \<Rightarrow> False | c # cs \<Rightarrow> in_range c 65 90)"

lemma lowerCaseFirst_ascii: "in_range c 65 90 \<Longrightarrow> lowerCaseFirst table (c # cs) = byte (code c + 32) # cs"
  using encode_rune_ascii [of "byte (code c + 32)"]
  by (simp add: lowerCaseFirst_def unicode_ToLower_def in_range_def)

lemma lowerCaseFirst_inj:
  assumes "ascii_upper x" "ascii_upper y"
  shows "lowerCaseFirst table x = lowerCaseFirst table y \<longleftrightarrow> x = y"
proof -
  obtain a as b bs where s: "x = a # as" "y = b # bs" "in_range a 65 90" "in_range b 65 90"
    using assms by (auto simp: ascii_upper_def split: list.splits)
  have "code (byte (code a + 32)) = code a + 32" "code (byte (code b + 32)) = code b + 32"
    using s(3,4) by (simp_all add: in_range_def)
  then have "byte (code a + 32) = byte (code b + 32) \<Longrightarrow> code a = code b" by (metis add_right_cancel)
  then have "byte (code a + 32) = byte (code b + 32) \<longleftrightarrow> a = b" by (metis byte_code)
  then show ?thesis by (simp add: s lowerCaseFirst_ascii)
qed

text \<open>
  C28. Registration of methods whose exported names begin with a letter from A to Z: it panics
  exactly when the endpoints are a structure instead of a pointer or some exported method does
  not return two values of which the second is an \<open>Error\<close>; otherwise the handler finds under a
  name the last exported method called so but for the first letter, which is in lower case in
  the name, and nothing else.
\<close>
theorem register_spec:
  assumes "list_all (\<lambda>m. gm_PkgPath m = [] \<longrightarrow> ascii_upper (gm_Name m)) ms"
  shows "if isStruct \<or> (\<exists>m\<in>set ms. gm_PkgPath m = [] \<and> \<not> valid_method m)
    then registerEndpoints table isStruct ms = None
    else \<exists>h. registerEndpoints table isStruct ms = Some h
      \<and> (\<forall>name fd. h name = Some fd \<longleftrightarrow>
           (\<exists>before m after c cs. ms = before @ m # after \<and> gm_PkgPath m = [] \<and> gm_Name m = c # cs
              \<and> name = byte (code c + 32) # cs \<and> fd = method_data m
              \<and> (\<forall>m'\<in>set after. gm_PkgPath m' = [] \<longrightarrow> gm_Name m' \<noteq> c # cs)))"
proof (cases "isStruct \<or> (\<exists>m\<in>set ms. gm_PkgPath m = [] \<and> \<not> valid_method m)")
  case True
  then show ?thesis by (auto simp: registerEndpoints_def register_methods_eq)
next
  case False
  let ?h = "map_of (rev (map (\<lambda>m. (lowerCaseFirst table (gm_Name m), method_data m)) (filter (\<lambda>m. gm_PkgPath m = []) ms)))"
  have "registerEndpoints table isStruct ms = Some ?h"
    using False by (auto simp: registerEndpoints_def register_methods_eq newJSONRpcHandler_def)
  moreover have "?h name = Some fd \<longleftrightarrow>
      (\<exists>before m after c cs. ms = before @ m # after \<and> gm_PkgPath m = [] \<and> gm_Name m = c # cs
         \<and> name = byte (code c + 32) # cs \<and> fd = method_data m
         \<and> (\<forall>m'\<in>set after. gm_PkgPath m' = [] \<longrightarrow> gm_Name m' \<noteq> c # cs))" (is "_ \<longleftrightarrow> ?last") for name fd
  proof -
    have split: "(\<exists>c cs. gm_Name m = c # cs \<and> name = byte (code c + 32) # cs \<and> (\<forall>m'\<in>set after. gm_PkgPath m' = [] \<longrightarrow> gm_Name m' \<noteq> c # cs))
        \<longleftrightarrow> lowerCaseFirst table (gm_Name m) = name \<and> (\<forall>m'\<in>set after. gm_PkgPath m' = [] \<longrightarrow> lowerCaseFirst table (gm_Name m') \<noteq> name)"
      if "ms = before @ m # after" "gm_PkgPath m = []" for before m after
    proof -
      have up: "ascii_upper (gm_Name m)" "\<And>m'. m' \<in> set after \<Longrightarrow> gm_PkgPath m' = [] \<Longrightarrow> ascii_upper (gm_Name m')"
        using assms that by (auto simp: list_all_iff)
      then obtain c cs where "gm_Name m = c # cs" "in_range c 65 90" by (auto simp: ascii_upper_def split: list.splits)
      then show ?thesis using lowerCaseFirst_inj [OF up(2) up(1)] by (auto simp: lowerCaseFirst_ascii)
    qed
    show ?thesis unfolding last_registered
    proof (intro iffI; elim exE conjE)
      fix before m after
      assume "ms = before @ m # after" "gm_PkgPath m = []" "lowerCaseFirst table (gm_Name m) = name" "fd = method_data m"
        "\<forall>m'\<in>set after. gm_PkgPath m' = [] \<longrightarrow> lowerCaseFirst table (gm_Name m') \<noteq> name"
      with split [of before m after] show ?last by blast
    next
      fix before m after c cs
      assume m: "ms = before @ m # after" "gm_PkgPath m = []" "gm_Name m = c # cs" "name = byte (code c + 32) # cs"
        "fd = method_data m" "\<forall>m'\<in>set after. gm_PkgPath m' = [] \<longrightarrow> gm_Name m' \<noteq> c # cs"
      then show "\<exists>before m after. ms = before @ m # after \<and> gm_PkgPath m = [] \<and> lowerCaseFirst table (gm_Name m) = name
          \<and> fd = method_data m \<and> (\<forall>m'\<in>set after. gm_PkgPath m' = [] \<longrightarrow> lowerCaseFirst table (gm_Name m') \<noteq> name)"
        using split [OF m(1,2)] by blast
    qed
  qed
  ultimately show ?thesis using False by (simp only: if_False) blast
qed

text \<open>The strings an endpoint gets from elements that are strings or \<open>null\<close>.\<close>

definition string_arg :: "json \<Rightarrow> gostring" where
  "string_arg v = (case v of JStr s \<Rightarrow> s | _ \<Rightarrow> [])"

definition string_or_null :: "json \<Rightarrow> bool" where
  "string_or_null v = (case v of JStr s \<Rightarrow> True | JNull \<Rightarrow> True | _ \<Rightarrow> False)"

definition string_args :: "nat \<Rightarrow> json list \<Rightarrow> gostring list" where
  "string_args n vs = map string_arg (take n vs) @ replicate (n - length vs) []"

lemma iface_strings: "list_all string_or_null vs \<Longrightarrow> iface_elems num vs = Some vs"
  by (induction vs) (auto simp: string_or_null_def split: json.splits)

lemma string_elems_strings: "list_all string_or_null vs \<Longrightarrow> string_elems num n vs = Some (string_args n vs)"
proof (induction n arbitrary: vs)
  case 0
  then show ?case by (simp add: iface_strings string_args_def)
next
  case (Suc n)
  show ?case
  proof (cases vs)
    case (Cons v ws)
    then have "decode_string [] v = Some (string_arg v)"
      using Suc.prems by (auto simp: decode_string_def string_arg_def string_or_null_def split: json.splits)
    moreover have "string_elems num n ws = Some (string_args n ws)" using Suc Cons by simp
    ultimately show ?thesis by (simp add: Cons string_args_def)
  qed (simp add: string_args_def)
qed

lemma Handle_strings:
  assumes "h funcName = Some (method_data m)" and "gm_http m"
    and "rq_Method req = p @ CHR ''_'' # funcName" and "CHR ''_'' \<notin> set p"
    and "rq_Params req = Some (JArr vs)" and "list_all string_or_null vs"
  shows "Handle num h r req s =
    (if gm_strings m + 1 < length vs
     then Some (NewResponse req None (Some \<lparr>se_err = ''too many arguments, want at most '' @ format_nat 10 (gm_strings m + 1),
                                           se_code = - 32602, se_data = None\<rparr>), s)
     else call_response req (gm_Func m r (string_args (gm_strings m) vs) s))"
  using assms(2,5,6) Handle_method [of h funcName m req p num r s, OF assms(1,3,4)]
  by (auto simp: unmarshal_test_def unmarshal_inputs_def iface_strings string_elems_strings
      go_errors)

text \<open>
  C23. Positional parameters: an endpoint declared with \<open>n\<close> strings after its
  \<open>*http.Request\<close> accepts one parameter too many, since the HTTP request is counted as one of
  the parameters of the client, and ignores it; it runs on fewer parameters too, with empty
  strings. With more, it is not called. Which name stands in front of the first underscore of
  the method makes no difference.
\<close>
theorem handle_string_params:
  assumes "h funcName = Some (method_data m)" and "gm_http m"
    and "rq_Method req = p @ CHR ''_'' # funcName" and "CHR ''_'' \<notin> set p"
    and "rq_Params req = Some (JArr vs)" and "list_all string_or_null vs"
  shows "Handle num h r req s =
    (if gm_strings m + 1 < length vs
     then Some (NewResponse req None (Some \<lparr>se_err = ''too many arguments, want at most '' @ format_nat 10 (gm_strings m + 1),
                                           se_code = - 32602, se_data = None\<rparr>), s)
     else call_response req (gm_Func m r (string_args (gm_strings m) vs) s))"
  by (rule Handle_strings [where h = h and funcName = funcName and m = m and p = p and vs = vs, OF assms])

definition ex_method :: "(unit, nat) go_method" where
  "ex_method = \<lparr>gm_Name = ''Echo'', gm_PkgPath = [], gm_http = True, gm_strings = 1,
     gm_out = [(''interface {}'', False), (''server.Error'', True)],
     gm_Func = (\<lambda>r ins n. Some ((Some (JStr (hd ins)), None), n + 1))\<rparr>"

theorem register_spec_witness:
  "\<exists>h. registerEndpoints (\<lambda>r. r) False [ex_method] = Some h \<and> h ''echo'' = Some (method_data ex_method) \<and> h ''Echo'' = None"
proof -
  have up: "list_all (\<lambda>m. gm_PkgPath m = [] \<longrightarrow> ascii_upper (gm_Name m)) [ex_method]" by code_simp
  have ok: "\<not> (False \<or> (\<exists>m\<in>set [ex_method]. gm_PkgPath m = [] \<and> \<not> valid_method m))"
    by (simp add: ex_method_def valid_method_def)
  have e: "byte (code CHR ''E'' + 32) = CHR ''e''" by code_simp
  from register_spec [of "[ex_method]" False "\<lambda>r. r", OF up] ok obtain h where h:
      "registerEndpoints (\<lambda>r. r) False [ex_method] = Some h"
      "\<And>name fd. h name = Some fd \<longleftrightarrow>
         (\<exists>before m after c cs. [ex_method] = before @ m # after \<and> gm_PkgPath m = [] \<and> gm_Name m = c # cs
            \<and> name = byte (code c + 32) # cs \<and> fd = method_data m
            \<and> (\<forall>m'\<in>set after. gm_PkgPath m' = [] \<longrightarrow> gm_Name m' \<noteq> c # cs))"
    unfolding if_not_P [OF ok] by blast
  have "h ''echo'' = Some (method_data ex_method)"
    unfolding h(2) by (rule exI [of _ "[]"], rule exI [of _ ex_method], rule exI [of _ "[]"]) (simp add: ex_method_def e)
  moreover have "h ''Echo'' \<noteq> Some fd" for fd
  proof
    assume "h ''Echo'' = Some fd"
    then obtain before m after c cs where m: "[ex_method] = before @ m # after" "gm_Name m = c # cs"
        "''Echo'' = byte (code c + 32) # cs"
      unfolding h(2) by blast
    have "m = ex_method" using m(1) by (cases before) auto
    then have c: "c = CHR ''E''" using m(2) by (simp add: ex_method_def)
    have "CHR ''E'' = byte (code CHR ''E'' + 32)" using m(3) unfolding c by (simp only: list.inject)
    then have "CHR ''E'' = CHR ''e''" unfolding e .
    then show False by simp
  qed
  ultimately show ?thesis using h(1) by (intro exI [of _ h]) auto
qed

text \<open>
  A first letter beyond ASCII is lowered as a rune, but only its first byte is cut off: what is
  left of its encoding stays in the name, which is then not UTF-8.
\<close>

lemma lowerCaseFirst_wide:
  "utf8 (encode_rune 0xC4 @ ''a'')"
  "lowerCaseFirst (\<lambda>r. r + 32) (encode_rune 0xC4 @ ''a'') = encode_rune 0xE4 @ byte 0x84 # ''a''"
  "\<not> utf8 (encode_rune 0xE4 @ byte 0x84 # ''a'')"
  by (simp_all add: lowerCaseFirst_def unicode_ToLower_def encode_rune_def decode_rune_def decode_rune2_def
      decode_rune3_def decode_rune4_def in_range_def) (simp add: code_def)

definition ex_request :: "json list \<Rightarrow> Request" where
  "ex_request vs = \<lparr>rq_JSONRPC = ''2.0'', rq_ID = JNum ''1'', rq_Method = ''any_echo'', rq_Params = Some (JArr vs)\<rparr>"

theorem handle_string_params_witness:
  "Handle Some [''echo'' \<mapsto> method_data ex_method] () (ex_request [JStr ''a'', JStr ''b'']) 0 =
     Some (\<lparr>rs_JSONRPC = ''2.0'', rs_Id = JNum ''1'', rs_Result = Some (JStr ''a''), rs_Error = None\<rparr>, 1)"
  using handle_string_params [of "[''echo'' \<mapsto> method_data ex_method]" "''echo''" ex_method
      "ex_request [JStr ''a'', JStr ''b'']" "''any''" "[JStr ''a'', JStr ''b'']" Some "()" 0]
  by (simp add: ex_method_def ex_request_def string_or_null_def string_args_def string_arg_def call_response_def getError_def NewResponse_def)

text \<open>The step from \<open>s\<close> to \<open>s'\<close> is one call of the endpoint the method names.\<close>

definition endpoint_called :: "('req, 'st) handler \<Rightarrow> 'req \<Rightarrow> Request \<Rightarrow> 'st \<Rightarrow> 'st \<Rightarrow> bool" where
  "endpoint_called h r req s s' \<longleftrightarrow>
     (\<exists>p funcName fd inputs out. rq_Method req = p @ CHR ''_'' # funcName \<and> CHR ''_'' \<notin> set p
        \<and> h funcName = Some fd \<and> ed_fv fd r inputs s = Some (out, s'))"

text \<open>
  C24. What a request is answered: the response has its identifier and version; never a result
  and an error; and the state behind the endpoints changes only by a call of the endpoint
  with the name of the method. A method without underscore or with a name that is not
  registered, and parameters that cannot be read, are errors without a call.
\<close>
theorem handle_answers:
  assumes "Handle num h r req s = Some (resp, s')"
  shows "rs_JSONRPC resp = rq_JSONRPC req \<and> rs_Id resp = rq_ID req
    \<and> (rs_Error resp = None \<or> rs_Result resp = None)
    \<and> (endpoint_called h r req s s' \<or> s' = s \<and> (\<exists>e. rs_Error resp = Some e \<and> eo_Code e \<in> {- 32601, - 32602}))"
proof (cases "getFuncHandler h req")
  case (Inl err)
  then have "se_code err = - 32601"
    by (auto simp: getFuncHandler_def Let_def go_errors
        split: option.splits prod.splits)
  then show ?thesis using assms Inl by (auto simp: Handle_def NewResponse_def)
next
  case (Inr fd)
  then obtain p funcName where fd: "rq_Method req = p @ CHR ''_'' # funcName" "CHR ''_'' \<notin> set p" "h funcName = Some fd"
    by (auto simp: getFuncHandler_def Let_def cut_at_Some split: option.splits prod.splits)
  show ?thesis
  proof (cases "s' = s \<and> (\<exists>msg. resp = NewResponse req None (Some (NewServerError InvalidParamsErrorCode msg)))")
    case True
    then show ?thesis
      by (auto simp: NewResponse_def go_errors)
  next
    case False
    then obtain inputs where "call_response req (ed_fv fd r inputs s) = Some (resp, s')"
      using assms Inr by (auto simp: Handle_def Let_def split: if_splits option.splits)
    then obtain res err where "ed_fv fd r inputs s = Some ((res, err), s')"
        "resp = (case getError err of Some e \<Rightarrow> NewResponse req None (Some e) | None \<Rightarrow> NewResponse req res None)"
      by (auto simp: call_response_def)
    moreover from this(1) fd have "endpoint_called h r req s s'" by (fastforce simp: endpoint_called_def)
    ultimately show ?thesis by (auto simp: NewResponse_def split: option.splits)
  qed
qed

theorem handle_answers_witness:
  "\<exists>resp. Handle Some [''echo'' \<mapsto> method_data ex_method] () (ex_request []) 0 = Some (resp, 1)
     \<and> rs_Id resp = JNum ''1''"
proof -
  have "Handle Some [''echo'' \<mapsto> method_data ex_method] () (ex_request []) 0 =
      Some (\<lparr>rs_JSONRPC = ''2.0'', rs_Id = JNum ''1'', rs_Result = Some (JStr []), rs_Error = None\<rparr>, 1)"
    by (subst Handle_method [where m = ex_method and p = "''any''" and funcName = "''echo''"])
      (simp_all add: ex_method_def ex_request_def unmarshal_test_def unmarshal_inputs_def call_response_def getError_def NewResponse_def
        numeral_eq_Suc)
  with handle_answers [OF this] show ?thesis by (auto simp: ex_request_def)
qed

subsection \<open>The contract of the endpoints\<close>

text \<open>
  What the server relies on: from a good state every registered endpoint returns, in a good
  state again that extends the one before.
\<close>

definition ed_strings :: "('req, 'st) endpointData \<Rightarrow> nat" where
  "ed_strings fd = numParams fd - (if 1 < length (ed_reqt fd) \<and> ed_reqt fd ! 1 = GtHttpRequest then 1 else 0)"

lemma string_elems_length: "string_elems num n vs = Some ss \<Longrightarrow> length ss = n"
  by (induction num n vs arbitrary: ss rule: string_elems.induct) (auto split: bind_splits)

lemma unmarshal_inputs_length: "unmarshal_inputs num n params = Some ss \<Longrightarrow> length ss = n"
  by (auto simp: unmarshal_inputs_def string_elems_length split: option.splits json.splits)

locale rpc_service =
  fixes st_inv :: "'st \<Rightarrow> bool" and extends :: "'st \<Rightarrow> 'st \<Rightarrow> bool" and h :: "('req, 'st) handler"
  assumes extends_refl: "extends s s"
    and extends_trans: "extends s s' \<Longrightarrow> extends s' s'' \<Longrightarrow> extends s s''"
    and endpoint_total: "st_inv s \<Longrightarrow> h name = Some fd \<Longrightarrow> length ins = ed_strings fd \<Longrightarrow>
          \<exists>out s'. ed_fv fd r ins s = Some (out, s') \<and> st_inv s' \<and> extends s s'"
begin

lemma Handle_total:
  assumes "st_inv s"
  shows "\<exists>resp s'. Handle num h r req s = Some (resp, s') \<and> st_inv s' \<and> extends s s'"
proof (cases "getFuncHandler h req")
  case (Inl err)
  then show ?thesis using assms extends_refl by (simp add: Handle_def)
next
  case (Inr fd)
  then obtain name where "h name = Some fd"
    by (auto simp: getFuncHandler_def Let_def split: option.splits prod.splits)
  then have call: "\<exists>resp s'. call_response req (ed_fv fd r ins s) = Some (resp, s') \<and> st_inv s' \<and> extends s s'"
    if "length ins = ed_strings fd" for ins
    using endpoint_total [OF assms, of name fd ins r] that by (auto simp: call_response_def)
  have "length ins = ed_strings fd"
    if "(if 0 < numParams fd then unmarshal_inputs num (ed_strings fd) (rq_Params req) else Some []) = Some ins" for ins
    using that unmarshal_inputs_length by (fastforce simp: ed_strings_def split: if_splits)
  then show ?thesis using call assms extends_refl Inr
    unfolding Handle_def Let_def ed_strings_def [symmetric] by (auto split: option.split)
qed

end

end
