(* ===== verification/HttpServer.thy ===== *)
theory HttpServer
  imports Rpc
begin

section \<open>The HTTP server\<close>

text \<open>
  Model of \<open>server/server.go\<close>: one HTTP request, from the method to the bytes of the answer.
  Of \<open>net/http\<close> the model has what the handlers see: the request with the bytes its body
  delivers and the error it ends with, and a response writer whose connection may refuse
  the bytes. \<open>mime.ParseMediaType\<close> is a parameter, \<^term>\<open>None\<close> being its error. A panic of a
  handler, \<^term>\<open>None\<close> here, ends the connection and not the server.
\<close>

subsection \<open>Requests, the response writer, the configuration\<close>

text \<open>An error of the connection: a broken pipe or another one.\<close>

datatype io_error = EPIPE gostring | IoError gostring

record http_request =
  hr_Method :: gostring
  hr_ContentLength :: int
  hr_Header :: "gostring \<Rightarrow> gostring"
  hr_Body :: gostring
  hr_BodyErr :: "io_error option"

record response_writer =
  hw_Header :: "gostring \<Rightarrow> gostring option"
  hw_Status :: "nat option"
  hw_Body :: gostring
  hw_fails :: "io_error option"

text \<open>The rate of the limiter, a \<open>float64\<close>, is kept as its bits; only the library computes with it.\<close>

record ServerConfig =
  sc_Host :: gostring
  sc_Port :: int
  sc_ReadTimeout :: duration
  sc_WriteTimeout :: duration
  sc_MaxRequestsPerIPAndSecond :: uint64
  sc_EnableHttpLog :: bool
  sc_BatchRequestsEnabled :: bool
  sc_BatchRequestsLimit :: uint64

definition io_message :: "io_error \<Rightarrow> gostring" where
  "io_message e = (case e of EPIPE m \<Rightarrow> m | IoError m \<Rightarrow> m)"

definition header_set :: "gostring \<Rightarrow> gostring \<Rightarrow> response_writer \<Rightarrow> response_writer" where
  "header_set k v w = w\<lparr>hw_Header := (hw_Header w)(k \<mapsto> v)\<rparr>"

definition WriteHeader :: "nat \<Rightarrow> response_writer \<Rightarrow> response_writer" where
  "WriteHeader st w = (if hw_Status w = None then w\<lparr>hw_Status := Some st\<rparr> else w)"

definition http_write :: "gostring \<Rightarrow> response_writer \<Rightarrow> io_error option \<times> response_writer" where
  "http_write b w =
     (let w1 = WriteHeader 200 w in
      case hw_fails w of
        Some e \<Rightarrow> (Some e, w1)
      | None \<Rightarrow> (None, w1\<lparr>hw_Body := hw_Body w @ b\<rparr>))"

definition http_Error :: "response_writer \<Rightarrow> gostring \<Rightarrow> nat \<Rightarrow> response_writer" where
  "http_Error w msg st =
     snd (http_write (msg @ [CHR 0x0A])
       (WriteHeader st
         (header_set ''X-Content-Type-Options'' ''nosniff''
           (header_set ''Content-Type'' ''text/plain; charset=utf-8'' w))))"

text \<open>\<open>io.ReadAll\<close> over \<open>io.LimitReader\<close>: an error behind the limit is not seen.\<close>

definition read_limited :: "nat \<Rightarrow> http_request \<Rightarrow> io_error option \<times> gostring" where
  "read_limited n r =
     (if length (hr_Body r) < n then (hr_BodyErr r, hr_Body r) else (None, take n (hr_Body r)))"

subsection \<open>Errors\<close>

definition ErrBatchRequestsDisabled :: gostring where
  "ErrBatchRequestsDisabled = ''batch requests are disabled''"

definition ErrBatchRequestsLimitExceeded :: gostring where
  "ErrBatchRequestsLimitExceeded = ''batch requests limit exceeded''"

definition handleInvalidRequest :: "response_writer \<Rightarrow> gostring \<Rightarrow> nat \<Rightarrow> response_writer" where
  "handleInvalidRequest w err st = http_Error w err st"

definition handleError :: "response_writer \<Rightarrow> io_error \<Rightarrow> response_writer" where
  "handleError w err =
     (case err of EPIPE m \<Rightarrow> w | IoError m \<Rightarrow> http_Error w m 500)"

subsection \<open>Reading the request\<close>

definition maxRequestContentLength :: nat where
  "maxRequestContentLength = 1024 * 1024 * 5"

definition contentType :: gostring where
  "contentType = ''application/json''"

definition acceptedContentTypes :: "gostring list" where
  "acceptedContentTypes = [contentType, ''application/json-rpc'', ''application/jsonrequest'']"

text \<open>A status and a message, or \<^term>\<open>None\<close> for a valid request.\<close>

definition validateRequest :: "(gostring \<Rightarrow> gostring option) \<Rightarrow> http_request \<Rightarrow> (nat \<times> gostring) option" where
  "validateRequest mime req =
     (if hr_Method req \<noteq> ''POST'' then Some (405, ''method '' @ hr_Method req @ '' not allowed'')
      else if int maxRequestContentLength < hr_ContentLength req then
        Some (413, ''content length too large ('' @ format_int (hr_ContentLength req) @ '' > ''
                     @ format_nat 10 maxRequestContentLength @ '')'')
      else if (case mime (hr_Header req ''content-type'') of None \<Rightarrow> False | Some mt \<Rightarrow> mt \<in> set acceptedContentTypes)
      then None
      else Some (415, ''invalid content type, only '' @ contentType @ '' is supported''))"

definition isSingleRequest :: "gostring \<Rightarrow> gostring + bool" where
  "isSingleRequest data =
     (case dropWhile (\<lambda>c. c \<in> {CHR '' '', CHR 0x09, CHR 0x0D, CHR 0x0A}) data of
        [] \<Rightarrow> Inl ''empty request body''
      | c # x \<Rightarrow> Inr (c \<noteq> CHR ''[''))"

definition parseRequest :: "(gostring \<Rightarrow> gostring option) \<Rightarrow> gostring \<Rightarrow> gostring + Request" where
  "parseRequest num data =
     (case Option.bind (json_parse data) (decode_request num) of
        None \<Rightarrow> Inl ''invalid json object request body''
      | Some req \<Rightarrow> Inr req)"

definition parseRequests :: "(gostring \<Rightarrow> gostring option) \<Rightarrow> gostring \<Rightarrow> gostring + Request list" where
  "parseRequests num data =
     (case Option.bind (json_parse data)
             (\<lambda>v. case v of JArr vs \<Rightarrow> decode_requests num vs | JNull \<Rightarrow> Some [] | _ \<Rightarrow> None) of
        None \<Rightarrow> Inl ''invalid json array request body''
      | Some reqs \<Rightarrow> Inr reqs)"

subsection \<open>Answering\<close>

definition handleSingleRequest ::
  "(gostring \<Rightarrow> gostring option) \<Rightarrow> (http_request, 'st) handler \<Rightarrow> http_request \<Rightarrow> response_writer \<Rightarrow> gostring \<Rightarrow>
    'st \<Rightarrow> (response_writer \<times> 'st) option" where
  "handleSingleRequest num h httpRequest w data s =
     (case parseRequest num data of
        Inl err \<Rightarrow> Some (handleInvalidRequest w err 400, s)
      | Inr request \<Rightarrow> do {
          (response, s') \<leftarrow> Handle num h httpRequest request s;
          let respBytes = json_marshal (response_json response);
          let (err, w') = http_write respBytes w;
          Some (case err of None \<Rightarrow> (w', s') | Some e \<Rightarrow> (handleError w' e, s')) })"

fun handle_all ::
  "(gostring \<Rightarrow> gostring option) \<Rightarrow> (http_request, 'st) handler \<Rightarrow> http_request \<Rightarrow> Request list \<Rightarrow> 'st \<Rightarrow>
    (Response list \<times> 'st) option" where
  "handle_all num h httpRequest [] s = Some ([], s)"
| "handle_all num h httpRequest (request # requests) s = do {
     (response, s1) \<leftarrow> Handle num h httpRequest request s;
     (responses, s2) \<leftarrow> handle_all num h httpRequest requests s1;
     Some (response # responses, s2) }"

definition handleBatchRequest ::
  "(gostring \<Rightarrow> gostring option) \<Rightarrow> ServerConfig \<Rightarrow> (http_request, 'st) handler \<Rightarrow> http_request \<Rightarrow> response_writer \<Rightarrow>
    gostring \<Rightarrow> 'st \<Rightarrow> (response_writer \<times> 'st) option" where
  "handleBatchRequest num cfg h httpRequest w data s =
     (if \<not> sc_BatchRequestsEnabled cfg then Some (handleInvalidRequest w ErrBatchRequestsDisabled 400, s)
      else case parseRequests num data of
        Inl err \<Rightarrow> Some (handleInvalidRequest w err 400, s)
      | Inr requests \<Rightarrow>
          if 0 < sc_BatchRequestsLimit cfg \<and> sint (sc_BatchRequestsLimit cfg) < int (length requests)
          then Some (handleInvalidRequest w ErrBatchRequestsLimitExceeded 413, s)
          else do {
            (responses, s') \<leftarrow> handle_all num h httpRequest requests s;
            let respBytes = json_marshal (JArr (map response_json responses));
            Some (snd (http_write respBytes w), s') })"

definition cors_headers :: "response_writer \<Rightarrow> response_writer" where
  "cors_headers w =
     header_set ''Access-Control-Allow-Headers''
       ''Accept, Content-Type, Content-Length, Accept-Encoding, X-CSRF-Token, Authorization''
       (header_set ''Access-Control-Allow-Methods'' ''POST, OPTIONS''
         (header_set ''Access-Control-Allow-Origin'' ''*'' (header_set ''Content-Type'' contentType w)))"

definition handle ::
  "(gostring \<Rightarrow> gostring option) \<Rightarrow> (gostring \<Rightarrow> gostring option) \<Rightarrow> ServerConfig \<Rightarrow> (http_request, 'st) handler \<Rightarrow>
    response_writer \<Rightarrow> http_request \<Rightarrow> 'st \<Rightarrow> (response_writer \<times> 'st) option" where
  "handle mime num cfg h w0 req s =
     (let w = cors_headers w0 in
      if hr_Method req = ''OPTIONS'' then Some (w, s)
      else if hr_Method req = ''GET'' then Some (snd (http_write ''zkEVM Pool Manager'' w), s)
      else case validateRequest mime req of
        Some (st, err) \<Rightarrow> Some (handleInvalidRequest w err st, s)
      | None \<Rightarrow>
          (case read_limited maxRequestContentLength req of
             (Some err, data) \<Rightarrow> Some (handleError w err, s)
           | (None, data) \<Rightarrow>
               (case isSingleRequest data of
                  Inl err \<Rightarrow> Some (handleInvalidRequest w err 400, s)
                | Inr single \<Rightarrow>
                    if single then handleSingleRequest num h req w data s
                    else handleBatchRequest num cfg h req w data s)))"

subsection \<open>Properties\<close>

text \<open>The server stops at a request without calling any endpoint.\<close>

definition refused :: "(gostring \<Rightarrow> gostring option) \<Rightarrow> ServerConfig \<Rightarrow> http_request \<Rightarrow> bool" where
  "refused mime cfg req \<longleftrightarrow>
     hr_Method req \<noteq> ''POST''
     \<or> int maxRequestContentLength < hr_ContentLength req
     \<or> (case mime (hr_Header req ''content-type'') of None \<Rightarrow> True | Some mt \<Rightarrow> mt \<notin> set acceptedContentTypes)
     \<or> fst (read_limited maxRequestContentLength req) \<noteq> None
     \<or> skip_ws (take maxRequestContentLength (hr_Body req)) = []"

lemma header_set_simps [simp]:
  "hw_Status (header_set k v w) = hw_Status w" "hw_Body (header_set k v w) = hw_Body w"
  "hw_fails (header_set k v w) = hw_fails w"
  by (simp_all add: header_set_def)

lemma cors_headers_simps [simp]:
  "hw_Status (cors_headers w) = hw_Status w" "hw_Body (cors_headers w) = hw_Body w"
  "hw_fails (cors_headers w) = hw_fails w"
  by (simp_all add: cors_headers_def)

lemma http_write_status [simp]:
  "hw_Status (snd (http_write b w)) = (case hw_Status w of None \<Rightarrow> Some 200 | Some st \<Rightarrow> Some st)"
  by (auto simp: http_write_def WriteHeader_def Let_def split: option.splits)

lemma http_Error_status [simp]: "hw_Status w = None \<Longrightarrow> hw_Status (http_Error w msg st) = Some st"
  by (simp add: http_Error_def WriteHeader_def)

text \<open>The status an answer has when no endpoint is called.\<close>

definition refusal_status :: "(gostring \<Rightarrow> gostring option) \<Rightarrow> http_request \<Rightarrow> nat option" where
  "refusal_status mime req =
     (if hr_Method req = ''OPTIONS'' then None
      else if hr_Method req = ''GET'' then Some 200
      else if hr_Method req \<noteq> ''POST'' then Some 405
      else if int maxRequestContentLength < hr_ContentLength req then Some 413
      else if (case mime (hr_Header req ''content-type'') of None \<Rightarrow> True | Some mt \<Rightarrow> mt \<notin> set acceptedContentTypes)
        then Some 415
      else case fst (read_limited maxRequestContentLength req) of
             Some (EPIPE m) \<Rightarrow> None
           | Some (IoError m) \<Rightarrow> Some 500
           | None \<Rightarrow> Some 400)"

lemma read_limited_data: "snd (read_limited n r) = take n (hr_Body r)"
  by (simp add: read_limited_def)

lemma isSingle_skip: "isSingleRequest data = (case skip_ws data of [] \<Rightarrow> Inl ''empty request body'' | c # x \<Rightarrow> Inr (c \<noteq> CHR ''[''))"
proof -
  have "is_ws = (\<lambda>c. c \<in> {CHR '' '', CHR 0x09, CHR 0x0D, CHR 0x0A})" by (simp add: is_ws_def fun_eq_iff)
  then show ?thesis by (simp add: isSingleRequest_def skip_ws_def)
qed

text \<open>
  C25. A request that is not a POST, is announced as longer than 5 MB, has another content type,
  cannot be read or has no body leaves the state behind the endpoints as it was. Its status is
  405, 413, 415, 500 or 400, by the first of these that applies; a GET has status 200, and
  for OPTIONS and a broken connection no status is written, which \<open>net/http\<close> sends as 200.
\<close>
theorem http_refused:
  assumes "refused mime cfg req" and "hw_Status w = None"
  shows "\<exists>w'. handle mime num cfg h w req s = Some (w', s) \<and> hw_Status w' = refusal_status mime req"
proof (cases "hr_Method req = ''OPTIONS'' \<or> hr_Method req = ''GET''")
  case True
  then show ?thesis using assms(2) by (auto simp: handle_def refusal_status_def Let_def)
next
  case False
  then have m: "hr_Method req \<noteq> ''OPTIONS''" "hr_Method req \<noteq> ''GET''" by auto
  show ?thesis
  proof (cases "validateRequest mime req")
    case (Some x)
    then show ?thesis using assms(2) m
      by (cases x) (auto simp: handle_def refusal_status_def Let_def handleInvalidRequest_def validateRequest_def
          split: if_splits option.splits)
  next
    case None
    then have post: "refusal_status mime req = (case fst (read_limited maxRequestContentLength req) of
             Some (EPIPE m) \<Rightarrow> None | Some (IoError m) \<Rightarrow> Some 500 | None \<Rightarrow> Some 400)"
      and rest: "fst (read_limited maxRequestContentLength req) \<noteq> None \<or> skip_ws (take maxRequestContentLength (hr_Body req)) = []"
      using assms(1) m by (auto simp: validateRequest_def refusal_status_def refused_def split: if_splits option.splits)
    obtain err data where rd: "read_limited maxRequestContentLength req = (err, data)" by force
    then have data: "data = take maxRequestContentLength (hr_Body req)"
      using read_limited_data [of maxRequestContentLength req] by simp
    show ?thesis
    proof (cases err)
      case (Some e)
      then show ?thesis using m None post rd assms(2)
        by (cases e) (simp_all add: handle_def Let_def handleError_def)
    next
      case e: None
      then have "isSingleRequest data = Inl ''empty request body''" using rest rd data by (simp add: isSingle_skip)
      then show ?thesis using m None post rd e assms(2)
        by (simp add: handle_def Let_def handleInvalidRequest_def)
    qed
  qed
qed

definition ex_http :: "gostring \<Rightarrow> http_request" where
  "ex_http body = \<lparr>hr_Method = ''POST'', hr_ContentLength = int (length body),
     hr_Header = (\<lambda>k. if k = ''content-type'' then contentType else []), hr_Body = body, hr_BodyErr = None\<rparr>"

definition fresh_writer :: response_writer where
  "fresh_writer = \<lparr>hw_Header = (\<lambda>_. None), hw_Status = None, hw_Body = [], hw_fails = None\<rparr>"

definition ex_config :: ServerConfig where
  "ex_config = \<lparr>sc_Host = ''0.0.0.0'', sc_Port = 8545, sc_ReadTimeout = 60000000000, sc_WriteTimeout = 60000000000,
     sc_MaxRequestsPerIPAndSecond = 0x407F400000000000, sc_EnableHttpLog = True, sc_BatchRequestsEnabled = True, sc_BatchRequestsLimit = 20\<rparr>"

theorem http_refused_witness:
  "\<exists>w'. handle Some Some ex_config (\<lambda>_. None) fresh_writer (ex_http ''  '') (0 :: nat) = Some (w', 0) \<and> hw_Status w' = Some 400"
proof -
  have "skip_ws (take maxRequestContentLength ''  '') = []"
    by (auto simp: skip_ws_def is_ws_def dest: in_set_takeD)
  then have "refused Some ex_config (ex_http ''  '')" by (simp add: refused_def ex_http_def)
  from http_refused [OF this, of fresh_writer Some "\<lambda>_. None" 0] show ?thesis
    by (simp add: fresh_writer_def refusal_status_def ex_http_def maxRequestContentLength_def
        acceptedContentTypes_def read_limited_def)
qed

lemma isSingle_value:
  assumes "json_parse data = Some v"
  shows "isSingleRequest data = Inr (case v of JArr vs \<Rightarrow> False | _ \<Rightarrow> True)"
proof -
  obtain n r where "parse_value (Suc n) 0 data = Some (v, r)"
    using assms by (auto simp: json_parse_def split: option.splits if_splits)
  then show ?thesis
    by (cases "skip_ws data") (auto simp: isSingle_skip map_fst_Some scan_word_def split: list.splits if_splits)
qed

text \<open>
  A body that is valid JSON is taken for a batch exactly when its value is an array.
\<close>
lemma single_iff_not_array:
  assumes "json_parse data = Some v"
  shows "isSingleRequest data = Inr (case v of JArr vs \<Rightarrow> False | _ \<Rightarrow> True)"
  by (rule isSingle_value [OF assms])

lemma single_iff_not_array_example: "isSingleRequest '' [1]'' = Inr False"
proof -
  have "json_parse '' [1]'' = Some (JArr [JNum ''1''])" by code_simp
  from single_iff_not_array [OF this] show ?thesis by simp
qed

lemma sint_uint64: "sint (w :: uint64) = (if uint w < 2 ^ 63 then uint w else uint w - 2 ^ 64)"
proof -
  have u: "0 \<le> uint w" "uint w < 2 ^ 64" using uint_lt2p [of w] by simp_all
  have "sint w = take_bit 64 (uint w) - 2 ^ 64 * of_bool (bit (uint w) 63)"
    by (simp add: sint_uint signed_take_bit_eq_take_bit_minus)
  moreover have "take_bit 64 (uint w) = uint w" using u by (simp add: take_bit_int_eq_self)
  moreover have "uint w div 2 ^ 63 = (if uint w < 2 ^ 63 then 0 else 1)"
  proof (cases "uint w < 2 ^ 63")
    case True
    then show ?thesis using div_pos_pos_trivial [OF u(1)] by simp
  next
    case False
    have p: "(2 :: int) ^ 63 = 9223372036854775808" "(2 :: int) ^ 64 = 18446744073709551616" by simp_all
    have "uint w div 2 ^ 63 = 1"
      by (rule int_div_pos_eq [where r = "uint w - 2 ^ 63"]) (use u False p in linarith)+
    then show ?thesis using False by simp
  qed
  then have "bit (uint w) 63 \<longleftrightarrow> \<not> uint w < 2 ^ 63" by (auto simp: bit_iff_odd split: if_splits)
  ultimately show ?thesis by simp
qed

text \<open>
  C22. The limit of a batch: with batches enabled and a limit that is not 0, a batch is handled
  exactly when it has at most that many requests and the limit is below 2 to the 63; any
  other batch, also an empty one under a larger limit, is refused with status 413 and calls
  no endpoint.
\<close>
theorem batch_limit:
  assumes "sc_BatchRequestsEnabled cfg" and "parseRequests num data = Inr requests" and "0 < sc_BatchRequestsLimit cfg"
  shows "handleBatchRequest num cfg h req w data s =
    (if int (length requests) \<le> uint (sc_BatchRequestsLimit cfg) \<and> uint (sc_BatchRequestsLimit cfg) < 2 ^ 63
     then map_option (\<lambda>(responses, s'). (snd (http_write (json_marshal (JArr (map response_json responses))) w), s'))
            (handle_all num h req requests s)
     else Some (http_Error w ''batch requests limit exceeded'' 413, s))"
proof -
  have "uint (sc_BatchRequestsLimit cfg) < 2 ^ 64" using uint_lt2p [of "sc_BatchRequestsLimit cfg"] by simp
  then have "(sint (sc_BatchRequestsLimit cfg) < int (length requests)) \<longleftrightarrow>
      \<not> (int (length requests) \<le> uint (sc_BatchRequestsLimit cfg) \<and> uint (sc_BatchRequestsLimit cfg) < 2 ^ 63)"
    unfolding sint_uint64 by (cases "uint (sc_BatchRequestsLimit cfg) < 2 ^ 63") auto
  then show ?thesis using assms
    by (cases "handle_all num h req requests s")
      (auto simp: handleBatchRequest_def handleInvalidRequest_def ErrBatchRequestsLimitExceeded_def)
qed

theorem batch_limit_witness:
  "handleBatchRequest Some (ex_config\<lparr>sc_BatchRequestsLimit := 9223372036854775808\<rparr>) (\<lambda>_. None) (ex_http ''[]'') fresh_writer ''[]'' (0 :: nat)
     = Some (http_Error fresh_writer ''batch requests limit exceeded'' 413, 0)"
proof -
  have p: "parseRequests Some ''[]'' = Inr []" by code_simp
  show ?thesis
    by (subst batch_limit [OF _ p]) (simp_all add: ex_config_def)
qed

text \<open>
  A client that sends the requests of a batch one by one, each on a connection of its own.
\<close>

fun one_by_one ::
  "(gostring \<Rightarrow> gostring option) \<Rightarrow> (http_request, 'st) handler \<Rightarrow> http_request \<Rightarrow> gostring list \<Rightarrow> 'st \<Rightarrow>
    (gostring list \<times> 'st) option" where
  "one_by_one num h req [] s = Some ([], s)"
| "one_by_one num h req (data # datas) s = do {
     (w, s1) \<leftarrow> handleSingleRequest num h req fresh_writer data s;
     (bodies, s2) \<leftarrow> one_by_one num h req datas s1;
     Some (hw_Body w # bodies, s2) }"

fun comma_join :: "gostring list \<Rightarrow> gostring" where
  "comma_join [] = []"
| "comma_join [b] = b"
| "comma_join (b # c # bs) = b @ '','' @ comma_join (c # bs)"

lemma marshal_elems_join: "marshal_elems vs = comma_join (map json_marshal vs)"
proof (induction vs)
  case (Cons v vs)
  then show ?case by (cases vs) simp_all
qed simp

lemma one_by_one_handle_all:
  "list_all2 (\<lambda>data request. parseRequest num data = Inr request) datas requests \<Longrightarrow>
   one_by_one num h req datas s =
     map_option (\<lambda>(responses, s'). (map (\<lambda>r. json_marshal (response_json r)) responses, s')) (handle_all num h req requests s)"
proof (induction datas requests arbitrary: s rule: list_all2_induct)
  case (Cons data datas request requests)
  show ?case
  proof (cases "Handle num h req request s")
    case None
    then show ?thesis using Cons by (simp add: handleSingleRequest_def)
  next
    case (Some x)
    then show ?thesis using Cons
      by (cases x; cases "handle_all num h req requests (snd x)")
        (auto simp: handleSingleRequest_def http_write_def WriteHeader_def fresh_writer_def)
  qed
qed simp

text \<open>
  C21. A batch that is handled does what its requests do when they are sent one after the other,
  in the order of the batch: the same state behind the endpoints, and an array of the same
  bodies.
\<close>
theorem batch_is_one_by_one:
  assumes "sc_BatchRequestsEnabled cfg" and "sc_BatchRequestsLimit cfg = 0 \<or> int (length requests) \<le> sint (sc_BatchRequestsLimit cfg)"
    and "parseRequests num data = Inr requests"
    and "list_all2 (\<lambda>data request. parseRequest num data = Inr request) datas requests" and "hw_fails w = None"
  shows "map_option (\<lambda>(w', s'). (hw_Body w', s')) (handleBatchRequest num cfg h req w data s) =
     map_option (\<lambda>(bodies, s'). (hw_Body w @ ''['' @ comma_join bodies @ '']'', s')) (one_by_one num h req datas s)"
  using assms one_by_one_handle_all [OF assms(4), of h req s]
  by (cases "handle_all num h req requests s")
    (auto simp: handleBatchRequest_def http_write_def WriteHeader_def Let_def marshal_elems_join comp_def)

theorem batch_is_one_by_one_witness:
  "map_option (\<lambda>(w', s'). (hw_Body w', s'))
     (handleBatchRequest Some ex_config (\<lambda>_. None) (ex_http ''[{}]'') fresh_writer ''[{}]'' (0 :: nat)) =
   map_option (\<lambda>(bodies, s'). ([] @ ''['' @ comma_join bodies @ '']'', s'))
     (one_by_one Some (\<lambda>_. None) (ex_http ''[{}]'') [''{}''] 0)"
proof -
  have p: "parseRequests Some ''[{}]'' = Inr [zero_request]" "parseRequest Some ''{}'' = Inr zero_request" by code_simp+
  show ?thesis
    using batch_is_one_by_one [of ex_config "[zero_request]" Some "''[{}]''" "[''{}'']" fresh_writer "\<lambda>_. None" "ex_http ''[{}]''" "0 :: nat"] p
    by (simp add: ex_config_def fresh_writer_def)
qed

text \<open>The request a client writes.\<close>

definition request_json :: "Request \<Rightarrow> json" where
  "request_json r =
     JObj ([(''jsonrpc'', JStr (rq_JSONRPC r)), (''method'', JStr (rq_Method r))]
           @ (case rq_Params r of None \<Rightarrow> [] | Some v \<Rightarrow> [(''params'', v)])
           @ [(''id'', rq_ID r)])"

lemma fold_keys:
  "fold_key ''jsonrpc'' = ''JSONRPC''" "fold_key ''method'' = ''METHOD''" "fold_key ''params'' = ''PARAMS''"
  "fold_key ''id'' = ''ID''"
  by code_simp+

lemma set_field_known:
  "set_field num ''jsonrpc'' (JStr t) req = Some (req\<lparr>rq_JSONRPC := t\<rparr>)"
  "set_field num ''method'' (JStr t) req = Some (req\<lparr>rq_Method := t\<rparr>)"
  "set_field num ''params'' v req = Some (req\<lparr>rq_Params := Some v\<rparr>)"
  "set_field num ''id'' v req = map_option (\<lambda>j. req\<lparr>rq_ID := j\<rparr>) (iface num v)"
  by (simp_all add: set_field_def fold_keys decode_string_def del: fold_key.simps)

lemma parse_request_json:
  assumes "json_ok 0 (request_json r)" and "iface num (rq_ID r) = Some (rq_ID r)"
  shows "parseRequest num (json_marshal (request_json r)) = Inr r"
proof -
  have "decode_request num (request_json r) = Some r"
    using assms(2)
    by (cases "rq_Params r") (simp_all add: request_json_def decode_request_def set_field_known zero_request_def)
  then show ?thesis using json_roundtrip [OF assms(1)] by (simp add: parseRequest_def)
qed

text \<open>
  C26. The server reads the request that a client wrote: every field, with parameters of any
  shape that the scanner accepts.
\<close>
theorem request_roundtrip:
  assumes "json_ok 0 (request_json r)" and "iface num (rq_ID r) = Some (rq_ID r)"
  shows "parseRequest num (json_marshal (request_json r)) = Inr r"
  by (rule parse_request_json [OF assms])

theorem request_roundtrip_witness:
  "parseRequest Some (json_marshal (request_json (ex_request [JStr ''0x01'']))) = Inr (ex_request [JStr ''0x01''])"
  by (rule request_roundtrip) code_simp+

subsection \<open>Any request at all\<close>

locale http_service = rpc_service st_inv extends h
  for st_inv :: "'st \<Rightarrow> bool" and extends :: "'st \<Rightarrow> 'st \<Rightarrow> bool" and h :: "(http_request, 'st) handler"
begin

lemma handle_all_total:
  "st_inv s \<Longrightarrow> \<exists>resps s'. handle_all num h r requests s = Some (resps, s') \<and> st_inv s' \<and> extends s s'
     \<and> length resps = length requests"
proof (induction requests arbitrary: s)
  case Nil
  then show ?case using extends_refl by simp
next
  case (Cons request requests)
  obtain resp s1 where s1: "Handle num h r request s = Some (resp, s1)" "st_inv s1" "extends s s1"
    using Handle_total [OF Cons.prems] by blast
  obtain resps s2 where "handle_all num h r requests s1 = Some (resps, s2)" "st_inv s2" "extends s1 s2"
      "length resps = length requests"
    using Cons.IH [OF s1(2)] by blast
  then show ?case using s1 extends_trans by auto
qed

lemma handle_total:
  assumes "st_inv s"
  shows "\<exists>w' s'. handle mime num cfg h w req s = Some (w', s') \<and> st_inv s' \<and> extends s s'"
proof -
  let ?ok = "\<lambda>x. \<exists>w' s'. x = Some (w', s') \<and> st_inv s' \<and> extends s s'"
  have stay: "?ok (Some (w', s))" for w' :: response_writer using assms extends_refl by blast
  have single: "?ok (handleSingleRequest num h req w' data s)" for w' data
  proof (cases "parseRequest num data")
    case (Inl err)
    then show ?thesis using stay by (simp add: handleSingleRequest_def)
  next
    case (Inr request)
    obtain resp s1 where "Handle num h req request s = Some (resp, s1)" "st_inv s1" "extends s s1"
      using Handle_total [OF assms] by blast
    then show ?thesis using Inr by (auto simp: handleSingleRequest_def split: prod.split option.split)
  qed
  have batch: "?ok (handleBatchRequest num cfg h req w' data s)" for w' data
  proof (cases "parseRequests num data")
    case (Inl err)
    then show ?thesis using stay by (simp add: handleBatchRequest_def)
  next
    case (Inr requests)
    obtain resps s1 where "handle_all num h req requests s = Some (resps, s1)" "st_inv s1" "extends s s1"
      using handle_all_total [OF assms] by blast
    then show ?thesis using Inr stay by (simp add: handleBatchRequest_def)
  qed
  show ?thesis using stay single batch
    by (simp add: handle_def Let_def split: option.split sum.split prod.split)
qed

end

end
