(* ===== verification/PoolServer.thy ===== *)
theory PoolServer
  imports PoolSystem HttpServer
begin

section \<open>From the bytes of a request to the pool\<close>

text \<open>
  The server of \<open>server/server.go\<close> over the system of theory \<open>PoolSystem\<close>: the endpoints
  registered as \<open>NewServer\<close> does, and what one HTTP request does to the database, the
  sequencer and the monitor.
\<close>

text \<open>\<open>time.Now()\<close> in the endpoint.\<close>

definition take_now :: "pool_sys \<Rightarrow> gotime \<times> pool_sys" where
  "take_now s = (ps_clock s (ps_tick s), s\<lparr>ps_tick := ps_tick s + 1\<rparr>)"

text \<open>
  The endpoint as \<open>reflect.Value.Call\<close> runs it: one string beside the HTTP request, and a panic
  with any other number of arguments.
\<close>

definition send_raw_endpoint ::
  "MonitorConfig \<Rightarrow> 'tx eth_lib \<Rightarrow> (L2Transaction \<Rightarrow> L2Transaction option) \<Rightarrow> (http_request, pool_sys) endpoint_fn" where
  "send_raw_endpoint cfg lib enc httpRequest ins s =
     (case ins of
        [input] \<Rightarrow>
          (let (now, s0) = take_now s in
           map_option (\<lambda>(res, s'). (case res of
               Inl e \<Rightarrow> (None, Some (RpcServerError e))
             | Inr hash \<Rightarrow> (Some (JStr hash), None), s'))
             (sys_raw_tx cfg lib enc now (hr_Header httpRequest ''X-Forwarded-For'') input s0))
      | _ \<Rightarrow> None)"

text \<open>The methods of the type \<open>*Endpoints\<close>.\<close>

definition endpoint_methods ::
  "MonitorConfig \<Rightarrow> 'tx eth_lib \<Rightarrow> (L2Transaction \<Rightarrow> L2Transaction option) \<Rightarrow> (http_request, pool_sys) go_method list" where
  "endpoint_methods cfg lib enc =
     [\<lparr>gm_Name = ''SendRawTransaction'', gm_PkgPath = [], gm_http = True, gm_strings = 1,
       gm_out = [(''interface {}'', False), (''server.Error'', True)],
       gm_Func = send_raw_endpoint cfg lib enc\<rparr>]"

definition NewServer ::
  "(nat \<Rightarrow> nat) \<Rightarrow> MonitorConfig \<Rightarrow> 'tx eth_lib \<Rightarrow> (L2Transaction \<Rightarrow> L2Transaction option) \<Rightarrow> (http_request, pool_sys) handler option" where
  "NewServer table cfg lib enc = registerEndpoints table False (endpoint_methods cfg lib enc)"

lemma NewServer_handler:
  "NewServer table cfg lib enc = Some [''sendRawTransaction'' \<mapsto> method_data (hd (endpoint_methods cfg lib enc))]"
proof -
  have "byte (code CHR ''S'' + 32) = CHR ''s''" "in_range CHR ''S'' 65 90" by code_simp+
  then have "lowerCaseFirst table ''SendRawTransaction'' = ''sendRawTransaction''"
    using lowerCaseFirst_ascii [of "CHR ''S''" table "''endRawTransaction''"] by (simp only:)
  then show ?thesis
    by (simp add: NewServer_def registerEndpoints_def register_methods_eq endpoint_methods_def valid_method_def
        newJSONRpcHandler_def)
qed

lemma take_now_simps:
  "sys_inv (snd (take_now s)) = sys_inv s" "ps_db (snd (take_now s)) = ps_db s"
  "ps_sent (snd (take_now s)) = ps_sent s" "ps_answer (snd (take_now s)) = ps_answer s"
  "ps_live (snd (take_now s)) = ps_live s" "sys_status (snd (take_now s)) = sys_status s" "sys_watched (snd (take_now s)) = sys_watched s"
  by (simp_all add: take_now_def sys_inv_def ps_db_def sys_status_def sys_watched_def)

text \<open>A POST of one JSON value that is not an array reaches the handler.\<close>

definition acceptable :: "(gostring \<Rightarrow> gostring option) \<Rightarrow> http_request \<Rightarrow> bool" where
  "acceptable mime req \<longleftrightarrow>
     hr_Method req = ''POST'' \<and> hr_ContentLength req \<le> int maxRequestContentLength
     \<and> (\<exists>mt\<in>set acceptedContentTypes. mime (hr_Header req ''content-type'') = Some mt)
     \<and> hr_BodyErr req = None \<and> length (hr_Body req) \<le> maxRequestContentLength"

lemma parseRequest_single:
  assumes "parseRequest num data = Inr r"
  shows "isSingleRequest data = Inr True"
proof -
  obtain v where v: "json_parse data = Some v" "decode_request num v = Some r"
    using assms by (auto simp: parseRequest_def bind_eq_Some_conv split: option.splits)
  then show ?thesis using isSingle_value [OF v(1)] by (auto simp: decode_request_def split: json.splits)
qed

lemma handle_single:
  assumes "acceptable mime req" and "parseRequest num (hr_Body req) = Inr r"
  shows "handle mime num cfg h w req s = handleSingleRequest num h req (cors_headers w) (hr_Body req) s"
proof -
  have "validateRequest mime req = None" using assms(1) by (auto simp: acceptable_def validateRequest_def)
  moreover have "read_limited maxRequestContentLength req = (None, hr_Body req)"
    using assms(1) by (auto simp: acceptable_def read_limited_def)
  moreover have "hr_Method req = ''POST''" using assms(1) by (simp add: acceptable_def)
  ultimately show ?thesis using parseRequest_single [OF assms(2)] by (simp add: handle_def)
qed

text \<open>
  C1. A raw transaction over HTTP, from the bytes of the body to the pool: a POST whose body is
  a JSON-RPC request for \<open>sendRawTransaction\<close>, under any name in front of the underscore,
  with the string of a valid transaction as its parameter. In a good state, in which
  a worker of the sender has dialled, and with requests one at a time, over a database that works the
  status is 200 and the body the JSON of a response with the identifier of the request and
  the hash, or the message of the sequencer with code -32000; the sequencer is called once,
  with the string of the parameter; one new transaction is in the table, as sent and
  monitored when the sequencer accepted it and as invalid when not; no other is touched.
\<close>
theorem http_send_raw:
  assumes "acceptable mime req" and "parseRequest num (hr_Body req) = Inr r"
    and "rq_Method r = p @ ''_sendRawTransaction''" and "CHR ''_'' \<notin> set p"
    and "rq_Params r = Some (JArr [JStr input])"
    and "NewServer table cfg lib enc = Some h"
    and "sys_inv s" "all_ok (ps_db s)" "db_seq (ps_db s) \<le> max_serial"
    and "hexToTx lib input = Some tx" "eth_MarshalJSON lib tx = Inr decoded"
    and "enc (new_l2tx lib (fst (take_now s)) (hr_Header req ''X-Forwarded-For'') input decoded tx) = Some row"
    and "ps_answer s (ps_sent s) input = answer"
  shows "\<exists>w' i s'. handle mime num scfg h fresh_writer req s = Some (w', s')
    \<and> hw_Status w' = Some 200 \<and> hw_Header w' ''Content-Type'' = Some ''application/json''
    \<and> hw_Body w' = json_marshal (response_json \<lparr>rs_JSONRPC = rq_JSONRPC r, rs_Id = rq_ID r,
         rs_Result = (if answer = None then Some (JStr (eth_Hash lib tx)) else None),
         rs_Error = map_option (\<lambda>e. \<lparr>eo_Code = - 32000, eo_Message = e, eo_Data = None\<rparr>) answer\<rparr>)
    \<and> sys_inv s' \<and> ps_sent s' = ps_sent s @ [input] \<and> sys_status s i = None
    \<and> sys_status s' = (sys_status s)(i \<mapsto> if answer = None then TxStatusSent else TxStatusInvalid)
    \<and> sys_watched s' = (if answer = None then insert i (sys_watched s) else sys_watched s)"
proof -
  let ?m = "hd (endpoint_methods cfg lib enc)" and ?s0 = "snd (take_now s)"
  let ?err = "\<lambda>e. \<lparr>se_err = e, se_code = - 32000, se_data = None\<rparr>"
  have h: "h ''sendRawTransaction'' = Some (method_data ?m)" using assms(6) NewServer_handler [of table cfg lib enc] by auto
  obtain i s' where run: "sys_raw_tx cfg lib enc (fst (take_now s)) (hr_Header req ''X-Forwarded-For'') input ?s0 =
        Some (case answer of None \<Rightarrow> Inr (eth_Hash lib tx) | Some e \<Rightarrow> Inl (?err e), s')"
      and eff: "sys_inv s'" "ps_sent s' = ps_sent s @ [input]" "sys_status s i = None"
        "sys_status s' = (sys_status s)(i \<mapsto> if answer = None then TxStatusSent else TxStatusInvalid)"
        "sys_watched s' = (if answer = None then insert i (sys_watched s) else sys_watched s)"
    using sys_raw_tx_result [where s = ?s0 and enc = enc and now = "fst (take_now s)" and row = row and cfg = cfg
        and ips = "hr_Header req ''X-Forwarded-For''" and answer = answer, OF _ _ _ assms(10,11,12)] assms(7-9,13)
    unfolding take_now_simps by blast
  have "gm_Func ?m req [input] s =
      Some (case answer of None \<Rightarrow> (Some (JStr (eth_Hash lib tx)), None) | Some e \<Rightarrow> (None, Some (RpcServerError (?err e))), s')"
    using run by (cases answer) (simp_all add: endpoint_methods_def send_raw_endpoint_def split_def Let_def)
  moreover have "gm_strings ?m = 1" "gm_http ?m" by (simp_all add: endpoint_methods_def)
  moreover have "string_args 1 [JStr input] = [input]" by (simp add: string_args_def string_arg_def)
  moreover have "rq_Method r = p @ CHR ''_'' # ''sendRawTransaction''" using assms(3) by simp
  ultimately have resp: "Handle num h req r s =
      call_response r (Some (case answer of None \<Rightarrow> (Some (JStr (eth_Hash lib tx)), None)
        | Some e \<Rightarrow> (None, Some (RpcServerError (?err e))), s'))"
    using Handle_strings [of h "''sendRawTransaction''" ?m r p "[JStr input]" num req s] h assms(4,5)
    by (simp add: string_or_null_def)
  let ?resp = "\<lparr>rs_JSONRPC = rq_JSONRPC r, rs_Id = rq_ID r,
      rs_Result = (if answer = None then Some (JStr (eth_Hash lib tx)) else None),
      rs_Error = map_option (\<lambda>e. \<lparr>eo_Code = - 32000, eo_Message = e, eo_Data = None\<rparr>) answer\<rparr>"
  have "Handle num h req r s = Some (?resp, s')"
    unfolding resp by (cases answer) (simp_all add: call_response_def getError_def NewResponse_def)
  then have "handle mime num scfg h fresh_writer req s =
      Some (snd (http_write (json_marshal (response_json ?resp)) (cors_headers fresh_writer)), s')"
    unfolding handle_single [OF assms(1,2)]
    by (simp add: handleSingleRequest_def assms(2) http_write_def Let_def fresh_writer_def cors_headers_def
        header_set_def WriteHeader_def del: json_marshal.simps)
  moreover have "hw_Status (snd (http_write b (cors_headers fresh_writer))) = Some 200"
    "hw_Header (snd (http_write b (cors_headers fresh_writer))) ''Content-Type'' = Some ''application/json''"
    "hw_Body (snd (http_write b (cors_headers fresh_writer))) = b" for b
    by (simp_all add: http_write_def fresh_writer_def cors_headers_def header_set_def WriteHeader_def contentType_def)
  ultimately show ?thesis using eff
    by (intro exI [of _ "snd (http_write (json_marshal (response_json ?resp)) (cors_headers fresh_writer))"]
        exI [of _ i] exI [of _ s']) (simp del: json_marshal.simps)
qed

definition ex_raw_request :: Request where
  "ex_raw_request = \<lparr>rq_JSONRPC = ''2.0'', rq_ID = JNum ''7'', rq_Method = ''eth_sendRawTransaction'',
     rq_Params = Some (JArr [JStr ''0x01''])\<rparr>"

theorem http_send_raw_witness:
  "\<exists>w' i s'. handle Some Some ex_config [''sendRawTransaction'' \<mapsto> method_data (hd (endpoint_methods ex_cfg ex_lib Some))]
       fresh_writer (ex_http (json_marshal (request_json ex_raw_request))) (ex_sys calm) = Some (w', s')
     \<and> hw_Status w' = Some 200 \<and> ps_sent s' = [''0x01''] \<and> sys_status s' i = Some TxStatusSent \<and> sys_watched s' = {i}"
proof -
  let ?body = "json_marshal (request_json ex_raw_request)"
  have ok: "all_ok (ps_db (ex_sys calm))" "db_seq (ps_db (ex_sys calm)) \<le> max_serial"
    by (simp_all add: ex_sys_db all_ok_def NewPoolDB_def calm_def max_serial_def)
  have j: "eth_MarshalJSON ex_lib [1] = Inr ''{}''" by (simp add: ex_lib_def)
  have a: "ps_answer (ex_sys calm) (ps_sent (ex_sys calm)) ''0x01'' = None" by (simp add: ex_sys_db)
  have body: "parseRequest Some ?body = Inr ex_raw_request"
    by (rule parse_request_json) code_simp+
  have "length ?body \<le> 100" by code_simp
  then have acc: "acceptable Some (ex_http ?body)"
    by (simp add: acceptable_def ex_http_def acceptedContentTypes_def maxRequestContentLength_def
        del: json_marshal.simps)
  have p: "parseRequest Some (hr_Body (ex_http ?body)) = Inr ex_raw_request" using body by (simp add: ex_http_def)
  have m: "rq_Method ex_raw_request = ''eth'' @ ''_sendRawTransaction''" "CHR ''_'' \<notin> set ''eth''"
      "rq_Params ex_raw_request = Some (JArr [JStr ''0x01''])"
    by (simp_all add: ex_raw_request_def)
  obtain w' i s' where r: "handle Some Some ex_config [''sendRawTransaction'' \<mapsto> method_data (hd (endpoint_methods ex_cfg ex_lib Some))]
       fresh_writer (ex_http ?body) (ex_sys calm) = Some (w', s')"
      "hw_Status w' = Some 200" "ps_sent s' = ps_sent (ex_sys calm) @ [''0x01'']"
      "sys_status s' = (sys_status (ex_sys calm))(i \<mapsto> if (None :: goerror) = None then TxStatusSent else TxStatusInvalid)"
      "sys_watched s' = (if (None :: goerror) = None then insert i (sys_watched (ex_sys calm)) else sys_watched (ex_sys calm))"
    using http_send_raw [where scfg = ex_config and enc = Some and cfg = ex_cfg, OF acc p m NewServer_handler ex_sys_inv ok ex_hexToTx j refl a] by blast
  then have "ps_sent s' = [''0x01'']" "sys_status s' i = Some TxStatusSent" "sys_watched s' = {i}"
    by (simp_all add: ex_sys_db)
  with r(1,2) show ?thesis by blast
qed

subsection \<open>The server keeps the system\<close>

text \<open>
  The transactions that are in the table keep their statuses, those that are monitored stay
  so, and what was sent to the sequencer is only added to.
\<close>

definition sys_extends :: "pool_sys \<Rightarrow> pool_sys \<Rightarrow> bool" where
  "sys_extends s s' \<longleftrightarrow>
     (\<forall>i st. sys_status s i = Some st \<longrightarrow> sys_status s' i = Some st)
     \<and> sys_watched s \<subseteq> sys_watched s' \<and> (\<exists>more. ps_sent s' = ps_sent s @ more)"

lemma sys_extends_refl: "sys_extends s s"
  by (simp add: sys_extends_def)

lemma sys_extends_trans: "sys_extends s s' \<Longrightarrow> sys_extends s' s'' \<Longrightarrow> sys_extends s s''"
  by (auto simp: sys_extends_def)

lemma sys_addtx_extends:
  assumes "sys_inv s" and "sys_addtx enc tx s = ((i, err), s1)"
  shows "sys_inv s1 \<and> sys_extends s s1 \<and> ps_sent s1 = ps_sent s \<and> sys_status s i = None"
proof -
  obtain d where d: "AddL2Transaction enc tx (ps_db s) = ((i, err), d)" "s1 = set_db d s"
    using assms(2) by (auto simp: sys_addtx_def split: prod.splits)
  have inv: "db_inv (ps_db s)" using assms(1) by (simp add: sys_inv_def)
  have "db_inv d" using db_inv_Add [OF inv, of enc tx] d(1) by simp
  moreover have "\<exists>new. db_rows d = db_rows (ps_db s) @ new" and i: "status_of (ps_db s) i = None"
    using add_tx_ok [OF inv, of enc tx i d] add_tx_error [OF inv, of enc tx i _ d] status_of_zero [OF inv] d(1)
    by (cases err; fastforce)+
  then obtain new where new: "db_rows d = db_rows (ps_db s) @ new" by blast
  have "find P (xs @ ys) = Some r" if "find P xs = Some r" for P and xs ys :: "pool_row list" and r
    using that by (induction xs) (auto split: if_splits)
  then have "status_of d j = Some st" if "status_of (ps_db s) j = Some st" for j st
    using that by (fastforce simp: status_of_def new)
  ultimately show ?thesis using assms(1) d(2) i
    by (auto simp: sys_inv_def sys_extends_def sys_status_def sys_watched_def)
qed

lemma sys_send_extends:
  assumes "sys_inv s" and "sys_status s0 (tx_Id tx) = None" and "sys_extends s0 s"
  shows "\<exists>err s'. sys_send cfg (Some tx) s = Some (err, s') \<and> sys_inv s' \<and> sys_extends s0 s'"
proof -
  obtain err s1 where c: "sys_call (tx_Encoded tx) s = (err, s1)" by fastforce
  obtain s' where s': "sys_send cfg (Some tx) s = Some (err, s')" "sys_inv s'"
      "sys_status s' = sys_status s
       \<or> sys_status s' = set_status (tx_Id tx) (if err = None then TxStatusSent else TxStatusInvalid) (sys_status s)"
      "sys_watched s \<subseteq> sys_watched s'"
    using pool_system.send_result [OF assms(1) c, of cfg] unfolding sys_send_def by (metis subset_insertI subset_refl)
  have "sys_status s' i = Some st" if "sys_status s0 i = Some st" for i st
    using that assms(2,3) s'(3) by (auto simp: sys_extends_def set_status_def split: if_splits)
  then show ?thesis
    using s' assms(3) sys_send_frame(2) [OF assms(1) s'(1)] by (auto simp: sys_extends_def)
qed

lemma sys_raw_tx_total:
  assumes "sys_inv s"
  shows "\<exists>res s'. sys_raw_tx cfg lib enc now ips input s = Some (res, s') \<and> sys_inv s' \<and> sys_extends s s'"
proof -
  have stay: "\<exists>res s'. Some (x, s) = Some (res, s') \<and> sys_inv s' \<and> sys_extends s s'" for x :: "ServerError + gostring"
    using assms sys_extends_refl by blast
  show ?thesis
  proof (cases "hexToTx lib input")
    case None
    then show ?thesis using stay by (simp add: sys_raw_tx_def SendRawTransaction_def)
  next
    case tx: (Some tx)
    show ?thesis
    proof (cases "eth_MarshalJSON lib tx")
      case (Inl err)
      then show ?thesis using stay tx by (simp add: sys_raw_tx_def SendRawTransaction_def)
    next
      case (Inr decoded)
      let ?l2 = "new_l2tx lib now ips input decoded tx"
      obtain i err s1 where a: "sys_addtx enc ?l2 s = ((i, err), s1)" by (metis surj_pair)
      note ext = sys_addtx_extends [OF assms a]
      have "sys_status s (tx_Id (?l2\<lparr>tx_Id := i\<rparr>)) = None" using ext by simp
      then obtain e s' where "sys_send cfg (Some (?l2\<lparr>tx_Id := i\<rparr>)) s1 = Some (e, s')" "sys_inv s'" "sys_extends s s'"
        using sys_send_extends [of s1 s] ext by blast
      then show ?thesis using tx Inr a
        by (cases e) (simp_all add: sys_raw_tx_def SendRawTransaction_def Let_def)
    qed
  qed
qed

interpretation pool_service: http_service sys_inv sys_extends
  "[''sendRawTransaction'' \<mapsto> method_data (hd (endpoint_methods cfg lib enc))]"
proof (unfold_locales, goal_cases)
  case (1 s)
  show ?case by (rule sys_extends_refl)
next
  case (2 s s' s'')
  then show ?case by (rule sys_extends_trans)
next
  case (3 s name fd ins r)
  then have fd: "fd = method_data (hd (endpoint_methods cfg lib enc))" by (simp split: if_splits)
  have run: "ed_fv fd = send_raw_endpoint cfg lib enc" by (simp add: fd endpoint_methods_def)
  have "ed_strings fd = 1" by (simp add: fd ed_strings_def endpoint_methods_def gm_in_def method_data_def numParams_def new_endpointData_def)
  then obtain input where ins: "ins = [input]" using 3(3) by (cases ins) auto
  have now: "sys_inv (snd (take_now s))" "sys_extends s (snd (take_now s))"
    using 3(1) by (simp_all add: take_now_simps sys_extends_def)
  obtain res s' where "sys_raw_tx cfg lib enc (fst (take_now s)) (hr_Header r ''X-Forwarded-For'') input (snd (take_now s))
      = Some (res, s')" "sys_inv s'" "sys_extends (snd (take_now s)) s'"
    using sys_raw_tx_total [OF now(1)] by blast
  then show ?case using now(2) sys_extends_trans [OF now(2)] run ins
    by (cases res) (auto simp: send_raw_endpoint_def split_def Let_def)
qed

text \<open>
  Without a worker of the sender that has dialled, a request with a valid transaction is never
  answered: its goroutine waits in \<open>SendL2Transaction\<close>. What waits there together with others is
  the subject of theory \<open>SenderQueue\<close>.
\<close>

lemma server_waits:
  assumes "acceptable mime req" and "parseRequest num (hr_Body req) = Inr r"
    and "rq_Method r = p @ ''_sendRawTransaction''" and "CHR ''_'' \<notin> set p"
    and "rq_Params r = Some (JArr [JStr input])"
    and "NewServer table cfg lib enc = Some h" and "\<not> ps_live s"
    and "hexToTx lib input = Some tx" "eth_MarshalJSON lib tx = Inr decoded"
  shows "handle mime num scfg h w req s = None"
proof -
  let ?m = "hd (endpoint_methods cfg lib enc)" and ?s0 = "snd (take_now s)"
  have h: "h ''sendRawTransaction'' = Some (method_data ?m)" using assms(6) NewServer_handler [of table cfg lib enc] by auto
  obtain i err s1 where add: "sys_addtx enc (new_l2tx lib (fst (take_now s)) (hr_Header req ''X-Forwarded-For'') input decoded tx) ?s0
      = ((i, err), s1)" by (metis surj_pair)
  then have "\<not> ps_live s1" using assms(7) by (auto simp: sys_addtx_def take_now_simps split: prod.splits)
  then have "sys_raw_tx cfg lib enc (fst (take_now s)) (hr_Header req ''X-Forwarded-For'') input ?s0 = None"
    using add assms(8,9) by (simp add: sys_raw_tx_def SendRawTransaction_def sys_send_waits Let_def)
  then have "gm_Func ?m req [input] s = None"
    by (simp add: endpoint_methods_def send_raw_endpoint_def split_def Let_def)
  moreover have "gm_strings ?m = 1" "gm_http ?m" by (simp_all add: endpoint_methods_def)
  moreover have "string_args 1 [JStr input] = [input]" by (simp add: string_args_def string_arg_def)
  moreover have "rq_Method r = p @ CHR ''_'' # ''sendRawTransaction''" using assms(3) by simp
  ultimately have "Handle num h req r s = None"
    using Handle_strings [of h "''sendRawTransaction''" ?m r p "[JStr input]" num req s] h assms(4,5)
    by (simp add: string_or_null_def call_response_def)
  then show ?thesis unfolding handle_single [OF assms(1,2)] by (simp add: handleSingleRequest_def assms(2))
qed

text \<open>
  C2. In a good state, in which a worker of the sender has dialled, and with requests one at a time,
  each served to its end: whatever bytes a client sends, with whatever method and headers, and
  whatever database, sequencer and connection do, the server answers without a panic, the pool is
  in a good state again, no transaction that was in the table has another status, none that was
  monitored is lost, and nothing that was sent to the sequencer is unsent. The condition on the
  workers is needed: without it a valid transaction is never answered (lemma \<open>server_waits\<close>, and for
  all workers dead and requests at the same time theory \<open>SenderQueue\<close>). With requests at the same
  time the retry loop of the monitor can bring the process down (theory \<open>PipelineProps\<close>).
\<close>
theorem server_survives:
  assumes "NewServer table cfg lib enc = Some h" and "sys_inv s"
  shows "\<exists>w' s'. handle mime num scfg h w req s = Some (w', s') \<and> sys_inv s' \<and> sys_extends s s'"
  using pool_service.handle_total [OF assms(2)] assms(1) unfolding NewServer_handler by blast

theorem server_survives_witness:
  "\<exists>w' s'. handle Some Some ex_config [''sendRawTransaction'' \<mapsto> method_data (hd (endpoint_methods ex_cfg ex_lib Some))]
     fresh_writer (ex_http ''{'') (ex_sys (fails_at 0)) = Some (w', s') \<and> sys_inv s'"
  using server_survives [OF NewServer_handler ex_sys_inv] by blast

end
