(* ===== verification/Logging.thy ===== *)
theory Logging
  imports GoFmt
begin

section \<open>The logger\<close>

text \<open>
  Model of \<open>log/log.go\<close>, \<open>db/logger.go\<close> and \<open>version.go\<close>: the root logger that is made when it is
  first used, the loggers derived from it, the functions and methods for each severity, and
  the stack trace that is added to a message with an error. The library \<open>zap\<close> is a parameter
  over a type \<open>'z\<close> of its loggers, the frames of an error come from \<open>tracerr\<close>, a parameter too.
\<close>

subsection \<open>Stack traces\<close>

record frame =
  fr_Path :: gostring
  fr_Line :: nat
  fr_Func :: gostring

definition sprintFrame :: "frame \<Rightarrow> gostring" where
  "sprintFrame f = [CHR 0x0A] @ fr_Path f @ '':'' @ format_nat 10 (fr_Line f) @ '' '' @ fr_Func f @ ''()''"

definition sprintStackTrace :: "frame list \<Rightarrow> gostring" where
  "sprintStackTrace st =
     (let st' = (if 0 < length st then take (length st - 1) st else st) in
      concat (map sprintFrame st') @ [CHR 0x0A])"

text \<open>The loops stop at the first error; of keys and values only the values count.\<close>

fun first_error :: "fmt_arg list \<Rightarrow> gostring option" where
  "first_error [] = None"
| "first_error (a # args) = (case a of FmtError ty e \<Rightarrow> Some e | _ \<Rightarrow> first_error args)"

fun first_error_value :: "fmt_arg list \<Rightarrow> gostring option" where
  "first_error_value (k # v # kv) = (case v of FmtError ty e \<Rightarrow> Some e | _ \<Rightarrow> first_error_value kv)"
| "first_error_value _ = None"

definition appendStackTraceMaybeArgs :: "(gostring \<Rightarrow> frame list) \<Rightarrow> fmt_arg list \<Rightarrow> fmt_arg list" where
  "appendStackTraceMaybeArgs trace args =
     (case first_error args of
        None \<Rightarrow> args
      | Some err \<Rightarrow> args @ [FmtString (sprintStackTrace (trace err))])"

definition appendStackTraceMaybeKV :: "(gostring \<Rightarrow> frame list) \<Rightarrow> gostring \<Rightarrow> fmt_arg list \<Rightarrow> gostring" where
  "appendStackTraceMaybeKV trace msg kv =
     (case first_error_value kv of
        None \<Rightarrow> msg
      | Some err \<Rightarrow> msg @ '': '' @ err @ sprintStackTrace (trace err) @ [CHR 0x0A])"

text \<open>The frames are printed by the template of the source.\<close>

lemma sprintFrame_template:
  "Sprintf (CHR 0x0A # ''%s:%d %s()'') [FmtString (fr_Path f), FmtInt ''int'' (int (fr_Line f)), FmtString (fr_Func f)]
     = Some (sprintFrame f)"
  by (simp add: Sprintf_def extra_text_def sprintFrame_def)

lemma first_error_iff: "first_error args \<noteq> None \<longleftrightarrow> (\<exists>ty e. FmtError ty e \<in> set args)"
  by (induction args) (auto split: fmt_arg.split)

lemma first_error_value_iff:
  "first_error_value kv \<noteq> None \<longleftrightarrow> (\<exists>i ty e. odd i \<and> i < length kv \<and> kv ! i = FmtError ty e)"
proof (induction kv rule: first_error_value.induct)
  case (1 k v kv)
  have "(\<exists>i ty e. odd i \<and> i < length (k # v # kv) \<and> (k # v # kv) ! i = FmtError ty e) \<longleftrightarrow>
      (\<exists>ty e. v = FmtError ty e) \<or> (\<exists>i ty e. odd i \<and> i < length kv \<and> kv ! i = FmtError ty e)" (is "?l \<longleftrightarrow> ?r")
  proof
    assume ?l
    then obtain i ty e where i: "odd i" "i < length (k # v # kv)" "(k # v # kv) ! i = FmtError ty e" by blast
    then obtain j where j: "i = Suc j" by (cases i) auto
    show ?r
    proof (cases j)
      case 0
      then show ?thesis using i j by simp
    next
      case (Suc l)
      then show ?thesis using i j by auto
    qed
  next
    assume ?r
    then show ?l
    proof (elim disjE exE conjE)
      fix i ty e assume "odd i" "i < length kv" "kv ! i = FmtError ty e"
      then show ?thesis by (intro exI [of _ "Suc (Suc i)"]) auto
    qed (use odd_one in \<open>fastforce intro!: exI [of _ 1]\<close>)
  qed
  then show ?case using 1 by (auto split: fmt_arg.splits)
qed (auto simp: less_Suc_eq)

subsection \<open>Loggers\<close>

definition Version :: gostring where
  "Version = ''v0.1.0''"

definition EnvironmentProduction :: gostring where
  "EnvironmentProduction = ''production''"

definition EnvironmentDevelopment :: gostring where
  "EnvironmentDevelopment = ''development''"

record LogConfig =
  lc_Environment :: gostring
  lc_Level :: gostring
  lc_Outputs :: "gostring list"

text \<open>What is set of a configuration of \<open>zap\<close>, over its production or its development values.\<close>

record zap_config =
  zc_Production :: bool
  zc_CapitalColor :: bool
  zc_Level :: gostring
  zc_OutputPaths :: "gostring list"
  zc_InitialFields :: "(gostring \<times> fmt_arg) list"

record 'z zap_lib =
  zp_UnmarshalText :: "gostring \<Rightarrow> goerror"
  zp_Build :: "zap_config \<Rightarrow> gostring + 'z"
  zp_AddCallerSkip :: "int \<Rightarrow> 'z \<Rightarrow> 'z"
  zp_With :: "fmt_arg list \<Rightarrow> 'z \<Rightarrow> 'z"
  zp_Getpid :: int

datatype severity = SevDebug | SevInfo | SevWarn | SevError | SevFatal

text \<open>What is asked of a logger of \<open>zap\<close>: its methods \<open>Debug\<close>, \<open>Debugf\<close>, \<open>Debugw\<close> and so on.\<close>

datatype log_call =
    LogPrint severity "fmt_arg list"
  | LogPrintf severity gostring "fmt_arg list"
  | LogPrintw severity gostring "fmt_arg list"

fun call_severity :: "log_call \<Rightarrow> severity" where
  "call_severity (LogPrint sev args) = sev"
| "call_severity (LogPrintf sev t args) = sev"
| "call_severity (LogPrintw sev msg kv) = sev"

text \<open>
  A line of the log: the logger, the call, and how many functions of the package are on the
  stack between the code that logs and \<open>zap\<close>. A fatal line ends the process.
\<close>

record 'z log_line =
  ll_logger :: 'z
  ll_call :: log_call
  ll_frames :: nat

record 'z log_state =
  lg_root :: "'z option"
  lg_lines :: "'z log_line list"
  lg_exited :: bool

definition zap_log :: "nat \<Rightarrow> 'z \<Rightarrow> log_call \<Rightarrow> 'z log_state \<Rightarrow> 'z log_state" where
  "zap_log frames z call s =
     s\<lparr>lg_lines := lg_lines s @ [\<lparr>ll_logger = z, ll_call = call, ll_frames = frames\<rparr>],
       lg_exited := (lg_exited s \<or> call_severity call = SevFatal)\<rparr>"

definition NewLogger :: "'z zap_lib \<Rightarrow> LogConfig \<Rightarrow> gostring + 'z" where
  "NewLogger lib cfg =
     (case zp_UnmarshalText lib (lc_Level cfg) of
        Some err \<Rightarrow> Inl (''error on setting log level: '' @ err)
      | None \<Rightarrow>
          (let production = (lc_Environment cfg = EnvironmentProduction) in
           case zp_Build lib \<lparr>zc_Production = production, zc_CapitalColor = (\<not> production), zc_Level = lc_Level cfg,
                  zc_OutputPaths = lc_Outputs cfg,
                  zc_InitialFields = [(''version'', FmtString Version), (''pid'', FmtInt ''int'' (zp_Getpid lib))]\<rparr> of
             Inl err \<Rightarrow> Inl err
           | Inr logger \<Rightarrow> Inr (zp_AddCallerSkip lib 2 logger)))"

text \<open>\<^term>\<open>None\<close> is the panic when no logger can be made.\<close>

definition default_log_config :: LogConfig where
  "default_log_config = \<lparr>lc_Environment = EnvironmentDevelopment, lc_Level = ''debug'', lc_Outputs = [''stderr'']\<rparr>"

definition getDefaultLog :: "'z zap_lib \<Rightarrow> 'z log_state \<Rightarrow> ('z \<times> 'z log_state) option" where
  "getDefaultLog lib s =
     (case lg_root s of
        Some l \<Rightarrow> Some (l, s)
      | None \<Rightarrow>
          (case NewLogger lib default_log_config of
             Inl err \<Rightarrow> None
           | Inr z \<Rightarrow> Some (z, s\<lparr>lg_root := Some z\<rparr>)))"

definition Init :: "'z zap_lib \<Rightarrow> LogConfig \<Rightarrow> 'z log_state \<Rightarrow> 'z log_state option" where
  "Init lib cfg s =
     (case NewLogger lib cfg of Inl err \<Rightarrow> None | Inr z \<Rightarrow> Some (s\<lparr>lg_root := Some z\<rparr>))"

subsection \<open>Methods of a logger\<close>

text \<open>Each is one more frame, and hands its arguments on.\<close>

definition LoggerWithFields :: "'z zap_lib \<Rightarrow> fmt_arg list \<Rightarrow> 'z \<Rightarrow> 'z" where
  "LoggerWithFields lib keyValuePairs l = zp_With lib keyValuePairs l"

definition LoggerPrint :: "nat \<Rightarrow> severity \<Rightarrow> 'z \<Rightarrow> fmt_arg list \<Rightarrow> 'z log_state \<Rightarrow> 'z log_state" where
  "LoggerPrint frames sev l args s = zap_log (frames + 1) l (LogPrint sev args) s"

definition LoggerPrintf :: "nat \<Rightarrow> severity \<Rightarrow> 'z \<Rightarrow> gostring \<Rightarrow> fmt_arg list \<Rightarrow> 'z log_state \<Rightarrow> 'z log_state" where
  "LoggerPrintf frames sev l template args s = zap_log (frames + 1) l (LogPrintf sev template args) s"

definition LoggerPrintw :: "nat \<Rightarrow> severity \<Rightarrow> 'z \<Rightarrow> gostring \<Rightarrow> fmt_arg list \<Rightarrow> 'z log_state \<Rightarrow> 'z log_state" where
  "LoggerPrintw frames sev l msg kv s = zap_log (frames + 1) l (LogPrintw sev msg kv) s"

subsection \<open>Functions on the root logger\<close>

definition WithFields :: "'z zap_lib \<Rightarrow> fmt_arg list \<Rightarrow> 'z log_state \<Rightarrow> ('z \<times> 'z log_state) option" where
  "WithFields lib keyValuePairs s =
     do { (l, s1) \<leftarrow> getDefaultLog lib s;
          Some (zp_AddCallerSkip lib (- 1) (LoggerWithFields lib keyValuePairs l), s1) }"

definition RootPrint ::
  "'z zap_lib \<Rightarrow> (gostring \<Rightarrow> frame list) \<Rightarrow> severity \<Rightarrow> fmt_arg list \<Rightarrow> 'z log_state \<Rightarrow> 'z log_state option" where
  "RootPrint lib trace sev args s =
     (let args = (if sev \<in> {SevError, SevFatal} then appendStackTraceMaybeArgs trace args else args) in
      do { (l, s1) \<leftarrow> getDefaultLog lib s; Some (LoggerPrint 1 sev l args s1) })"

definition RootPrintf ::
  "'z zap_lib \<Rightarrow> (gostring \<Rightarrow> frame list) \<Rightarrow> severity \<Rightarrow> gostring \<Rightarrow> fmt_arg list \<Rightarrow> 'z log_state \<Rightarrow> 'z log_state option" where
  "RootPrintf lib trace sev template args s =
     (let args = (if sev \<in> {SevError, SevFatal} then appendStackTraceMaybeArgs trace args else args) in
      do { (l, s1) \<leftarrow> getDefaultLog lib s; Some (LoggerPrintf 1 sev l template args s1) })"

definition RootPrintw ::
  "'z zap_lib \<Rightarrow> (gostring \<Rightarrow> frame list) \<Rightarrow> severity \<Rightarrow> gostring \<Rightarrow> fmt_arg list \<Rightarrow> 'z log_state \<Rightarrow> 'z log_state option" where
  "RootPrintw lib trace sev msg kv s =
     (let msg = (if sev \<in> {SevError, SevFatal} then appendStackTraceMaybeKV trace msg kv else msg) in
      do { (l, s1) \<leftarrow> getDefaultLog lib s; Some (LoggerPrintw 1 sev l msg kv s1) })"

subsection \<open>The logger of the database driver\<close>

datatype pgx_level = PgxInfo | PgxWarn | PgxError | PgxOther gostring

text \<open>The map of data is printed by \<open>%v\<close>; its text is a parameter.\<close>

definition pgxLog ::
  "'z zap_lib \<Rightarrow> (gostring \<Rightarrow> frame list) \<Rightarrow> pgx_level \<Rightarrow> gostring \<Rightarrow> gostring \<Rightarrow> 'z log_state \<Rightarrow> 'z log_state option" where
  "pgxLog lib trace level msg data s =
     (let m = msg @ '' '' @ data in
      case level of
        PgxInfo \<Rightarrow> RootPrint lib trace SevInfo [FmtString m] s
      | PgxWarn \<Rightarrow> RootPrint lib trace SevWarn [FmtString m] s
      | PgxError \<Rightarrow> RootPrint lib trace SevError [FmtString m] s
      | PgxOther name \<Rightarrow> RootPrint lib trace SevDebug [FmtString (name @ '' '' @ m)] s)"

subsection \<open>What is used outside\<close>

text \<open>
  What the other packages can do, in any order: set up the root logger, log through it, derive
  a logger, log through a derived one, or derive from one. The state is that of the package
  and the loggers that have been handed out.
\<close>

datatype log_op =
    OpInit LogConfig
  | OpRoot log_call
  | OpWithFields "fmt_arg list"
  | OpLogger nat log_call
  | OpLoggerWithFields nat "fmt_arg list"

fun root_call :: "'z zap_lib \<Rightarrow> (gostring \<Rightarrow> frame list) \<Rightarrow> log_call \<Rightarrow> 'z log_state \<Rightarrow> 'z log_state option" where
  "root_call lib trace (LogPrint sev args) s = RootPrint lib trace sev args s"
| "root_call lib trace (LogPrintf sev template args) s = RootPrintf lib trace sev template args s"
| "root_call lib trace (LogPrintw sev msg kv) s = RootPrintw lib trace sev msg kv s"

fun logger_call :: "'z \<Rightarrow> log_call \<Rightarrow> 'z log_state \<Rightarrow> 'z log_state" where
  "logger_call l (LogPrint sev args) s = LoggerPrint 0 sev l args s"
| "logger_call l (LogPrintf sev template args) s = LoggerPrintf 0 sev l template args s"
| "logger_call l (LogPrintw sev msg kv) s = LoggerPrintw 0 sev l msg kv s"

fun log_step :: "'z zap_lib \<Rightarrow> (gostring \<Rightarrow> frame list) \<Rightarrow> log_op \<Rightarrow> 'z log_state \<times> 'z list \<Rightarrow> ('z log_state \<times> 'z list) option" where
  "log_step lib trace (OpInit cfg) (s, ls) = map_option (\<lambda>s'. (s', ls)) (Init lib cfg s)"
| "log_step lib trace (OpRoot call) (s, ls) = map_option (\<lambda>s'. (s', ls)) (root_call lib trace call s)"
| "log_step lib trace (OpWithFields kv) (s, ls) = map_option (\<lambda>(l, s'). (s', ls @ [l])) (WithFields lib kv s)"
| "log_step lib trace (OpLogger n call) (s, ls) = (if n < length ls then Some (logger_call (ls ! n) call s, ls) else None)"
| "log_step lib trace (OpLoggerWithFields n kv) (s, ls) =
     (if n < length ls then Some (s, ls @ [LoggerWithFields lib kv (ls ! n)]) else None)"

fun log_steps :: "'z zap_lib \<Rightarrow> (gostring \<Rightarrow> frame list) \<Rightarrow> log_op list \<Rightarrow> 'z log_state \<times> 'z list \<Rightarrow> ('z log_state \<times> 'z list) option" where
  "log_steps lib trace [] st = Some st"
| "log_steps lib trace (a # as) st = (case log_step lib trace a st of None \<Rightarrow> None | Some st' \<Rightarrow> log_steps lib trace as st')"

definition fresh_log :: "'z log_state" where
  "fresh_log = \<lparr>lg_root = None, lg_lines = [], lg_exited = False\<rparr>"

text \<open>
  The documented behaviour of \<open>zap\<close>: a logger skips as many callers as was asked for, when it
  finds out where a line comes from, and fields do not change that.
\<close>

definition skips_callers :: "'z zap_lib \<Rightarrow> ('z \<Rightarrow> int) \<Rightarrow> bool" where
  "skips_callers lib skip \<longleftrightarrow>
     (\<forall>c z. zp_Build lib c = Inr z \<longrightarrow> skip z = 0) \<and> (\<forall>n z. skip (zp_AddCallerSkip lib n z) = skip z + n)
     \<and> (\<forall>kv z. skip (zp_With lib kv z) = skip z)"

definition log_inv :: "('z \<Rightarrow> int) \<Rightarrow> 'z log_state \<times> 'z list \<Rightarrow> bool" where
  "log_inv skip = (\<lambda>(s, ls). (\<forall>z. lg_root s = Some z \<longrightarrow> skip z = 2) \<and> list_all (\<lambda>z. skip z = 1) ls
     \<and> list_all (\<lambda>l. skip (ll_logger l) = int (ll_frames l)) (lg_lines s))"

lemma NewLogger_skip:
  assumes "skips_callers lib skip" and "NewLogger lib cfg = Inr z"
  shows "skip z = 2"
  using assms by (auto simp: NewLogger_def skips_callers_def Let_def split: option.splits sum.splits)

lemma getDefaultLog_inv:
  assumes "skips_callers lib skip" and "log_inv skip (s, ls)" and "getDefaultLog lib s = Some (l, s')"
  shows "log_inv skip (s', ls)" "skip l = 2"
  using assms NewLogger_skip [OF assms(1)]
  by (auto simp: getDefaultLog_def log_inv_def split: option.splits sum.splits)

lemma zap_log_inv:
  "log_inv skip (s, ls) \<Longrightarrow> skip z = int frames \<Longrightarrow> log_inv skip (zap_log frames z call s, ls)"
  by (auto simp: log_inv_def zap_log_def)

lemma root_call_cases:
  assumes "root_call lib trace call s = Some s'"
  obtains l s1 call' where "getDefaultLog lib s = Some (l, s1)" "s' = zap_log 2 l call' s1"
  using assms
  by (cases call) (auto simp: RootPrint_def RootPrintf_def RootPrintw_def LoggerPrint_def LoggerPrintf_def
      LoggerPrintw_def Let_def numeral_2_eq_2 split: bind_splits)

lemma logger_call_log: "\<exists>call'. logger_call l call s = zap_log 1 l call' s"
  by (cases call) (auto simp: LoggerPrint_def LoggerPrintf_def LoggerPrintw_def)

lemma log_step_inv:
  assumes z: "skips_callers lib skip" and inv: "log_inv skip (s, ls)" and op: "log_step lib trace a (s, ls) = Some (s', ls')"
  shows "log_inv skip (s', ls')"
proof (cases a)
  case (OpInit cfg)
  then show ?thesis using op inv NewLogger_skip [OF z] by (auto simp: Init_def log_inv_def split: sum.splits)
next
  case (OpRoot call)
  then have call: "root_call lib trace call s = Some s'" and ls: "ls' = ls" using op by auto
  from call obtain l s1 call' where l: "getDefaultLog lib s = Some (l, s1)" "s' = zap_log 2 l call' s1"
    by (rule root_call_cases)
  then show ?thesis using getDefaultLog_inv [OF z inv l(1)] zap_log_inv [of skip s1 ls l 2] by (simp add: ls)
next
  case (OpWithFields kv)
  then obtain l where l: "getDefaultLog lib s = Some (l, s')"
      "ls' = ls @ [zp_AddCallerSkip lib (- 1) (zp_With lib kv l)]"
    using op by (auto simp: WithFields_def LoggerWithFields_def split: bind_splits)
  then show ?thesis using getDefaultLog_inv [OF z inv l(1)] z by (auto simp: log_inv_def skips_callers_def)
next
  case (OpLogger n call)
  then have n: "n < length ls" "s' = logger_call (ls ! n) call s" "ls' = ls" using op by (auto split: if_splits)
  have "skip (ls ! n) = 1" using inv n(1) by (auto simp: log_inv_def list_all_length)
  then show ?thesis using logger_call_log [of "ls ! n" call s] zap_log_inv [OF inv] n by auto
next
  case (OpLoggerWithFields n kv)
  then have n: "n < length ls" "s' = s" "ls' = ls @ [zp_With lib kv (ls ! n)]"
    using op by (auto simp: LoggerWithFields_def split: if_splits)
  have "skip (ls ! n) = 1" using inv n(1) by (auto simp: log_inv_def list_all_length)
  then show ?thesis using inv z n by (auto simp: log_inv_def skips_callers_def)
qed

lemma log_steps_inv:
  "log_steps lib trace as (s, ls) = Some (s', ls') \<Longrightarrow> skips_callers lib skip \<Longrightarrow> log_inv skip (s, ls) \<Longrightarrow> log_inv skip (s', ls')"
proof (induction "as" arbitrary: s ls)
  case (Cons a as)
  then obtain s1 ls1 where "log_step lib trace a (s, ls) = Some (s1, ls1)" "log_steps lib trace as (s1, ls1) = Some (s', ls')"
    by (auto split: option.splits)
  then show ?case using Cons log_step_inv by blast
qed simp

subsection \<open>Properties\<close>

text \<open>
  C29. Every line of the log is attributed to the code that logs it: whatever the other packages
  do with the package, on each line the logger skips exactly the functions of the package that
  are on the stack, two for the functions on the root logger and one for the methods of a
  derived logger.
\<close>
theorem log_caller:
  assumes "skips_callers lib skip" and "log_steps lib trace ops (fresh_log, []) = Some (s, ls)"
    and "line \<in> set (lg_lines s)"
  shows "skip (ll_logger line) = int (ll_frames line)"
proof -
  have "log_inv skip (fresh_log, [])" by (simp add: log_inv_def fresh_log_def)
  from log_steps_inv [OF assms(2,1) this] assms(3) show ?thesis by (auto simp: log_inv_def list_all_iff)
qed

text \<open>A library whose loggers are the number of callers they skip.\<close>

definition ex_zap :: "int zap_lib" where
  "ex_zap = \<lparr>zp_UnmarshalText = (\<lambda>l. if l \<in> {''debug'', ''info''} then None else Some ''unrecognized level''),
     zp_Build = (\<lambda>c. Inr 0), zp_AddCallerSkip = (\<lambda>n z. z + n), zp_With = (\<lambda>kv z. z), zp_Getpid = 1\<rparr>"

lemma ex_zap_skips: "skips_callers ex_zap (\<lambda>z. z)"
  by (simp add: skips_callers_def ex_zap_def)

definition ex_log_ops :: "log_op list" where
  "ex_log_ops = [OpRoot (LogPrint SevInfo [FmtString ''a'']), OpWithFields [FmtString ''k'', FmtInt ''int'' 1],
     OpLogger 0 (LogPrintf SevWarn ''b'' [])]"

definition ex_log_state :: "int log_state" where
  "ex_log_state = \<lparr>lg_root = Some 2,
     lg_lines = [\<lparr>ll_logger = 2, ll_call = LogPrint SevInfo [FmtString ''a''], ll_frames = 2\<rparr>,
                 \<lparr>ll_logger = 1, ll_call = LogPrintf SevWarn ''b'' [], ll_frames = 1\<rparr>],
     lg_exited = False\<rparr>"

lemma ex_log_run: "log_steps ex_zap (\<lambda>_. []) ex_log_ops (fresh_log, []) = Some (ex_log_state, [1])"
  by (simp add: ex_log_ops_def ex_log_state_def fresh_log_def RootPrint_def getDefaultLog_def NewLogger_def ex_zap_def
      default_log_config_def LoggerPrint_def zap_log_def WithFields_def LoggerWithFields_def LoggerPrintf_def Let_def)

theorem log_caller_witness: "ll_logger (last (lg_lines ex_log_state)) = int (ll_frames (last (lg_lines ex_log_state)))"
  by (rule log_caller [OF ex_zap_skips ex_log_run]) (simp add: ex_log_state_def)

text \<open>
  C30. An error logged through \<open>Errorf\<close> or \<open>Fatalf\<close> with a template that fits its arguments
  gives a broken line: the stack trace is added to the arguments but not to the template, so the
  text ends with the mark \<open>EXTRA\<close> of \<open>Sprintf\<close> around the trace.
\<close>
theorem error_template_extra:
  assumes "RootPrintf lib trace sev template args s = Some s'" and "sev \<in> {SevError, SevFatal}"
    and "first_error args = Some e" and "verbs template = length args" and "Sprintf template args = Some line"
  shows "\<exists>l args'. lg_lines s' = lg_lines s @ [\<lparr>ll_logger = l, ll_call = LogPrintf sev template args', ll_frames = 2\<rparr>]
    \<and> Sprintf template args' = Some (line @ ''%!(EXTRA string='' @ sprintStackTrace (trace e) @ '')'')"
proof -
  let ?args = "args @ [FmtString (sprintStackTrace (trace e))]"
  have "appendStackTraceMaybeArgs trace args = ?args" using assms(3) by (simp add: appendStackTraceMaybeArgs_def)
  with assms(1,2) obtain l s1 where l: "getDefaultLog lib s = Some (l, s1)" "s' = LoggerPrintf 1 sev l template ?args s1"
    by (auto simp: RootPrintf_def split: bind_splits)
  have "lg_lines s1 = lg_lines s" using l(1) by (auto simp: getDefaultLog_def split: option.splits sum.splits)
  then have "lg_lines s' = lg_lines s @ [\<lparr>ll_logger = l, ll_call = LogPrintf sev template ?args, ll_frames = 2\<rparr>]"
    by (simp add: l(2) LoggerPrintf_def zap_log_def)
  with Sprintf_extra [OF assms(5,4)] show ?thesis by blast
qed

theorem error_template_extra_witness:
  "\<exists>l args' s'. RootPrintf ex_zap (\<lambda>_. []) SevError ''error: %v'' [FmtError ''*errors.errorString'' ''no''] fresh_log = Some s'
     \<and> lg_lines s' = [\<lparr>ll_logger = l, ll_call = LogPrintf SevError ''error: %v'' args', ll_frames = 2\<rparr>]
     \<and> Sprintf ''error: %v'' args' = Some (''error: no%!(EXTRA string='' @ sprintStackTrace [] @ '')'')"
proof -
  let ?args = "[FmtError ''*errors.errorString'' ''no'']"
  obtain s' where s': "RootPrintf ex_zap (\<lambda>_. []) SevError ''error: %v'' ?args fresh_log = Some s'"
    by (simp add: RootPrintf_def getDefaultLog_def fresh_log_def NewLogger_def ex_zap_def default_log_config_def Let_def)
  have "Sprintf ''error: %v'' ?args = Some ''error: no''" by (simp add: Sprintf_def extra_text_def)
  from error_template_extra [OF s' _ _ _ this] s' show ?thesis
    by (simp add: directive_verb fresh_log_def)
qed

text \<open>Templates of the program without a verb for their last argument.\<close>

lemma config_template_extra:
  "Sprintf ''error reading config file: '' [FmtError ty msg]
     = Some (''error reading config file: %!(EXTRA '' @ ty @ ''='' @ msg @ '')'')"
  by (simp add: Sprintf_def extra_text_def)

lemma monitor_template_extra:
  "Sprintf ''monitor request for tx %s added to the queue channel'' [FmtString tag, FmtString tag]
     = Some (''monitor request for tx '' @ tag @ '' added to the queue channel%!(EXTRA string='' @ tag @ '')'')"
  by (simp add: Sprintf_def extra_text_def)

end
