(* ===== verification/ServerRun.thy ===== *)
theory ServerRun
  imports HttpServer Logging Endpoints
begin

section \<open>Running the server\<close>

text \<open>
  The rest of \<open>server/server.go\<close>: starting and stopping, the access log and the helper for
  errors. The listener, \<open>Serve\<close>, \<open>Shutdown\<close> and \<open>Close\<close> of \<open>net/http\<close> and the limiter of
  \<open>tollbooth\<close> are outside; what they answer is an argument.
\<close>

subsection \<open>Start and Stop\<close>

text \<open>What \<open>Start\<close> hands to \<open>net/http\<close> and to the limiter in front of the handler.\<close>

record http_server =
  hs_Limit :: uint64
  hs_ReadHeaderTimeout :: duration
  hs_ReadTimeout :: duration
  hs_WriteTimeout :: duration

text \<open>
  The struct \<open>Server\<close> while it runs: \<open>httpServer\<close>, whether \<open>Start\<close> is inside
  \<open>Serve\<close>, whether the server has been shut down, and the log.
\<close>

record 'z server_run =
  sr_httpServer :: "http_server option"
  sr_serving :: bool
  sr_shutdown :: bool
  sr_log :: "'z log_state"

datatype serve_error = ErrServerClosed | ServeError gostring

definition log_to ::
  "'z zap_lib \<Rightarrow> (gostring \<Rightarrow> frame list) \<Rightarrow> severity \<Rightarrow> gostring \<Rightarrow> fmt_arg list \<Rightarrow> 'z server_run \<Rightarrow> 'z server_run option" where
  "log_to lib trace sev template args r =
     map_option (\<lambda>l. r\<lparr>sr_log := l\<rparr>) (RootPrintf lib trace sev template args (sr_log r))"

definition server_address :: "ServerConfig \<Rightarrow> gostring" where
  "server_address cfg = sc_Host cfg @ '':'' @ format_int (sc_Port cfg)"

text \<open>\<open>Start\<close> up to the call of \<open>Serve\<close>, given the answer of \<open>net.Listen\<close>.\<close>

definition Start ::
  "'z zap_lib \<Rightarrow> (gostring \<Rightarrow> frame list) \<Rightarrow> ServerConfig \<Rightarrow> goerror \<Rightarrow> 'z server_run \<Rightarrow> 'z server_run option" where
  "Start lib trace cfg listen r =
     (if sr_httpServer r \<noteq> None then log_to lib trace SevFatal ''HTTP server already started'' [] r
      else (let address = server_address cfg in
            case listen of
              Some err \<Rightarrow> log_to lib trace SevFatal ''failed to create TCP listener, error: %v'' [FmtError ''*net.OpError'' err] r
            | None \<Rightarrow>
                log_to lib trace SevInfo ''HTTP server started at %s'' [FmtString address]
                  (r\<lparr>sr_httpServer := Some \<lparr>hs_Limit = sc_MaxRequestsPerIPAndSecond cfg,
                        hs_ReadHeaderTimeout = sc_ReadTimeout cfg, hs_ReadTimeout = sc_ReadTimeout cfg,
                        hs_WriteTimeout = sc_WriteTimeout cfg\<rparr>, sr_serving := True\<rparr>)))"

text \<open>\<open>Serve\<close> returns, always with an error.\<close>

definition Start_served ::
  "'z zap_lib \<Rightarrow> (gostring \<Rightarrow> frame list) \<Rightarrow> serve_error \<Rightarrow> 'z server_run \<Rightarrow> 'z server_run option" where
  "Start_served lib trace err r =
     (case err of
        ErrServerClosed \<Rightarrow> log_to lib trace SevFatal ''HTTP server stopped'' [] (r\<lparr>sr_serving := False\<rparr>)
      | ServeError e \<Rightarrow>
          log_to lib trace SevFatal ''closed HTTP connection, error: %v'' [FmtError ''*net.OpError'' e] (r\<lparr>sr_serving := False\<rparr>))"

definition Stop :: "goerror \<Rightarrow> goerror \<Rightarrow> 'z server_run \<Rightarrow> goerror \<times> 'z server_run" where
  "Stop shutdown close r =
     (if sr_httpServer r \<noteq> None
      then (let r1 = r\<lparr>sr_shutdown := True\<rparr> in
            case shutdown of
              Some err \<Rightarrow> (Some err, r1)
            | None \<Rightarrow> (case close of
                Some err \<Rightarrow> (Some err, r1)
              | None \<Rightarrow> (None, r1\<lparr>sr_httpServer := None\<rparr>)))
      else (None, r))"

text \<open>The address is the text of the template \<open>%s:%d\<close>.\<close>

lemma server_address_template:
  "Sprintf ''%s:%d'' [FmtString (sc_Host cfg), FmtInt ''int'' (sc_Port cfg)] = Some (server_address cfg)"
  by (simp add: Sprintf_def extra_text_def server_address_def format_int_def)

lemma log_to_exits:
  assumes "log_to lib trace SevFatal template args r = Some r'"
  shows "lg_exited (sr_log r')"
  using assms by (auto simp: log_to_def RootPrintf_def LoggerPrintf_def zap_log_def split: bind_splits)

lemma log_to_keeps:
  assumes "log_to lib trace sev template args r = Some r'"
  shows "sr_httpServer r' = sr_httpServer r" "sr_serving r' = sr_serving r" "sr_shutdown r' = sr_shutdown r"
  using assms by (auto simp: log_to_def)

text \<open>
  \<open>Start\<close> leaves a server that serves or a process that has ended; a second \<open>Start\<close> ends it.
\<close>

lemma start_serves_or_exits:
  assumes "Start lib trace cfg listen r = Some r'"
  shows "sr_httpServer r' \<noteq> None \<and> sr_serving r' \<and> sr_httpServer r = None \<and> listen = None \<or> lg_exited (sr_log r')"
  using assms log_to_exits log_to_keeps
  by (fastforce simp: Start_def Let_def split: if_splits option.splits)

text \<open>
  Stopping a running server without an error ends the process with an error status: \<open>Serve\<close>
  returns \<open>ErrServerClosed\<close> to \<open>Start\<close>, which treats it as fatal.
\<close>

lemma stop_ends_process:
  assumes "Start lib trace cfg listen r = Some r1" and "Stop None None r1 = (None, r2)"
    and "Start_served lib trace ErrServerClosed r2 = Some r3"
  shows "lg_exited (sr_log r3)"
  using assms(3) log_to_exits by (auto simp: Start_served_def)

subsection \<open>Errors and the access log\<close>

definition RPCErrorResponseWithData ::
  "'z zap_lib \<Rightarrow> (gostring \<Rightarrow> frame list) \<Rightarrow> int \<Rightarrow> gostring \<Rightarrow> gobytes option \<Rightarrow> goerror \<Rightarrow> bool \<Rightarrow> 'z log_state \<Rightarrow>
    (ServerError \<times> 'z log_state) option" where
  "RPCErrorResponseWithData lib trace errCode message data err logError s =
     do { s' \<leftarrow> (if logError
                  then (case err of
                          Some e \<Rightarrow> RootPrintf lib trace SevDebug ''%v: %v'' [FmtString message, FmtString e] s
                        | None \<Rightarrow> RootPrint lib trace SevDebug [FmtString message] s)
                  else Some s);
          Some (NewServerErrorWithData errCode message data, s') }"

definition RPCErrorResponse ::
  "'z zap_lib \<Rightarrow> (gostring \<Rightarrow> frame list) \<Rightarrow> int \<Rightarrow> gostring \<Rightarrow> goerror \<Rightarrow> bool \<Rightarrow> 'z log_state \<Rightarrow>
    (ServerError \<times> 'z log_state) option" where
  "RPCErrorResponse lib trace errCode message err logError s =
     RPCErrorResponseWithData lib trace errCode message None err logError s"

text \<open>What the access log takes of a request besides its method.\<close>

record request_info =
  ri_RemoteAddr :: gostring
  ri_Path :: gostring
  ri_Proto :: gostring
  ri_Host :: gostring
  ri_UserAgent :: gostring

definition combined_template :: gostring where
  "combined_template = ''%s - - %s \"%s %s %s\" %d %d \"%s\" \"%s\"''"

definition combined_args :: "http_request \<Rightarrow> request_info \<Rightarrow> gostring \<Rightarrow> int \<Rightarrow> int \<Rightarrow> fmt_arg list" where
  "combined_args r i start httpStatus dataLen =
     [FmtString (ri_RemoteAddr i), FmtString start, FmtString (hr_Method r), FmtString (ri_Path i), FmtString (ri_Proto i),
      FmtInt ''int'' httpStatus, FmtInt ''int'' dataLen, FmtString (ri_Host i), FmtString (ri_UserAgent i)]"

definition combinedLog ::
  "'z zap_lib \<Rightarrow> (gostring \<Rightarrow> frame list) \<Rightarrow> ServerConfig \<Rightarrow> http_request \<Rightarrow> request_info \<Rightarrow> gostring \<Rightarrow> int \<Rightarrow> int \<Rightarrow>
    'z log_state \<Rightarrow> 'z log_state option" where
  "combinedLog lib trace cfg r i start httpStatus dataLen s =
     (if \<not> sc_EnableHttpLog cfg then Some s
      else RootPrintf lib trace SevInfo combined_template (combined_args r i start httpStatus dataLen) s)"

text \<open>The line of the access log; every verb has its argument.\<close>

lemma combined_line:
  "Sprintf combined_template (combined_args r i start httpStatus dataLen) =
     Some (ri_RemoteAddr i @ '' - - '' @ start @ '' \"'' @ hr_Method r @ '' '' @ ri_Path i @ '' '' @ ri_Proto i @ ''\" ''
       @ format_int httpStatus @ '' '' @ format_int dataLen @ '' \"'' @ ri_Host i @ ''\" \"'' @ ri_UserAgent i @ ''\"'')"
  by (simp add: Sprintf_def extra_text_def combined_template_def combined_args_def format_int_def)

end
