(* ===== verification/GoDuration.thy ===== *)
theory GoDuration
  imports GoText GoStd
begin

section \<open>Durations as text\<close>

text \<open>
  \<open>time.ParseDuration\<close> of Go 1.21, with its checks for overflow in \<open>uint64\<close>. The nanoseconds
  of a fraction are computed in floating point; that is the parameter \<open>frac\<close> of the digits
  behind the point and the unit. \<^term>\<open>None\<close> is the error.
\<close>

definition unit_ns :: "gostring \<Rightarrow> nat option" where
  "unit_ns u =
     (if u = ''ns'' then Some 1
      else if u = ''us'' \<or> u = [CHR 0xC2, CHR 0xB5, CHR ''s''] \<or> u = [CHR 0xCE, CHR 0xBC, CHR ''s''] then Some 1000
      else if u = ''ms'' then Some 1000000
      else if u = ''s'' then Some 1000000000
      else if u = ''m'' then Some 60000000000
      else if u = ''h'' then Some 3600000000000
      else None)"

definition unit_char :: "char \<Rightarrow> bool" where
  "unit_char c \<longleftrightarrow> c \<noteq> CHR ''.'' \<and> \<not> is_digit 10 c"

text \<open>What stands behind a point, and what follows; nothing without a point.\<close>

definition fraction_digits :: "gostring \<Rightarrow> gostring \<times> gostring" where
  "fraction_digits s =
     (case s of
        [] \<Rightarrow> ([], s)
      | c # r \<Rightarrow> if c = CHR ''.'' then (takeWhile (is_digit 10) r, dropWhile (is_digit 10) r) else ([], s))"

text \<open>One number with its unit: the nanoseconds and the rest of the text.\<close>

definition parse_part :: "(gostring \<Rightarrow> nat \<Rightarrow> nat) \<Rightarrow> gostring \<Rightarrow> (nat \<times> gostring) option" where
  "parse_part frac s =
     (let pre = takeWhile (is_digit 10) s;
          v = digits_value 10 pre;
          (post, s2) = fraction_digits (dropWhile (is_digit 10) s);
          u = takeWhile unit_char s2
      in
      if 2 ^ 63 < v \<or> (pre = [] \<and> post = []) \<or> u = [] then None
      else case unit_ns u of
        None \<Rightarrow> None
      | Some unit \<Rightarrow>
          if 2 ^ 63 div unit < v then None
          else (let w = v * unit + (if digits_value 10 post = 0 then 0 else frac post unit) in
                if 2 ^ 63 < w then None else Some (w, dropWhile unit_char s2)))"

lemma fraction_digits_le: "length (snd (fraction_digits s)) \<le> length s"
  by (auto simp: fraction_digits_def le_SucI length_dropWhile_le split: list.split)

lemma dropWhile_shorter: "takeWhile P s \<noteq> [] \<Longrightarrow> length (dropWhile P s) < length s"
  by (cases s) (auto simp: le_imp_less_Suc length_dropWhile_le split: if_splits)

lemma parse_part_shorter: "parse_part frac s = Some (w, r) \<Longrightarrow> length r < length s"
proof -
  assume p: "parse_part frac s = Some (w, r)"
  obtain post s2 where f: "fraction_digits (dropWhile (is_digit 10) s) = (post, s2)" by force
  then have "length s2 \<le> length s"
    using fraction_digits_le [of "dropWhile (is_digit 10) s"] length_dropWhile_le [of "is_digit 10" s] by simp
  moreover have "takeWhile unit_char s2 \<noteq> []" "r = dropWhile unit_char s2"
    using p f by (auto simp: parse_part_def Let_def split: if_splits option.splits)
  ultimately show ?thesis using dropWhile_shorter [of unit_char s2] by simp
qed

function parse_parts :: "(gostring \<Rightarrow> nat \<Rightarrow> nat) \<Rightarrow> gostring \<Rightarrow> nat \<Rightarrow> nat option" where
  "parse_parts frac s d =
     (if s = [] then Some d
      else case parse_part frac s of
        None \<Rightarrow> None
      | Some (w, r) \<Rightarrow>
          (let d' = (d + w) mod 2 ^ 64 in if 2 ^ 63 < d' then None else parse_parts frac r d'))"
  by pat_completeness auto

termination
  by (relation "measure (\<lambda>(frac, s, d). length s)") (auto dest: parse_part_shorter)

declare parse_parts.simps [simp del]

definition ParseDuration :: "(gostring \<Rightarrow> nat \<Rightarrow> nat) \<Rightarrow> gostring \<Rightarrow> duration option" where
  "ParseDuration frac s =
     (let (neg, s1) = (case s of
            [] \<Rightarrow> (False, [])
          | c # r \<Rightarrow> if c = CHR ''-'' \<or> c = CHR ''+'' then (c = CHR ''-'', r) else (False, s)) in
      if s1 = ''0'' then Some 0
      else if s1 = [] then None
      else case parse_parts frac s1 0 of
        None \<Rightarrow> None
      | Some d \<Rightarrow>
          if neg then Some (- int d)
          else if 2 ^ 63 - 1 < d then None
          else Some (int d))"

subsection \<open>Reading a sum of units\<close>

fun duration_text :: "(nat \<times> gostring) list \<Rightarrow> gostring" where
  "duration_text [] = []"
| "duration_text ((n, u) # ts) = format_nat 10 n @ u @ duration_text ts"

fun duration_sum :: "(nat \<times> gostring) list \<Rightarrow> nat" where
  "duration_sum [] = 0"
| "duration_sum ((n, u) # ts) = n * the (unit_ns u) + duration_sum ts"

lemma unit_ns_chars: "unit_ns u = Some k \<Longrightarrow> u \<noteq> [] \<and> list_all unit_char u \<and> 0 < k"
  by (auto simp: unit_ns_def unit_char_def is_digit_def digit_val_def split: if_splits)

lemma format_nat_10: "list_all (is_digit 10) (format_nat 10 n)" "format_nat 10 n \<noteq> []" "digits_value 10 (format_nat 10 n) = n"
  using format_nat_digits [of 10 n] format_nat_value [of 10 n] by auto

lemma takeWhile_all_append: "list_all P xs \<Longrightarrow> takeWhile P (xs @ ys) = xs @ takeWhile P ys"
  by (induction xs) auto

lemma dropWhile_all_append: "list_all P xs \<Longrightarrow> dropWhile P (xs @ ys) = dropWhile P ys"
  by (induction xs) auto

lemma duration_text_first: "duration_text ts = [] \<or> is_digit 10 (hd (duration_text ts))"
proof (cases ts)
  case (Cons t ts')
  then show ?thesis using format_nat_10(1,2) [of "fst t"]
    by (cases t; cases "format_nat 10 (fst t)") auto
qed simp

lemma parse_part_text:
  assumes "unit_ns u = Some k" and "n * k \<le> 2 ^ 63" and "r = [] \<or> is_digit 10 (hd r)"
  shows "parse_part frac (format_nat 10 n @ u @ r) = Some (n * k, r)"
proof -
  note u = unit_ns_chars [OF assms(1)]
  obtain c u' where cu: "u = c # u'" using u by (cases u) auto
  have c: "\<not> is_digit 10 c" "c \<noteq> CHR ''.''" using u cu by (auto simp: unit_char_def)
  have pre: "takeWhile (is_digit 10) (format_nat 10 n @ u @ r) = format_nat 10 n"
      "dropWhile (is_digit 10) (format_nat 10 n @ u @ r) = u @ r"
    using c cu by (simp_all add: takeWhile_all_append dropWhile_all_append format_nat_10)
  have fr: "fraction_digits (u @ r) = ([], u @ r)" using c cu by (simp add: fraction_digits_def)
  have "r = [] \<or> \<not> unit_char (hd r)" using assms(3) by (auto simp: unit_char_def)
  then have "takeWhile unit_char r = []" "dropWhile unit_char r = r" by (cases r; simp)+
  then have un: "takeWhile unit_char (u @ r) = u" "dropWhile unit_char (u @ r) = r"
    using u by (simp_all add: takeWhile_all_append dropWhile_all_append)
  have k: "0 < k" using u by simp
  then have "n \<le> 2 ^ 63 div k" using assms(2) by (simp add: less_eq_div_iff_mult_less_eq)
  moreover have "n * 1 \<le> n * k" using k by (intro mult_le_mono2) simp
  then have "n \<le> n * k" by (simp only: mult_1_right)
  then have "n \<le> 2 ^ 63" using assms(2) by (rule le_trans)
  moreover have "digits_value 10 [] = 0" by (simp add: digits_value_def)
  ultimately show ?thesis
    using assms(1,2) u format_nat_10(2,3) [of n]
    by (simp add: parse_part_def pre fr un Let_def not_less)
qed

lemma parse_parts_text:
  "list_all (\<lambda>(n, u). unit_ns u \<noteq> None) ts \<Longrightarrow> d + duration_sum ts \<le> 2 ^ 63 \<Longrightarrow>
   parse_parts frac (duration_text ts) d = Some (d + duration_sum ts)"
proof (induction ts arbitrary: d)
  case Nil
  show ?case by (simp add: parse_parts.simps)
next
  case (Cons t ts)
  obtain n u where t: "t = (n, u)" by force
  then obtain k where k: "unit_ns u = Some k" using Cons.prems(1) by auto
  let ?s = "format_nat 10 n @ u @ duration_text ts"
  have part: "parse_part frac ?s = Some (n * k, duration_text ts)"
    using parse_part_text [OF k _ duration_text_first] Cons.prems(2) t k by simp
  have "d + n * k \<le> 2 ^ 63" using Cons.prems(2) t k by simp
  then have "(d + n * k) mod 2 ^ 64 = d + n * k" by (intro mod_less) (simp add: order_le_less_trans)
  then show ?case
    using Cons.IH [of "d + n * k"] Cons.prems t k part format_nat_10(2) [of n]
    by (subst parse_parts.simps) (simp add: Let_def not_less)
qed

lemma ParseDuration_text:
  assumes "ts \<noteq> []" and "list_all (\<lambda>(n, u). unit_ns u \<noteq> None) ts" and "duration_sum ts < 2 ^ 63"
  shows "ParseDuration frac (duration_text ts) = Some (int (duration_sum ts))"
proof -
  obtain n u ts' where t: "ts = (n, u) # ts'" using assms(1) by (cases ts) auto
  have "duration_text ts \<noteq> []" using t format_nat_10(2) [of n] by simp
  then obtain c r where c: "duration_text ts = c # r" "is_digit 10 c"
    using duration_text_first [of ts] by (metis list.collapse)
  have sign: "c \<noteq> CHR ''-''" "c \<noteq> CHR ''+''" using c(2) by (auto simp: is_digit_def digit_val_def)
  have "duration_text ts \<noteq> ''0''"
  proof
    assume zero: "duration_text ts = ''0''"
    have "u \<noteq> []" "list_all unit_char u" using assms(2) t unit_ns_chars [of u] by auto
    then have "\<exists>x\<in>set (duration_text ts). unit_char x" using t by (cases u) auto
    then show False unfolding zero by (auto simp: unit_char_def is_digit_def digit_val_def)
  qed
  then have "c \<noteq> CHR ''0'' \<or> r \<noteq> []" using c(1) by auto
  then show ?thesis
    using parse_parts_text [OF assms(2), of 0 frac] assms(3) c(1) sign by (auto simp: ParseDuration_def)
qed

end
