(* ===== verification/Config.thy ===== *)
theory Config
  imports GoDuration Monitor SenderQueue HttpServer Logging
begin

section \<open>Configuration\<close>

text \<open>
  Model of package \<open>config\<close>: the type of durations in a configuration file, the configuration
  of all components, the built-in values, \<open>Default\<close> and \<open>Load\<close>. The library \<open>viper\<close>, which finds,
  reads and decodes the file, is a parameter over a type \<open>'f\<close> of files that have been read:
  \<open>parse\<close> reads a text in the format TOML, \<open>read\<close> the file of a directory, a name and a type, and
  \<open>decode\<close> writes the values of a file over a configuration.
\<close>

text \<open>\<open>UnmarshalText\<close>: on an error the duration keeps its value.\<close>

definition UnmarshalText :: "(gostring \<Rightarrow> nat \<Rightarrow> nat) \<Rightarrow> gostring \<Rightarrow> duration \<Rightarrow> bool \<times> duration" where
  "UnmarshalText frac data d =
     (case ParseDuration frac data of None \<Rightarrow> (False, d) | Some x \<Rightarrow> (True, x))"

definition NewDuration :: "duration \<Rightarrow> duration" where
  "NewDuration d = d"

text \<open>What the generator of the JSON schema is told about durations.\<close>

record json_schema =
  js_Type :: gostring
  js_Title :: gostring
  js_Description :: gostring
  js_Examples :: "gostring list"

definition JSONSchema :: json_schema where
  "JSONSchema = \<lparr>js_Type = ''string'', js_Title = ''Duration'',
     js_Description = ''Duration expressed in units: [ns, us, ms, s, m, h, d]'', js_Examples = [''1m'', ''300ms'']\<rparr>"

record DBConfig =
  dc_Name :: gostring
  dc_User :: gostring
  dc_Password :: gostring
  dc_Host :: gostring
  dc_Port :: gostring
  dc_EnableLog :: bool
  dc_MaxConns :: int

record Config =
  cf_Log :: LogConfig
  cf_Server :: ServerConfig
  cf_DB :: DBConfig
  cf_Sender :: SenderConfig
  cf_Monitor :: MonitorConfig

text \<open>\<^term>\<open>False\<close> is the end of the process by \<open>log.Fatalf\<close>. The source has the check twice.\<close>

definition validate :: "Config \<Rightarrow> bool" where
  "validate cfg =
     (if mc_QueueSize (cf_Monitor cfg) < mc_Workers (cf_Monitor cfg) then False
      else if mc_QueueSize (cf_Monitor cfg) < mc_Workers (cf_Monitor cfg) then False
      else True)"

subsection \<open>Loading\<close>

text \<open>\<open>filepath.Split\<close> and \<open>filepath.Ext\<close>.\<close>

definition path_split :: "gostring \<Rightarrow> gostring \<times> gostring" where
  "path_split p = (let base = rev (takeWhile (\<lambda>c. c \<noteq> CHR ''/'') (rev p)) in (take (length p - length base) p, base))"

definition path_ext :: "gostring \<Rightarrow> gostring" where
  "path_ext p =
     (let base = takeWhile (\<lambda>c. c \<noteq> CHR ''/'') (rev p) in
      if CHR ''.'' \<in> set base then CHR ''.'' # rev (takeWhile (\<lambda>c. c \<noteq> CHR ''.'') base) else [])"

definition TrimSuffix :: "gostring \<Rightarrow> gostring \<Rightarrow> gostring" where
  "TrimSuffix s x = (if x = drop (length s - length x) s then take (length s - length x) s else s)"

datatype 'f read_result = FileRead 'f | FileNotFound | FileBroken gostring

datatype load_result = LoadError gostring | LoadFatal | Loaded Config

record 'f config_lib =
  cl_parse :: "gostring \<Rightarrow> gostring + 'f"
  cl_read :: "gostring \<Rightarrow> gostring \<Rightarrow> gostring \<Rightarrow> 'f read_result"
  cl_decode :: "'f \<Rightarrow> Config \<Rightarrow> gostring + Config"

definition default_lines :: "gostring list" where
  "default_lines =
    [[],
     ''[Log]'',
     ''Environment = \"development\" # \"production\" or \"development\"'',
     ''Level = \"info\"'',
     ''Outputs = [\"stderr\"]'',
     [],
     ''[Server]'',
     ''Host = \"0.0.0.0\"'',
     ''Port = 8545'',
     ''ReadTimeout = \"60s\"'',
     ''WriteTimeout = \"60s\"'',
     ''MaxRequestsPerIPAndSecond = 500'',
     ''EnableHttpLog = true'',
     ''BatchRequestsEnabled = false'',
     ''BatchRequestsLimit = 20'',
     [],
     ''[Pool]'',
     ''User = \"pool_user\"'',
     ''Password = \"pool_password\"'',
     ''Name = \"pool_db\"'',
     ''Host = \"zkevm-pool-db\"'',
     ''Port = \"5432\"'',
     ''EnableLog = false'',
     ''MaxConns = 200'',
     [],
     ''[Sender]'',
     ''SequencerURL = \"http://localhost:8467\"'',
     ''ResendTxsCheckInterval = \"5s\"'',
     ''Workers = 5'',
     ''QueueSize = 25'',
     ''RPCReadTimeout = \"3s\"'',
     [],
     ''[Monitor]'',
     ''L2NodeURL = \"http://localhost:8467\"'',
     ''Workers = 5'',
     ''QueueSize = 25'',
     ''RetryWaitInterval = \"3s\"'',
     ''InitialWaitInterval = \"3s\"'',
     ''TxLifeTimeMax = \"30m\"'',
     ''RPCReadTimeout = \"3s\"'']"

definition unlines :: "gostring list \<Rightarrow> gostring" where
  "unlines ls = concat (map (\<lambda>l. l @ [CHR 0x0A]) ls)"

definition DefaultValues :: gostring where
  "DefaultValues = unlines default_lines"

text \<open>The zero value of the struct.\<close>

definition zero_config :: Config where
  "zero_config =
     \<lparr>cf_Log = \<lparr>lc_Environment = [], lc_Level = [], lc_Outputs = []\<rparr>,
      cf_Server = \<lparr>sc_Host = [], sc_Port = 0, sc_ReadTimeout = 0, sc_WriteTimeout = 0,
        sc_MaxRequestsPerIPAndSecond = 0, sc_EnableHttpLog = False, sc_BatchRequestsEnabled = False, sc_BatchRequestsLimit = 0\<rparr>,
      cf_DB = \<lparr>dc_Name = [], dc_User = [], dc_Password = [], dc_Host = [], dc_Port = [], dc_EnableLog = False, dc_MaxConns = 0\<rparr>,
      cf_Sender = \<lparr>sc_SequencerURL = [], sc_ResendTxsCheckInterval = 0, sc_Workers = 0, sc_QueueSize = 0, sc_RPCReadTimeout = 0\<rparr>,
      cf_Monitor = \<lparr>mc_L2NodeURL = [], mc_Workers = 0, mc_QueueSize = 0, mc_InitialWaitInterval = 0, mc_RetryWaitInterval = 0,
        mc_TxLifeTimeMax = 0, mc_RPCReadTimeout = 0\<rparr>\<rparr>"

text \<open>\<open>Default\<close>, with the values that \<open>viper\<close> has read last.\<close>

definition Default :: "'f config_lib \<Rightarrow> gostring + 'f \<times> Config" where
  "Default lib =
     (case cl_parse lib DefaultValues of
        Inl err \<Rightarrow> Inl err
      | Inr f \<Rightarrow> (case cl_decode lib f zero_config of Inl err \<Rightarrow> Inl err | Inr cfg \<Rightarrow> Inr (f, cfg)))"

text \<open>
  A file that is found takes the place of the built-in values in \<open>viper\<close>, and is decoded over
  the configuration that they gave; without a file they are decoded again.
\<close>

definition Load :: "'f config_lib \<Rightarrow> gostring \<Rightarrow> load_result" where
  "Load lib configFilePath =
     (case Default lib of
        Inl err \<Rightarrow> LoadError err
      | Inr (f0, cfg) \<Rightarrow>
          (let (dirName, fileName) = path_split configFilePath;
               fileExtension = TrimPrefix (path_ext fileName) ''.'';
               fileNameWithoutExtension = TrimSuffix fileName (CHR ''.'' # fileExtension);
               (dir, name, ext) = (if configFilePath \<noteq> [] then (dirName, fileNameWithoutExtension, fileExtension)
                                   else ([], ''config'', ''toml''))
           in
           case (case cl_read lib dir name ext of
                   FileRead f \<Rightarrow> Inr f
                 | FileNotFound \<Rightarrow> Inr f0
                 | FileBroken err \<Rightarrow> Inl err) of
             Inl err \<Rightarrow> LoadError err
           | Inr f \<Rightarrow>
               (case cl_decode lib f cfg of
                  Inl err \<Rightarrow> LoadError err
                | Inr cfg' \<Rightarrow> if validate cfg' then Loaded cfg' else LoadFatal)))"

lemma Load_valid: "Load lib path = Loaded cfg \<Longrightarrow> validate cfg"
  by (auto simp: Load_def Let_def split: sum.splits prod.splits read_result.splits if_splits)

lemma validate_iff: "validate cfg \<longleftrightarrow> mc_Workers (cf_Monitor cfg) \<le> mc_QueueSize (cf_Monitor cfg)"
  by (auto simp: validate_def not_less)

subsection \<open>Properties\<close>

text \<open>
  A configuration that \<open>Load\<close> returns has a queue of the monitor for at least as many
  requests as it has workers; of the sender nothing is checked: with any other configuration
  of the sender the result of the checks is the same.
\<close>
lemma load_validates:
  assumes "Load lib path = Loaded cfg"
  shows "mc_Workers (cf_Monitor cfg) \<le> mc_QueueSize (cf_Monitor cfg)
    \<and> validate (cfg\<lparr>cf_Sender := (cf_Sender cfg)\<lparr>sc_Workers := workers, sc_QueueSize := capacity\<rparr>\<rparr>)"
  using Load_valid [OF assms] by (simp add: validate_iff)

definition ex_conf :: Config where
  "ex_conf = \<lparr>cf_Log = \<lparr>lc_Environment = ''development'', lc_Level = ''info'', lc_Outputs = [''stderr'']\<rparr>,
     cf_Server = ex_config, cf_DB = \<lparr>dc_Name = [], dc_User = [], dc_Password = [], dc_Host = [], dc_Port = [],
       dc_EnableLog = False, dc_MaxConns = 0\<rparr>, cf_Sender = \<lparr>sc_SequencerURL = [], sc_ResendTxsCheckInterval = 0, sc_Workers = 5, sc_QueueSize = 25, sc_RPCReadTimeout = 0\<rparr>,
     cf_Monitor = \<lparr>mc_L2NodeURL = [], mc_Workers = 5, mc_QueueSize = 25, mc_InitialWaitInterval = 3000000000,
       mc_RetryWaitInterval = 3000000000, mc_TxLifeTimeMax = 1800000000000, mc_RPCReadTimeout = 0\<rparr>\<rparr>"

definition ex_loader :: "unit config_lib" where
  "ex_loader = \<lparr>cl_parse = (\<lambda>_. Inr ()),
     cl_read = (\<lambda>dir name ext. if (dir, name, ext) = (''/app/'', ''pool'', ''toml'') then FileRead () else FileNotFound),
     cl_decode = (\<lambda>_ cfg. Inr ex_conf)\<rparr>"

lemma ex_load: "Load ex_loader ''/app/pool.toml'' = Loaded ex_conf"
proof -
  have p: "path_split ''/app/pool.toml'' = (''/app/'', ''pool.toml'')" "TrimPrefix (path_ext ''pool.toml'') ''.'' = ''toml''"
      "TrimSuffix ''pool.toml'' ''.toml'' = ''pool''"
    by code_simp+
  have "validate ex_conf" by (simp add: validate_def ex_conf_def)
  then show ?thesis by (simp add: Load_def Default_def ex_loader_def p)
qed

lemma load_validates_example:
  "validate (ex_conf\<lparr>cf_Sender := (cf_Sender ex_conf)\<lparr>sc_Workers := 9, sc_QueueSize := 0\<rparr>\<rparr>)"
  using load_validates [OF ex_load, of 0 9] by simp

subsection \<open>Built-in values of the database\<close>

text \<open>
  The format TOML as far as it matters here: a table begins at a line that is its name in
  brackets. \<open>viper\<close> decodes a file into the fields of the tables that it has, and leaves the
  others.
\<close>

definition table_header :: "gostring \<Rightarrow> gostring option" where
  "table_header l = (if l \<noteq> [] \<and> hd l = CHR ''['' \<and> last l = CHR '']'' then Some (butlast (tl l)) else None)"

definition toml_tables :: "gostring \<Rightarrow> gostring list" where
  "toml_tables t = List.map_filter table_header (split_at (CHR 0x0A) t)"

definition decodes_tables :: "'f config_lib \<Rightarrow> ('f \<Rightarrow> gostring list) \<Rightarrow> bool" where
  "decodes_tables lib tables \<longleftrightarrow>
     (\<forall>t f. cl_parse lib t = Inr f \<longrightarrow> tables f = toml_tables t)
     \<and> (\<forall>f cfg cfg'. cl_decode lib f cfg = Inr cfg' \<longrightarrow> ''DB'' \<notin> set (tables f) \<longrightarrow> cf_DB cfg' = cf_DB cfg)"

lemma split_at_append: "c \<notin> set u \<Longrightarrow> split_at c (u @ c # v) = u # split_at c v"
  by (induction u) auto

lemma split_unlines:
  "list_all (\<lambda>l. CHR 0x0A \<notin> set l) ls \<Longrightarrow> split_at (CHR 0x0A) (unlines ls) = ls @ [[]]"
  by (induction ls) (auto simp: unlines_def split_at_append)

lemma default_tables: "toml_tables DefaultValues = [''Log'', ''Server'', ''Pool'', ''Sender'', ''Monitor'']"
proof -
  have "list_all (\<lambda>l. CHR 0x0A \<notin> set l) default_lines" by (simp add: default_lines_def)
  from split_unlines [OF this] have "toml_tables DefaultValues = List.map_filter table_header (default_lines @ [[]])"
    by (simp add: toml_tables_def DefaultValues_def)
  also have "\<dots> = [''Log'', ''Server'', ''Pool'', ''Sender'', ''Monitor'']"
    by (simp add: default_lines_def table_header_def List.map_filter_simps)
  finally show ?thesis .
qed

text \<open>
  The built-in values of the database are in a table \<open>Pool\<close> that no field of the configuration
  is decoded from: \<open>Default\<close> leaves every setting of the database empty.
\<close>

lemma default_db_unused:
  assumes "decodes_tables lib tables" and "Default lib = Inr (f, cfg)"
  shows "cf_DB cfg = cf_DB zero_config"
proof -
  have f: "cl_parse lib DefaultValues = Inr f" "cl_decode lib f zero_config = Inr cfg"
    using assms(2) by (auto simp: Default_def split: sum.splits)
  then have "tables f = [''Log'', ''Server'', ''Pool'', ''Sender'', ''Monitor'']"
    using assms(1) default_tables by (simp add: decodes_tables_def)
  then have "''DB'' \<notin> set (tables f)" by simp
  then show ?thesis using assms(1) f(2) unfolding decodes_tables_def by blast
qed

subsection \<open>Durations\<close>

text \<open>
  A duration written as a sum of whole numbers with units is read as that sum, as long as
  it is less than 2 to the 63 nanoseconds; whatever the value was before.
\<close>
lemma duration_is_sum:
  assumes "ts \<noteq> []" and "list_all (\<lambda>(n, u). unit_ns u \<noteq> None) ts" and "duration_sum ts < 2 ^ 63"
  shows "UnmarshalText frac (duration_text ts) d = (True, int (duration_sum ts))"
  by (simp add: UnmarshalText_def ParseDuration_text [OF assms])

lemma duration_is_sum_example: "UnmarshalText (\<lambda>_ _. 0) ''1h30m'' 0 = (True, 5400000000000)"
proof -
  have "format_nat 10 1 = ''1''" "format_nat 10 30 = ''30''" by code_simp+
  then show ?thesis
    using duration_is_sum [of "[(1, ''h''), (30, ''m'')]" "\<lambda>_ _. 0" 0] by (simp add: unit_ns_def)
qed

text \<open>The examples of the JSON schema are read.\<close>

lemma schema_examples:
  "map (\<lambda>t. UnmarshalText frac t d) (js_Examples JSONSchema) = [(True, 60000000000), (True, 300000000)]"
proof -
  have "format_nat 10 1 = ''1''" "format_nat 10 300 = ''300''" by code_simp+
  then show ?thesis
    using duration_is_sum [of "[(1, ''m'')]" frac d] duration_is_sum [of "[(300, ''ms'')]" frac d]
    by (simp add: unit_ns_def JSONSchema_def)
qed

text \<open>Days, which the JSON schema of the type lists as a unit, are not one.\<close>

lemma duration_no_days: "ParseDuration frac (format_nat 10 n @ ''d'') = None"
proof -
  have d: "unit_char (CHR ''d'')" "\<not> is_digit 10 (CHR ''d'')" by code_simp+
  have "parse_part frac (format_nat 10 n @ ''d'') = None"
    using format_nat_10 [of n] d
    by (simp add: parse_part_def takeWhile_all_append dropWhile_all_append fraction_digits_def unit_ns_def Let_def)
  moreover obtain c r where c: "format_nat 10 n = c # r" "is_digit 10 c" using format_nat_10(1,2) [of n] by (cases "format_nat 10 n") auto
  moreover have "c \<noteq> CHR ''-''" "c \<noteq> CHR ''+''" using c(2) by (auto simp: is_digit_def digit_val_def)
  ultimately show ?thesis by (simp add: ParseDuration_def parse_parts.simps)
qed

end
