(* ===== verification/Startup.thy ===== *)
theory Startup
  imports Config
begin

section \<open>Start-up\<close>

text \<open>
  Model of \<open>db/db.go\<close> and of the command \<open>run\<close> of \<open>cmd/main.go\<close>: the configuration, the
  logger, the migrations of the database and their check, the connection, and then the
  components, which theories \<open>PoolSystem\<close> and \<open>PoolServer\<close> put together. The database driver
  and the migration library are parameters over a database \<open>'d\<close>; \<open>sl_Find\<close> are the
  migrations packed into the program, \<open>sl_Count\<close> is the query of the table in which the
  library records those it has run.
\<close>

record migration =
  mg_Up :: "gostring list"

record 'd sql_lib =
  sl_ParseConfig :: "gostring \<Rightarrow> goerror"
  sl_Connect :: "gostring \<Rightarrow> 'd \<Rightarrow> goerror"
  sl_Find :: "gostring + migration list"
  sl_Exec :: "gostring \<Rightarrow> 'd \<Rightarrow> (gostring + nat) \<times> 'd"
  sl_Count :: "'d \<Rightarrow> gostring + int"

definition PoolMigrationName :: gostring where
  "PoolMigrationName = ''zkevm-pool-db''"

definition packrMigrations :: "gostring set" where
  "packrMigrations = {PoolMigrationName}"

definition database_url :: "DBConfig \<Rightarrow> gostring" where
  "database_url cfg =
     ''postgres://'' @ dc_User cfg @ '':'' @ dc_Password cfg @ ''@'' @ dc_Host cfg @ '':'' @ dc_Port cfg @ ''/'' @ dc_Name cfg"

definition NewSQLDB :: "'d sql_lib \<Rightarrow> DBConfig \<Rightarrow> 'd \<Rightarrow> goerror" where
  "NewSQLDB lib cfg d =
     (let url = database_url cfg @ ''?pool_max_conns='' @ format_int (dc_MaxConns cfg) in
      case sl_ParseConfig lib url of
        Some err \<Rightarrow> Some err
      | None \<Rightarrow> sl_Connect lib url d)"

definition no_box :: "gostring \<Rightarrow> gostring" where
  "no_box name = ''packr box not found with name: '' @ name"

definition runMigrations :: "'d sql_lib \<Rightarrow> DBConfig \<Rightarrow> gostring \<Rightarrow> gostring \<Rightarrow> 'd \<Rightarrow> goerror \<times> 'd" where
  "runMigrations lib cfg packrName direction d =
     (case sl_ParseConfig lib (database_url cfg) of
        Some err \<Rightarrow> (Some err, d)
      | None \<Rightarrow>
          if packrName \<notin> packrMigrations then (Some (no_box packrName), d)
          else (case sl_Exec lib direction d of
                  (Inl err, d') \<Rightarrow> (Some err, d')
                | (Inr nMigrations, d') \<Rightarrow> (None, d')))"

definition RunMigrationsUp :: "'d sql_lib \<Rightarrow> DBConfig \<Rightarrow> gostring \<Rightarrow> 'd \<Rightarrow> goerror \<times> 'd" where
  "RunMigrationsUp lib cfg name d = runMigrations lib cfg name ''up'' d"

definition RunMigrationsDown :: "'d sql_lib \<Rightarrow> DBConfig \<Rightarrow> gostring \<Rightarrow> 'd \<Rightarrow> goerror \<times> 'd" where
  "RunMigrationsDown lib cfg name d = runMigrations lib cfg name ''down'' d"

definition checkMigrations :: "'d sql_lib \<Rightarrow> DBConfig \<Rightarrow> gostring \<Rightarrow> 'd \<Rightarrow> goerror" where
  "checkMigrations lib cfg packrName d =
     (case sl_ParseConfig lib (database_url cfg) of
        Some err \<Rightarrow> Some err
      | None \<Rightarrow>
          if packrName \<notin> packrMigrations then Some (no_box packrName)
          else (case sl_Find lib of
              Inl err \<Rightarrow> Some err
            | Inr migrations \<Rightarrow>
                (let expected = int (length (filter (\<lambda>m. length (mg_Up m) \<noteq> 0) migrations)) in
                 case sl_Count lib d of
                   Inl err \<Rightarrow> Some err
                 | Inr actual \<Rightarrow>
                     if expected = actual then None
                     else Some (''error the component needs to run '' @ format_int expected
                                @ '' migrations before starting. DB only contains '' @ format_int actual
                                @ '' migrations''))))"

text \<open>How \<open>start\<close> ends, or that all components run.\<close>

datatype start_outcome = StartError gostring | StartFatal gostring | StartPanic gostring | Running Config

definition runPoolMigrations :: "'d sql_lib \<Rightarrow> DBConfig \<Rightarrow> 'd \<Rightarrow> goerror \<times> 'd" where
  "runPoolMigrations lib c d = RunMigrationsUp lib c PoolMigrationName d"

definition checkPoolMigrations :: "'d sql_lib \<Rightarrow> DBConfig \<Rightarrow> 'd \<Rightarrow> goerror" where
  "checkPoolMigrations lib c d = checkMigrations lib c PoolMigrationName d"

definition start ::
  "'f config_lib \<Rightarrow> (LogConfig \<Rightarrow> goerror) \<Rightarrow> 'd sql_lib \<Rightarrow> gostring \<Rightarrow> bool \<Rightarrow> 'd \<Rightarrow> start_outcome \<times> 'd" where
  "start conf logInit lib cfgFlag noMigrations d =
     (case Load conf cfgFlag of
        LoadError err \<Rightarrow> (StartError err, d)
      | LoadFatal \<Rightarrow> (StartFatal ''invalid configuration: Monitor.QueueSize must be greater or equal than Monitor.NumberWorkers'', d)
      | Loaded c \<Rightarrow>
          (case logInit (cf_Log c) of
             Some err \<Rightarrow> (StartPanic err, d)
           | None \<Rightarrow>
               (case (if noMigrations then (None, d) else runPoolMigrations lib (cf_DB c) d) of
                  (Some err, d1) \<Rightarrow> (StartFatal err, d1)
                | (None, d1) \<Rightarrow>
                    (case checkPoolMigrations lib (cf_DB c) d1 of
                       Some err \<Rightarrow> (StartFatal err, d1)
                     | None \<Rightarrow>
                         (case NewSQLDB lib (cf_DB c) d1 of
                            Some err \<Rightarrow> (StartFatal (''error when creating pool DB instance, error: '' @ err), d1)
                          | None \<Rightarrow> (Running c, d1))))))"

text \<open>
  C31. The components run only over a validated configuration and a database on which exactly as
  many migrations have been run as the program has with statements for the way up; with the
  flag \<open>no-migrations\<close> starting changes nothing in the database, whatever the outcome.
\<close>
theorem start_checks_schema:
  assumes "start conf logInit lib path noMigrations d = (out, d')"
  shows "(noMigrations \<longrightarrow> d' = d) \<and>
    (\<forall>c. out = Running c \<longrightarrow>
       mc_Workers (cf_Monitor c) \<le> mc_QueueSize (cf_Monitor c) \<and>
       (\<exists>ms. sl_Find lib = Inr ms \<and>
          sl_Count lib d' = Inr (int (length (filter (\<lambda>m. mg_Up m \<noteq> []) ms)))))"
proof (intro conjI allI impI)
  show "d' = d" if noMigrations
    using assms that
    by (auto simp: start_def split: load_result.splits option.splits)
next
  fix c assume out: "out = Running c"
  then have l: "Load conf path = Loaded c" and chk: "checkPoolMigrations lib (cf_DB c) d' = None"
    using assms by (auto simp: start_def split: load_result.splits option.splits prod.splits if_splits)
  show "mc_Workers (cf_Monitor c) \<le> mc_QueueSize (cf_Monitor c)"
    using Load_valid [OF l] by (simp add: validate_iff)
  show "\<exists>ms. sl_Find lib = Inr ms \<and> sl_Count lib d' = Inr (int (length (filter (\<lambda>m. mg_Up m \<noteq> []) ms)))"
    using chk by (auto simp: checkPoolMigrations_def checkMigrations_def Let_def
        split: option.splits sum.splits if_splits)
qed

text \<open>A library over a database that is the number of migrations run on it.\<close>

definition ex_sql :: "int sql_lib" where
  "ex_sql = \<lparr>sl_ParseConfig = (\<lambda>url. None), sl_Connect = (\<lambda>url d. None),
     sl_Find = Inr [\<lparr>mg_Up = [''CREATE TABLE'']\<rparr>],
     sl_Exec = (\<lambda>dir d. (Inr 1, 1)), sl_Count = (\<lambda>d. Inr d)\<rparr>"

theorem start_checks_schema_witness:
  "\<exists>ms. sl_Find ex_sql = Inr ms \<and> sl_Count ex_sql 1 = Inr (int (length (filter (\<lambda>m. mg_Up m \<noteq> []) ms)))"
proof -
  have "start ex_loader (\<lambda>_. None) ex_sql ''/app/pool.toml'' False 0 = (Running ex_conf, 1)"
    by (simp add: start_def ex_load runPoolMigrations_def RunMigrationsUp_def runMigrations_def packrMigrations_def
        checkPoolMigrations_def checkMigrations_def NewSQLDB_def ex_sql_def)
  from start_checks_schema [OF this] show ?thesis by blast
qed

end
