(* ===== verification/Command.thy ===== *)
theory Command
  imports Startup Logging
begin

section \<open>The command line\<close>

text \<open>
  The rest of \<open>cmd/main.go\<close>, with \<open>version.go\<close>: the commands that are declared for the library
  \<open>cli\<close>, what is printed and logged at the start, and the wait for a signal. Values of the
  build and of the runtime are arguments.
\<close>

subsection \<open>Commands\<close>

record cli_flag =
  fl_Name :: gostring
  fl_Aliases :: "gostring list"
  fl_Usage :: gostring
  fl_Required :: bool

record cli_command =
  cm_Name :: gostring
  cm_Usage :: gostring
  cm_Flags :: "cli_flag list"

definition FlagCfg :: gostring where "FlagCfg = ''cfg''"
definition FlagNoMigrations :: gostring where "FlagNoMigrations = ''no-migrations''"

definition configFileFlag :: cli_flag where
  "configFileFlag = \<lparr>fl_Name = FlagCfg, fl_Aliases = [''c''], fl_Usage = ''Configuration `FILE`'', fl_Required = True\<rparr>"

definition migrationsFlag :: cli_flag where
  "migrationsFlag = \<lparr>fl_Name = FlagNoMigrations, fl_Aliases = [''n''],
     fl_Usage = ''Disable run migrations in pool database'', fl_Required = False\<rparr>"

definition app_commands :: "cli_command list" where
  "app_commands =
     (let flags = [configFileFlag] in
      [\<lparr>cm_Name = ''version'', cm_Usage = ''Application version and build'', cm_Flags = []\<rparr>,
       \<lparr>cm_Name = ''run'', cm_Usage = ''Run zkEVM Pool manager'', cm_Flags = flags @ [migrationsFlag]\<rparr>])"

text \<open>\<open>main\<close>: the lines printed and the exit status, by the error of \<open>app.Run\<close>.\<close>

definition main_result :: "goerror \<Rightarrow> gostring list \<times> int" where
  "main_result run =
     (case run of
        Some err \<Rightarrow> ([[], ''ERROR: '' @ err], 1)
      | None \<Rightarrow> ([], 0))"

text \<open>No flag has two commands' meanings: names and aliases are different.\<close>

lemma run_flags_distinct:
  "\<forall>c\<in>set app_commands. distinct (concat (map (\<lambda>f. fl_Name f # fl_Aliases f) (cm_Flags c)))"
  by (simp add: app_commands_def configFileFlag_def migrationsFlag_def FlagCfg_def FlagNoMigrations_def)

subsection \<open>Versions\<close>

record build_info =
  bi_GitRev :: gostring
  bi_GitBranch :: gostring
  bi_GoVersion :: gostring
  bi_BuildDate :: gostring
  bi_GOOS :: gostring
  bi_GOARCH :: gostring

text \<open>\<open>PrintVersion\<close> of \<open>version.go\<close>.\<close>

definition PrintVersion :: "build_info \<Rightarrow> gostring" where
  "PrintVersion b = unlines
     [''Version:      '' @ Version, ''Git revision: '' @ bi_GitRev b, ''Git branch:   '' @ bi_GitBranch b,
      ''Go version:   '' @ bi_GoVersion b, ''Built:        '' @ bi_BuildDate b,
      ''OS/Arch:      '' @ bi_GOOS b @ ''/'' @ bi_GOARCH b]"

text \<open>The source passes the keys and values to \<open>Infow\<close>, whose first argument is the message.\<close>

definition logVersion ::
  "'z zap_lib \<Rightarrow> (gostring \<Rightarrow> frame list) \<Rightarrow> build_info \<Rightarrow> 'z log_state \<Rightarrow> 'z log_state option" where
  "logVersion lib trace b s =
     RootPrintw lib trace SevInfo ''Git revision''
       [FmtString (bi_GitRev b), FmtString ''Git branch'', FmtString (bi_GitBranch b), FmtString ''Go version'',
        FmtString (bi_GoVersion b), FmtString ''Built'', FmtString (bi_BuildDate b), FmtString ''OS/Arch'',
        FmtString (bi_GOOS b @ ''/'' @ bi_GOARCH b)] s"

text \<open>Keys and values as \<open>zap\<close> pairs them; a last key without a value is left over.\<close>

fun pair_up :: "'a list \<Rightarrow> ('a \<times> 'a) list \<times> 'a list" where
  "pair_up (k # v # kv) = (let (ps, r) = pair_up kv in ((k, v) # ps, r))"
| "pair_up r = ([], r)"

text \<open>
  So the revision is the key of the text \<open>Git branch\<close>, and so on, and the last value is a key
  without one.
\<close>

lemma logVersion_misaligned:
  assumes "logVersion lib trace b s = Some s'"
  shows "\<exists>l kv. lg_lines s' = lg_lines s @ [\<lparr>ll_logger = l, ll_call = LogPrintw SevInfo ''Git revision'' kv, ll_frames = 2\<rparr>]
    \<and> (FmtString (bi_GitRev b), FmtString ''Git branch'') \<in> set (fst (pair_up kv))
    \<and> snd (pair_up kv) = [FmtString (bi_GOOS b @ ''/'' @ bi_GOARCH b)]"
  using assms
  by (auto simp: logVersion_def RootPrintw_def LoggerPrintw_def zap_log_def getDefaultLog_def
      split: bind_splits option.splits sum.splits)

text \<open>What \<open>start\<close> says first, by the environment of the log.\<close>

definition announce ::
  "'z zap_lib \<Rightarrow> (gostring \<Rightarrow> frame list) \<Rightarrow> build_info \<Rightarrow> LogConfig \<Rightarrow> 'z log_state \<Rightarrow> 'z log_state option" where
  "announce lib trace b c s =
     (if lc_Environment c = EnvironmentDevelopment
      then RootPrint lib trace SevInfo [FmtString ''starting application...''] s
      else if lc_Environment c = EnvironmentProduction then logVersion lib trace b s
      else Some s)"

subsection \<open>Waiting for a signal\<close>

datatype os_signal = Interrupt | Kill | OtherSignal gostring

text \<open>
  The loop over the signals delivered: \<^term>\<open>Some\<close> exit status, or still waiting. The functions
  that cancel are run in order.
\<close>

fun waitSignal ::
  "'z zap_lib \<Rightarrow> (gostring \<Rightarrow> frame list) \<Rightarrow> ('s \<Rightarrow> 's) list \<Rightarrow> os_signal list \<Rightarrow> 'z log_state \<times> 's \<Rightarrow>
    (int option \<times> 'z log_state \<times> 's) option" where
  "waitSignal lib trace cancelFuncs [] (l, s) = Some (None, l, s)"
| "waitSignal lib trace cancelFuncs (sig # sigs) (l, s) =
     (if sig \<in> {Interrupt, Kill}
      then do { l' \<leftarrow> RootPrint lib trace SevInfo [FmtString ''terminating application gracefully...''] l;
                Some (Some 0, l', fold (\<lambda>cancel s. cancel s) cancelFuncs s) }
      else waitSignal lib trace cancelFuncs sigs (l, s))"

lemma waitSignal_exits:
  assumes "waitSignal lib trace cs sigs (l, s) = Some (status, l', s')"
  shows "status = (if set sigs \<inter> {Interrupt, Kill} = {} then None else Some 0)
    \<and> s' = (if set sigs \<inter> {Interrupt, Kill} = {} then s else fold (\<lambda>c s. c s) cs s)"
  using assms by (induction sigs) (auto split: if_splits bind_splits)

text \<open>
  \<open>start\<close> passes no functions that cancel: on an interrupt the process ends with status 0
  and nothing of what the components hold is finished first.
\<close>

lemma interrupt_abandons:
  assumes "waitSignal lib trace [] sigs (l, s) = Some (Some status, l', s')"
  shows "status = 0 \<and> s' = s"
  using waitSignal_exits [OF assms] by (auto split: if_splits)

end
