(* ===== verification/SendTxs.thy ===== *)
theory SendTxs
  imports GoStd Hex
begin

section \<open>The script that sends transactions\<close>

text \<open>
  Model of \<open>test/scripts/send_txs/main.go\<close>: it connects to the pool manager and to the node,
  sends transfers to the one and asks the other for their receipts until they are there.
  Clients, keys and transactions come from \<open>go-ethereum\<close> and are parameters: \<open>'k\<close> are the
  options for signing, \<open>'a\<close> addresses, \<open>'tx\<close> transactions, and \<open>'s\<close> is the state of what is
  at the other end of the two connections, asleep or not. A result \<^term>\<open>Inl e\<close> is the end of
  the process by \<open>log.Fatal\<close> in \<open>chkErr\<close>.
\<close>

record ('k, 'a, 'tx, 's) script_lib =
  sn_Dial :: "gostring \<Rightarrow> 's \<Rightarrow> goerror \<times> 's"
  sn_HexToECDSA :: "gostring \<Rightarrow> gostring + gobytes"
  sn_NewKeyedTransactor :: "gobytes \<Rightarrow> int \<Rightarrow> gostring + 'k"
  sn_From :: "'k \<Rightarrow> 'a"
  sn_Signer :: "'k \<Rightarrow> 'a \<Rightarrow> 'tx \<Rightarrow> gostring + 'tx"
  sn_HexToAddress :: "gostring \<Rightarrow> 'a"
  sn_NonceAt :: "'a \<Rightarrow> 's \<Rightarrow> (gostring + uint64) \<times> 's"
  sn_NewTransaction :: "uint64 \<Rightarrow> 'a \<Rightarrow> int \<Rightarrow> uint64 \<Rightarrow> int \<Rightarrow> gobytes \<Rightarrow> 'tx"
  sn_TxHash :: "'tx \<Rightarrow> gostring"
  sn_TxBinary :: "'tx \<Rightarrow> gostring + gobytes"
  sn_SendTransaction :: "'tx \<Rightarrow> 's \<Rightarrow> goerror \<times> 's"
  sn_TransactionReceipt :: "gostring \<Rightarrow> 's \<Rightarrow> (gostring + uint64) \<times> 's"
  sn_Sleep :: "duration \<Rightarrow> 's \<Rightarrow> 's"

subsection \<open>Operations\<close>

definition GetAuth :: "('k, 'a, 'tx, 's) script_lib \<Rightarrow> gostring \<Rightarrow> uint64 \<Rightarrow> gostring + 'k" where
  "GetAuth lib privateKeyStr chainID =
     (case sn_HexToECDSA lib (TrimPrefix ''0x'' privateKeyStr) of
        Inl err \<Rightarrow> Inl err
      | Inr privateKey \<Rightarrow> sn_NewKeyedTransactor lib privateKey (uint chainID))"

definition ethTransfer ::
  "('k, 'a, 'tx, 's) script_lib \<Rightarrow> 'k \<Rightarrow> 'a \<Rightarrow> int \<Rightarrow> uint64 \<Rightarrow> 's \<Rightarrow> (gostring + 'tx) \<times> 's" where
  "ethTransfer lib auth to amount nonce s =
     (let tx = sn_NewTransaction lib nonce to amount 2000000 1000000000 [] in
      case sn_Signer lib auth (sn_From lib auth) tx of
        Inl err \<Rightarrow> (Inl err, s)
      | Inr signedTx \<Rightarrow>
          (case sn_SendTransaction lib signedTx s of
             (Some err, s') \<Rightarrow> (Inl err, s')
           | (None, s') \<Rightarrow> (Inr signedTx, s')))"

text \<open>\<^term>\<open>None\<close> when it asks for ever; otherwise the status of the receipt.\<close>

partial_function (option) waitForReceipt ::
  "('k, 'a, 'tx, 's) script_lib \<Rightarrow> gostring \<Rightarrow> 's \<Rightarrow> (uint64 \<times> 's) option" where
  "waitForReceipt lib txHash s =
     (case sn_TransactionReceipt lib txHash s of
        (Inr status, s') \<Rightarrow> Some (status, s')
      | (Inl err, s') \<Rightarrow> waitForReceipt lib txHash (sn_Sleep lib 500000 s'))"

text \<open>The two loops of \<open>main\<close>: the hashes sent, and the statuses of their receipts.\<close>

fun send_loop ::
  "('k, 'a, 'tx, 's) script_lib \<Rightarrow> 'k \<Rightarrow> 'a \<Rightarrow> int \<Rightarrow> uint64 list \<Rightarrow> gostring list \<Rightarrow> 's \<Rightarrow>
    (gostring + gostring list) \<times> 's" where
  "send_loop lib auth to amount [] txs s = (Inr txs, s)"
| "send_loop lib auth to amount (nonce # nonces) txs s =
     (case ethTransfer lib auth to amount nonce s of
        (Inl err, s') \<Rightarrow> (Inl err, s')
      | (Inr tx, s') \<Rightarrow>
          (case sn_TxBinary lib tx of
             Inl err \<Rightarrow> (Inl err, s')
           | Inr rlp \<Rightarrow> send_loop lib auth to amount nonces (txs @ [sn_TxHash lib tx]) s'))"

fun wait_loop ::
  "('k, 'a, 'tx, 's) script_lib \<Rightarrow> gostring list \<Rightarrow> 's \<Rightarrow> (uint64 list \<times> 's) option" where
  "wait_loop lib [] s = Some ([], s)"
| "wait_loop lib (h # hs) s = do {
     (status, s1) \<leftarrow> waitForReceipt lib h s;
     (rest, s2) \<leftarrow> wait_loop lib hs s1;
     Some (status # rest, s2) }"

definition poolManagerURL :: gostring where "poolManagerURL = ''http://localhost:8545''"
definition l2NodeURL :: gostring where "l2NodeURL = ''http://localhost:8467''"
definition privateKey :: gostring where
  "privateKey = ''0x26e86e45f6fc45ec6e2ecd128cec80fa1d1505e5507dcd2ae58c3130a7a97b48''"
definition receiverAddr :: gostring where "receiverAddr = ''0x617b3a3528F9cDd6630fd3301B9c8911F7Bf063D''"

definition send_txs_main ::
  "('k, 'a, 'tx, 's) script_lib \<Rightarrow> 's \<Rightarrow> ((gostring + uint64 list) \<times> 's) option" where
  "send_txs_main lib s =
     (case sn_Dial lib poolManagerURL s of
        (Some err, s1) \<Rightarrow> Some (Inl err, s1)
      | (None, s1) \<Rightarrow> (case sn_Dial lib l2NodeURL s1 of
          (Some err, s2) \<Rightarrow> Some (Inl err, s2)
        | (None, s2) \<Rightarrow> (case GetAuth lib privateKey 999999 of
            Inl err \<Rightarrow> Some (Inl err, s2)
          | Inr auth \<Rightarrow> (case sn_NonceAt lib (sn_From lib auth) s2 of
              (Inl err, s3) \<Rightarrow> Some (Inl err, s3)
            | (Inr nonce, s3) \<Rightarrow>
                (case send_loop lib auth (sn_HexToAddress lib receiverAddr) 1 (map (\<lambda>i. nonce + of_nat i) [0..<1]) [] s3 of
                   (Inl err, s4) \<Rightarrow> Some (Inl err, s4)
                 | (Inr txs, s4) \<Rightarrow> map_option (\<lambda>(statuses, s5). (Inr statuses, s5)) (wait_loop lib txs s4))))))"

subsection \<open>Waiting\<close>

text \<open>The state after \<open>n\<close> asks without a receipt, each followed by a sleep.\<close>

fun asked :: "('k, 'a, 'tx, 's) script_lib \<Rightarrow> gostring \<Rightarrow> nat \<Rightarrow> 's \<Rightarrow> 's" where
  "asked lib h 0 s = s"
| "asked lib h (Suc n) s = asked lib h n (sn_Sleep lib 500000 (snd (sn_TransactionReceipt lib h s)))"

definition has_receipt :: "('k, 'a, 'tx, 's) script_lib \<Rightarrow> gostring \<Rightarrow> 's \<Rightarrow> bool" where
  "has_receipt lib h s = (case fst (sn_TransactionReceipt lib h s) of Inl err \<Rightarrow> False | Inr status \<Rightarrow> True)"

lemma wait_again:
  "\<not> has_receipt lib h s \<Longrightarrow> waitForReceipt lib h s = waitForReceipt lib h (asked lib h 1 s)"
  by (subst waitForReceipt.simps) (auto simp: has_receipt_def split: prod.splits sum.splits)

lemma wait_done:
  "has_receipt lib h s \<Longrightarrow> \<exists>status. sn_TransactionReceipt lib h s = (Inr status, snd (sn_TransactionReceipt lib h s))
     \<and> waitForReceipt lib h s = Some (status, snd (sn_TransactionReceipt lib h s))"
  by (subst waitForReceipt.simps) (auto simp: has_receipt_def split: prod.splits sum.splits)

lemma wait_returns:
  "has_receipt lib h (asked lib h n s) \<Longrightarrow> waitForReceipt lib h s \<noteq> None"
proof (induction n arbitrary: s)
  case 0
  then show ?case using wait_done by fastforce
next
  case (Suc n)
  show ?case
  proof (cases "has_receipt lib h s")
    case True
    then show ?thesis using wait_done by fastforce
  next
    case False
    then show ?thesis using Suc.IH [of "asked lib h 1 s"] Suc.prems wait_again [OF False] by simp
  qed
qed

lemma wait_needs:
  assumes "waitForReceipt lib h s = Some r"
  shows "\<exists>n. has_receipt lib h (asked lib h n s)"
proof (rule waitForReceipt.raw_induct [where P = "\<lambda>lib h s r. \<exists>n. has_receipt lib h (asked lib h n s)", OF _ assms], goal_cases)
  case (1 f lib h s r)
  show ?case
  proof (cases "has_receipt lib h s")
    case True
    then show ?thesis by (intro exI [of _ 0]) simp
  next
    case False
    then obtain e s1 where ask: "sn_TransactionReceipt lib h s = (Inl e, s1)"
      by (cases "sn_TransactionReceipt lib h s") (auto simp: has_receipt_def split: sum.splits)
    then have "f lib h (sn_Sleep lib 500000 s1) = Some r" using 1(2) by simp
    from 1(1) [OF this] obtain n where "has_receipt lib h (asked lib h n (sn_Sleep lib 500000 s1))" by blast
    then show ?thesis using ask by (intro exI [of _ "Suc n"]) simp
  qed
qed

text \<open>
  \<open>waitForReceipt\<close> returns exactly when the node has the receipt at one of the times it is
  asked; there is no other end, also not for a transaction that will never be mined.
\<close>

lemma wait_returns_iff: "waitForReceipt lib h s \<noteq> None \<longleftrightarrow> (\<exists>n. has_receipt lib h (asked lib h n s))"
  using wait_returns wait_needs by fastforce

end
