(* ===== verification/Spec2Isabelle.thy ===== *)
theory Spec2Isabelle
  imports RequestList PoolDB MonitorProps MonitorHandlers Sender PipelineTable PipelineCall Encoding PoolServer ServerRun Command SendTxs
begin

section \<open>The zkEVM pool manager\<close>

text \<open>
  A model of \<open>zkevm-pool-manager\<close>, the service that takes raw transactions over JSON-RPC, stores
  them in a PostgreSQL table, sends them to the sequencer and watches an L2 node for their
  receipts. Its parts, and how they interact:

  \<^item> \<open>server\<close> reads an HTTP request, finds the endpoint, and the endpoint \<open>SendRawTransaction\<close>
    stores the transaction as \<open>pending\<close> and hands it to the sender;
  \<^item> \<open>sender\<close> queues it for its workers, which call the sequencer; by the answer it becomes \<open>sent\<close>
    or \<open>invalid\<close>, and a sent one goes to the monitor. A loop sends again what is marked \<open>resend\<close>;
  \<^item> \<open>monitor\<close> queues it for its workers, which ask the node for the receipt, and keeps a list of
    requests to ask for again, sorted by time; it ends as \<open>confirmed\<close>, \<open>failed\<close> or \<open>expired\<close>;
  \<^item> \<open>db\<close> is the table behind all of them, \<open>hex\<close> and \<open>encoding\<close> read and write numbers and bytes,
    \<open>config\<close> and \<open>cmd\<close> put the parts together.

  Correspondence: a theory per component, in which a record is a struct, its fields with a
  prefix, and a function has the name of the Go function. A call that does not return, because it
  panics or because it waits for ever, is \<^const>\<open>None\<close> of an \<open>option\<close> (in a step relation a panic is
  \<open>Some None\<close> and a step that is not enabled \<^const>\<open>None\<close>), a Go error an \<open>option\<close> of its message, an integer a word of its width where it is
  fixed, a time its wall clock and monotonic readings in nanoseconds. What is not in the
  repository is a parameter: the sequencer, the node, PostgreSQL and its driver,
  \<open>go-ethereum\<close>, \<open>viper\<close>, the migration library, and of the standard library floating-point
  conversions, the tables of \<open>unicode\<close> beyond ASCII and \<open>mime.ParseMediaType\<close>.
\<close>

text \<open>
  The standard library, as far as the program uses it:

  \<^item> \<open>Prelude\<close>: conventions, types, lemmas on lists and multisets.
  \<^item> \<open>GoStd\<close>: times and durations, slices with their bounds, \<open>sort.Search\<close> as a loop with a
    termination proof.
  \<^item> \<open>GoText\<close>: strings, digits, \<open>strconv\<close>, \<open>big.Int\<close> and \<open>encoding/hex\<close>.
  \<^item> \<open>GoUtf8\<close>, \<open>GoJson\<close>: \<open>encoding/json\<close> with its scanner, UTF-8 and escapes. The parser has
    fuel; twice the length of the text is enough, more changes nothing (lemma \<open>parse_fuel\<close>), and
    what is written is read back (\<open>json_roundtrip\<close>, for all strings of valid UTF-8).
  \<^item> \<open>GoFmt\<close>: \<open>fmt.Sprintf\<close> for the verbs the program uses, with what it writes for arguments
    that are missing or left over.
  \<^item> \<open>GoDuration\<close>: \<open>time.ParseDuration\<close> with its checks for overflow.

  The components:

  \<^item> \<open>L2Transaction\<close> (\<open>types/l2transaction.go\<close>): the record and the statuses.
  \<^item> \<open>Hex\<close>, \<open>Encoding\<close> (\<open>hex/hex.go\<close>, \<open>encoding/encoding.go\<close>): every function; round trips, what
    is accepted, ranges.
  \<^item> \<open>RequestList\<close> (\<open>monitor/request_list.go\<close>): the map and the sorted slice over a store of
    requests that the monitor also writes. Adding is a stable insertion by the time of the
    next retry; any sequence of additions and deletions answers as on a set of
    identifiers; when deleting does and does not work.
  \<^item> \<open>PoolDB\<close> (\<open>db/pooldb.go\<close>, the migration): the rows, the serial key, every statement with
    its failures, also of the reply alone. Locale \<open>status_store\<close> is what the monitor and
    the sender rely on.
  \<^item> \<open>Monitor\<close> (\<open>monitor/monitor.go\<close>): each handler as a function of the state;
    \<open>MonitorHandlers\<close>: what each does on every branch, and that it is a run of the steps below.
  \<^item> \<open>MonitorSteps\<close>: the same handlers as interleaved steps of goroutines, with the channel and
    the condition variable. \<open>AddL2Transaction\<close> takes any transaction; what is assumed of its
    callers, a discipline, is apart from the steps (\<open>act_under\<close>): only new identifiers, or only
    transactions of which one hash has one identifier. \<open>MonitorInv\<close>: the invariant of the states
    reached under a discipline; \<open>MonitorProps\<close>: nothing is forgotten, no panic and one final status
    under new identifiers, what the retry loop can do while it sleeps, and a run without a
    discipline that loses a transaction.
  \<^item> \<open>Sender\<close> (\<open>sender/sender.go\<close>): the handlers with their request carried to a worker and back,
    or waiting for ever when no worker has dialled, over the locale \<open>sender_env\<close>; \<open>SenderQueue\<close>: callers, enqueuing goroutines, channel and
    workers interleaved, with a measure of the work left.
  \<^item> \<open>Endpoints\<close> (\<open>server/endpoints.go\<close>, \<open>server/errors.go\<close>), \<open>Rpc\<close> (\<open>server/handler.go\<close>,
    \<open>server/types.go\<close>) and \<open>HttpServer\<close> (\<open>server/server.go\<close>): from the bytes of an HTTP request
    to the endpoint and back, over the locales \<open>rpc_service\<close> and \<open>http_service\<close>.
  \<^item> \<open>PoolSystem\<close>: database, sender and monitor together, one call at a time, each running to its
    end; \<open>PoolServer\<close>: the server over them. In the good states of both, \<open>sys_inv\<close>, a worker of the
    sender has dialled; without one a valid transaction is never answered (lemma
    \<open>server_waits\<close>). The locales are interpreted here.
  \<^item> \<open>Pipeline\<close>: the same three with all goroutines interleaved: the steps of \<open>SenderQueue\<close> and
    \<open>MonitorSteps\<close> over one table, and the callers between them, who insert, send, store the
    answer and hand over. No step is restricted; what is assumed of a run is a predicate on its
    actions: \<open>hands_ok\<close>, a discipline of the hand-overs, or \<open>orderly\<close>. \<open>PipelineInv\<close>: invariants
    of every run; \<open>PipelineOrder\<close>: those of the runs after an orderly start, which keep the
    discipline of new identifiers; \<open>PipelineProps\<close>: the theorems; \<open>PipelineSettle\<close>: a
    measure of the work left, and what holds when there is none; \<open>PipelineTable\<close>: who has
    each row, and the table when the work is done; \<open>PipelineCall\<close>: the calls of
    \<open>PoolSystem\<close> are runs of the pipeline.
  \<^item> \<open>Logging\<close> (\<open>log\<close>): creating the logger, its functions and what they hand to \<open>zap\<close>, the
    stack traces added to a message, the logger of the database driver.
  \<^item> \<open>Config\<close> (\<open>config\<close>), \<open>Startup\<close> (\<open>db/db.go\<close>, \<open>cmd/main.go\<close>): built-in values, loading,
    validation, migrations, start.
  \<^item> \<open>ServerRun\<close>, \<open>Command\<close>: listening and stopping (\<open>server/server.go\<close>), the commands with
    their flags, and the wait for a signal (\<open>cmd\<close>).
  \<^item> \<open>SendTxs\<close> (\<open>test/scripts/send_txs\<close>): the script that sends transactions and waits for
    their receipts, for ever if there are none.
\<close>

text \<open>
  What the properties show, by component. The whole path: what one HTTP request does to the
  answer, the table, the sequencer and the monitor, and that, with a worker of the sender that has
  dialled and one request at a time, no request whatever breaks the system. The whole under
  interleaving: in runs whose hand-overs keep a discipline a transaction accepted by the sequencer
  is never lost, and there is one panic only, which is reached; after an orderly start (both
  queries done before the server listens, insertions succeed, nobody marks rows for resending)
  statuses only go forward, what the monitor has stored stays and nothing panics, but the retry
  loop can miss its wake-up and sleep for ever, and requests of a monitor whose workers could not
  dial are never decided. Without new requests it comes to rest after a bounded number of steps, and
  at rest every caller has its answer; over a database that works no row is then pending, and
  the sent rows are those in the retry list. Calls in one piece are runs of it. The monitor under
  interleaving: invariant, safety, and the runs in which it goes wrong. The sender under
  interleaving: every caller gets the answer to its own transaction, and who waits for ever when no worker could dial. Handlers
  and loops of monitor and sender: their outcome on every branch and their refinement by
  steps. The protocol: batches as sequences of single requests, limits, parameters, errors.
  The retry list, the table, texts and numbers: functional behaviour and round trips.

  Bounds: the words have the widths of the source; the serial key ends at 2147483647; the
  scanner of JSON allows 10000 levels. Words that count workers and queue places are 16 bits
  wide, so all queues are finite.

  Not modelled: how the libraries \<open>tollbooth\<close> and \<open>net/http\<close> enforce the rate and the time
  limits that the server hands to them; the generated mocks.
  Time passes by arbitrary readings of the clock; sleeping is the value returned.
\<close>

end
